(* ===== verification/Aic_Prelude.thy ===== *)
theory Aic_Prelude
  imports Main "HOL-Library.Word" "HOL-Library.Multiset"
begin

unbundle bit_operations_syntax

text \<open>
  Shared material of the development: names for the C integer types of the driver, the flag
  tests the driver writes as \<open>x & MASK\<close>, the faults that a C execution can run into and that
  the models return as values, and the generic lemmas on lists, words and counting that the
  component theories use.  Rewrite rules on flag words are collected in \<open>flags\<close>; the
  component theories collect what their operations leave unchanged in \<open>frame\<close>.
\<close>

named_theorems flags \<open>rewrite rules for flag tests on words\<close>
named_theorems frame \<open>what an operation leaves unchanged\<close>

section \<open>C integer types\<close>

type_synonym u8 = "8 word"
type_synonym u16 = "16 word"
type_synonym u32 = "32 word"
type_synonym u64 = "64 word"

text \<open>
  What can go wrong in C beyond a returned error code: the models return these faults instead
  of leaving the outcome of the C execution undefined.
\<close>

datatype fault =
    Null_Deref          \<comment> \<open>a NULL pointer is dereferenced\<close>
  | List_Poison         \<comment> \<open>\<open>list_del\<close> on an entry that is not linked\<close>
  | Unlock_Not_Held     \<comment> \<open>a spinlock is released that is not held\<close>
  | Out_Of_Bounds       \<comment> \<open>a read or a write outside an object\<close>
  | Bad_Free            \<comment> \<open>memory is freed that is not allocated\<close>
  | Bug_On              \<comment> \<open>a \<open>BUG_ON\<close> or \<open>BUG\<close> of the source fires\<close>

type_synonym 'a outcome = "fault + 'a"

fun and_then :: "'a outcome \<Rightarrow> ('a \<Rightarrow> 'b outcome) \<Rightarrow> 'b outcome" where
  "and_then (Inl f) g = Inl f"
| "and_then (Inr x) g = g x"

text \<open>A loop over a list whose body may fault.\<close>

fun for_each :: "('a \<Rightarrow> 's \<Rightarrow> 's outcome) \<Rightarrow> 'a list \<Rightarrow> 's \<Rightarrow> 's outcome" where
  "for_each f [] s = Inr s"
| "for_each f (x # xs) s = and_then (f x s) (for_each f xs)"

lemma for_each_invariant:
  assumes "P s" "for_each f xs s = Inr t" "\<And>x u v. P u \<Longrightarrow> f x u = Inr v \<Longrightarrow> P v"
  shows "P t"
  using assms(1,2)
proof (induction xs arbitrary: s)
  case (Cons x xs)
  then obtain u where "f x s = Inr u" "for_each f xs u = Inr t" by (cases "f x s") auto
  then show ?case using Cons assms(3) by blast
qed simp

lemma and_then_Inr: "and_then r g = Inr y \<longleftrightarrow> (\<exists>x. r = Inr x \<and> g x = Inr y)"
  by (cases r) auto

lemma for_each_total: "for_each (\<lambda>x s. Inr (f x s)) xs s = Inr (fold f xs s)"
  by (induction xs arbitrary: s) simp_all

section \<open>Flag words\<close>

definition has :: "'a::len word \<Rightarrow> 'a word \<Rightarrow> bool" where
  "has w m \<longleftrightarrow> w AND m \<noteq> 0"

lemma has_or [flags]: "has (w OR m) k \<longleftrightarrow> has w k \<or> has m k"
  by (simp add: has_def bit.conj_disj_distrib2 or_eq_0_iff)

lemma has_clear_other [flags]: "m AND k = 0 \<Longrightarrow> has (w AND NOT m) k \<longleftrightarrow> has w k"
proof -
  assume "m AND k = 0"
  then have "(w AND NOT m) AND k = w AND k"
    by (auto simp: bit_eq_iff bit_simps)
  then show ?thesis by (simp add: has_def)
qed

lemma has_clear_same [flags]: "k AND NOT m = 0 \<Longrightarrow> \<not> has (w AND NOT m) k"
proof -
  assume "k AND NOT m = 0"
  then have "(w AND NOT m) AND k = 0"
    by (auto simp: bit_eq_iff bit_simps)
  then show ?thesis by (simp add: has_def)
qed

lemma has_and [flags]: "has (w AND m) k \<longleftrightarrow> has w (m AND k)"
  by (simp add: has_def and.assoc)

lemma has_none [flags, simp]: "\<not> has w 0"
  by (simp add: has_def)

lemma has_zero [flags, simp]: "\<not> has 0 k"
  by (simp add: has_def)

lemma has_numeral [flags, simp]:
  "has (numeral a :: 'a::len word) (numeral b) \<longleftrightarrow> (numeral a :: 'a word) AND numeral b \<noteq> 0"
  "has (numeral a :: 'a::len word) 1 \<longleftrightarrow> (numeral a :: 'a word) AND 1 \<noteq> 0"
  "has (1 :: 'a::len word) (numeral b) \<longleftrightarrow> (1 :: 'a word) AND numeral b \<noteq> 0"
  "has (1 :: 'a::len word) 1"
  by (simp_all add: has_def)

lemma has_exp: "has w (2 ^ n) \<longleftrightarrow> bit w n"
  by (simp add: has_def bit_iff_and_push_bit_not_eq_0 push_bit_eq_mult)

lemma bit_255_int: "bit (255 :: int) n \<longleftrightarrow> n < 8"
proof -
  have "(255 :: int) = mask 8"
    by (simp add: mask_eq_exp_minus_1)
  then show ?thesis by (simp only: bit_mask_iff) simp
qed

lemma xor_eq_zero: "x XOR y = 0 \<longleftrightarrow> x = y" for x y :: "'a::len word"
  by (auto simp: bit_eq_iff bit_xor_iff)

lemma xor_left_cancel: "x XOR y = x XOR z \<longleftrightarrow> y = z" for x y z :: "'a::len word"
  by (auto simp: bit_eq_iff bit_xor_iff)

lemma has_mask_or: "has w (m OR k) \<longleftrightarrow> has w m \<or> has w k"
  by (simp add: has_def bit.conj_disj_distrib or_eq_0_iff)

text \<open>A word in the lower half of its range is the same number signed.\<close>

lemma sint_lower_half:
  fixes w :: "'a::len word"
  assumes "unat w < 2 ^ (LENGTH('a) - 1)"
  shows "sint w = int (unat w)"
proof -
  have u: "uint w = int (unat w)" by simp
  have "int (unat w) < 2 ^ (LENGTH('a) - 1)" using assms by (metis of_nat_less_iff of_nat_numeral of_nat_power)
  moreover have "- (2 ^ (LENGTH('a) - 1)) \<le> int (unat w)" by (rule order_trans [of _ 0]) simp_all
  ultimately show ?thesis unfolding sint_uint u by (intro signed_take_bit_int_eq_self) simp_all
qed

section \<open>Lists\<close>

lemma map_upd_distinct:
  assumes "distinct xs" "i < length xs" "\<And>y. y \<in> set xs \<Longrightarrow> y \<noteq> xs ! i \<Longrightarrow> f y = g y"
  shows "map f xs = (map g xs)[i := f (xs ! i)]"
proof (rule nth_equalityI)
  fix j assume "j < length (map f xs)"
  then show "map f xs ! j = (map g xs)[i := f (xs ! i)] ! j"
    using assms by (cases "j = i") (auto simp: nth_list_update nth_eq_iff_index_eq)
qed simp

lemma sorted_last_zero: "sorted xs \<Longrightarrow> xs \<noteq> [] \<Longrightarrow> last xs = (0 :: nat) \<Longrightarrow> x \<in> set xs \<Longrightarrow> x = 0"
  by (induction xs rule: rev_induct) (auto simp: sorted_append)

lemma set_remove1_subset: "x \<in> set (remove1 y xs) \<Longrightarrow> x \<in> set xs"
  by (metis notin_set_remove1)

text \<open>Replacing one element of a list, under a sum in a commutative monoid.\<close>

lemma sum_list_map_update:
  fixes f :: "'a \<Rightarrow> 'b::comm_monoid_add"
  shows "k < length xs \<Longrightarrow> sum_list (map f (xs[k := y])) + f (xs ! k) = sum_list (map f xs) + f y"
proof (induction xs arbitrary: k)
  case (Cons x xs)
  then show ?case by (cases k) (simp_all add: add.assoc add.commute add.left_commute)
qed simp

section \<open>Reachable states and their invariants\<close>

text \<open>
  The states a step relation reaches from an initial state.  A component with a step relation
  interprets \<open>invariant_of\<close> on it; the fact \<open>holds\<close> of the interpretation says that its invariant
  holds in every reachable state.
\<close>

inductive reachable :: "'s \<Rightarrow> ('s \<Rightarrow> 's \<Rightarrow> bool) \<Rightarrow> 's \<Rightarrow> bool" for init step where
  reach_init: "reachable init step init"
| reach_step: "reachable init step s \<Longrightarrow> step s t \<Longrightarrow> reachable init step t"

locale invariant_of =
  fixes init :: 's
    and step :: "'s \<Rightarrow> 's \<Rightarrow> bool"
    and inv :: "'s \<Rightarrow> bool"
  assumes inv_init: "inv init"
    and inv_step: "inv s \<Longrightarrow> step s t \<Longrightarrow> inv t"
begin

lemma holds: "reachable init step s \<Longrightarrow> inv s"
  by (induction rule: reachable.induct) (auto intro: inv_init inv_step)

end

section \<open>Pools of preallocated objects\<close>

text \<open>
  The driver allocates commands and receive frames from fixed pools.  \<open>taken s\<close> is the set of
  objects of the pool that are in use.
\<close>

locale pool =
  fixes alloc :: "'s \<Rightarrow> 'o option \<times> 's"
    and release :: "'o \<Rightarrow> 's \<Rightarrow> 's"
    and taken :: "'s \<Rightarrow> 'o set"
    and objects :: "'o set"
    and wf :: "'s \<Rightarrow> bool"
  assumes alloc_Some: "wf s \<Longrightarrow> alloc s = (Some x, t) \<Longrightarrow>
      wf t \<and> x \<in> objects \<and> x \<notin> taken s \<and> taken t = insert x (taken s)"
    and alloc_None: "wf s \<Longrightarrow> alloc s = (None, t) \<Longrightarrow> t = s \<and> objects \<subseteq> taken s"
    and release: "wf s \<Longrightarrow> x \<in> taken s \<Longrightarrow> wf (release x s) \<and> taken (release x s) = taken s - {x}"
    and taken_objects: "wf s \<Longrightarrow> taken s \<subseteq> objects"
begin

lemma alloc_succeeds_iff: "wf s \<Longrightarrow> (\<exists>x t. alloc s = (Some x, t)) \<longleftrightarrow> taken s \<noteq> objects"
  using alloc_Some [of s] alloc_None [of s] taken_objects [of s]
  by (cases "alloc s"; cases "fst (alloc s)") fastforce+

lemma alloc_twice_distinct:
  "wf s \<Longrightarrow> alloc s = (Some x, t) \<Longrightarrow> alloc t = (Some y, u) \<Longrightarrow> x \<noteq> y"
  using alloc_Some [of s x t] alloc_Some [of t y u] by auto

lemma alloc_after_release:
  assumes "wf s" "x \<in> taken s"
  shows "\<exists>y t. alloc (release x s) = (Some y, t)"
proof -
  have "wf (release x s)" "x \<notin> taken (release x s)" "x \<in> objects"
    using assms release taken_objects by blast+
  then show ?thesis using alloc_succeeds_iff by blast
qed

end

end
