(* ===== verification/Cmd_Frame.thy ===== *)
theory Cmd_Frame
  imports Aic_Prelude
begin

text \<open>
  The wire format of a command message: \<open>put_u16\<close> (rwnx\_cmds.h), the CRC-8 of the SDIO header
  \<open>crc8_ponl_107\<close> (aicwf\_sdio.c) and \<open>aicwf_set_cmd_tx\<close> (rwnx\_cmds.c), which copies a message
  into the command buffer of the bus.  The lemmas show that the receiver can recover the message
  from the frame, and which header corruptions the CRC detects.
\<close>

section \<open>Data\<close>

text \<open>The chips the driver serves (\<open>enum AICWF_IC\<close>).\<close>

datatype AICWF_IC =
    PRODUCT_ID_AIC8801
  | PRODUCT_ID_AIC8800DC
  | PRODUCT_ID_AIC8800DW
  | PRODUCT_ID_AIC8800D80
  | PRODUCT_ID_AIC8800D80N
  | PRODUCT_ID_AIC8800D80WN
  | PRODUCT_ID_AIC8800D80X2

text \<open>
  \<open>struct lmac_msg\<close>.  The flexible array \<open>param\<close> is the list of its bytes; \<open>rwnx_msg_zalloc\<close>
  allocates exactly \<open>param_len\<close> of them.
\<close>

record lmac_msg =
  msg_id :: u16
  dest_id :: u16
  src_id :: u16
  param_len :: u16
  param :: "u8 list"

definition CMD_BUF_MAX :: nat where
  "CMD_BUF_MAX = 1536"

definition sizeof_lmac_msg :: nat where
  "sizeof_lmac_msg = 8"

text \<open>\<open>mem\<close> says whether the allocation succeeds.\<close>

definition rwnx_msg_zalloc :: "bool \<Rightarrow> u16 \<Rightarrow> u16 \<Rightarrow> u16 \<Rightarrow> u16 \<Rightarrow> lmac_msg option" where
  "rwnx_msg_zalloc mem i d s n =
     (if mem then Some \<lparr>msg_id = i, dest_id = d, src_id = s, param_len = n, param = replicate (unat n) 0\<rparr>
      else None)"

definition put_u16 :: "u16 \<Rightarrow> u8 list" where
  "put_u16 d = [ucast (d AND 0x00ff), ucast (drop_bit 8 d AND 0x00ff)]"

section \<open>CRC-8 of the SDIO header\<close>

text \<open>One round of the inner loop: shift, reduce by \<open>0x107\<close>, add the message bit.\<close>

definition crc8_step :: "bool \<Rightarrow> u8 \<Rightarrow> u8" where
  "crc8_step m crc =
     (let c = (if has crc 0x80 then (crc * 2) XOR 0x07 else crc * 2)
      in if m then c XOR 0x07 else c)"

text \<open>The inner loop \<open>for (i = 0x80; i > 0; i /= 2)\<close> and the outer loop over the bytes.\<close>

fun crc8_bits :: "nat \<Rightarrow> u8 \<Rightarrow> u8 \<Rightarrow> u8" where
  "crc8_bits i b crc =
     (if i = 0 then crc else crc8_bits (i div 2) b (crc8_step (has b (of_nat i)) crc))"

declare crc8_bits.simps [simp del]

fun crc8_loop :: "nat \<Rightarrow> u8 list \<Rightarrow> u8 \<Rightarrow> u8 outcome" where
  "crc8_loop 0 bs crc = Inr crc"
| "crc8_loop (Suc n) [] crc = Inl Out_Of_Bounds"
| "crc8_loop (Suc n) (b # bs) crc = crc8_loop n bs (crc8_bits 0x80 b crc)"

definition crc8_ponl_107 :: "u8 list \<Rightarrow> u16 \<Rightarrow> u8 outcome" where
  "crc8_ponl_107 p_buffer cal_size =
     (if cal_size = 0 then Inr 0 else crc8_loop (unat cal_size) p_buffer 0)"

section \<open>aicwf\_set\_cmd\_tx\<close>

text \<open>
  The frame handed to \<open>aicwf_bus_txmsg\<close>: \<open>len + 8\<close> bytes of the command buffer, which was
  cleared first.  \<open>len\<close> is \<open>sizeof(struct lmac_msg) + param_len\<close> at every call.  The buffer
  holds \<open>CMD_BUF_MAX\<close> bytes, so a longer parameter overruns it.
\<close>

definition cmd_header :: "AICWF_IC \<Rightarrow> nat \<Rightarrow> u8 list" where
  "cmd_header chipid len =
     (let b0 = word_of_nat (len + 4) AND (0x00ff :: u32);
          b1 = drop_bit 8 (word_of_nat (len + 4)) AND (0x0f :: u32);
          h = [ucast b0, ucast b1, 0x11]
      in h @ [if chipid \<in> {PRODUCT_ID_AIC8801, PRODUCT_ID_AIC8800DC, PRODUCT_ID_AIC8800DW}
              then 0
              else (case crc8_ponl_107 h 3 of Inr c \<Rightarrow> c | Inl _ \<Rightarrow> 0)])"

definition aicwf_set_cmd_tx :: "AICWF_IC \<Rightarrow> lmac_msg \<Rightarrow> u8 list outcome" where
  "aicwf_set_cmd_tx chipid msg =
     (let len = sizeof_lmac_msg + unat (param_len msg)
      in if unat (param_len msg) > length (param msg) \<or> 16 + unat (param_len msg) > CMD_BUF_MAX
         then Inl Out_Of_Bounds
         else Inr (cmd_header chipid len @ replicate 4 0
                   @ put_u16 (msg_id msg) @ put_u16 (dest_id msg)
                   @ put_u16 (src_id msg) @ put_u16 (param_len msg)
                   @ take (unat (param_len msg)) (param msg)))"

text \<open>What the receiving side reads back out of a frame.\<close>

definition get_u16 :: "u8 list \<Rightarrow> nat \<Rightarrow> u16" where
  "get_u16 bs i = ucast (bs ! i) OR push_bit 8 (ucast (bs ! Suc i))"

definition frame_decode :: "u8 list \<Rightarrow> lmac_msg" where
  "frame_decode bs =
     \<lparr>msg_id = get_u16 bs 8, dest_id = get_u16 bs 10, src_id = get_u16 bs 12,
      param_len = get_u16 bs 14, param = drop 16 bs\<rparr>"

section \<open>Lemmas\<close>

lemma length_put_u16 [simp]: "length (put_u16 d) = 2"
  by (simp add: put_u16_def)

lemma put_get_u16:
  "ucast (ucast (d AND 0x00ff) :: u8) OR push_bit 8 (ucast (ucast (drop_bit 8 d AND 0x00ff) :: u8))
     = (d :: u16)"
  by (rule bit_word_eqI) (auto simp: bit_simps bit_255_int)

lemma crc8_bits_unfold:
  "crc8_bits 0x80 b c =
     crc8_step (bit b 0) (crc8_step (bit b 1) (crc8_step (bit b 2) (crc8_step (bit b 3)
       (crc8_step (bit b 4) (crc8_step (bit b 5) (crc8_step (bit b 6)
         (crc8_step (bit b 7) c)))))))"
  using has_exp [of b 0] has_exp [of b 1] has_exp [of b 2] has_exp [of b 3]
    has_exp [of b 4] has_exp [of b 5] has_exp [of b 6] has_exp [of b 7]
  by (simp add: crc8_bits.simps)

lemma crc8_step_xor: "crc8_step m c = push_bit 1 c XOR (if bit c 7 \<noteq> m then 7 else 0)"
  using has_exp [of c 7]
  by (simp add: crc8_step_def Let_def xor.assoc push_bit_eq_mult mult.commute)

text \<open>The CRC register is linear in the register and the message bits together.\<close>

lemma crc8_step_linear:
  "crc8_step (m \<noteq> m') (c XOR c') = crc8_step m c XOR crc8_step m' c'"
  by (cases "bit c 7 = m"; cases "bit c' 7 = m'")
    (auto simp: crc8_step_xor push_bit_xor bit_xor_iff xor.assoc xor.commute xor.left_commute)

lemma crc8_bits_linear:
  "crc8_bits 0x80 (b XOR b') (c XOR c') = crc8_bits 0x80 b c XOR crc8_bits 0x80 b' c'"
  by (simp only: crc8_bits_unfold bit_xor_iff crc8_step_linear)

lemma crc8_step_aligned: "crc8_step (bit c 7) c = push_bit 1 c"
  by (simp add: crc8_step_xor)

lemma crc8_bits_self: "crc8_bits 0x80 c c = 0"
proof -
  have step: "crc8_step (bit c (7 - n)) (push_bit n c) = push_bit (Suc n) c" if "n < 8" for n
    using crc8_step_aligned [of "push_bit n c"] that
    by (simp add: bit_push_bit_iff push_bit_push_bit)
  have "crc8_bits 0x80 c c = push_bit 8 c"
    using step [of 0] step [of 1] step [of 2] step [of 3] step [of 4] step [of 5] step [of 6] step [of 7]
    by (simp add: crc8_bits_unfold push_bit_eq_mult mult.commute [of c])
  also have "\<dots> = 0"
    by (rule bit_word_eqI) (simp add: bit_push_bit_iff)
  finally show ?thesis .
qed

lemma crc8_step_inj0: "crc8_step False c = 0 \<Longrightarrow> c = 0"
proof -
  assume z: "crc8_step False c = 0"
  then have "\<not> bit (crc8_step False c) 0" by simp
  then have top: "\<not> bit c 7"
    by (auto simp: crc8_step_xor bit_xor_iff bit_push_bit_iff bit_0 even_xor_iff split: if_splits)
  with z have zero: "push_bit 1 c = 0" by (simp add: crc8_step_xor)
  have low: "\<not> bit c n" if "n < 7" for n
  proof -
    have "bit (push_bit 1 c) (Suc n) = bit c n"
      by (subst bit_push_bit_iff) (use that in simp)
    with zero show ?thesis by simp
  qed
  show "c = 0"
  proof (rule bit_word_eqI)
    fix n assume "n < LENGTH(8)"
    then have "n < 7 \<or> n = 7" by auto
    with low top show "bit c n = bit 0 n" by auto
  qed
qed

lemma crc8_bits_reg_inj0: "crc8_bits 0x80 0 c = 0 \<Longrightarrow> c = 0"
  by (auto simp: crc8_bits_unfold dest!: crc8_step_inj0)

text \<open>A message byte and the register enter the CRC in the same way.\<close>

lemma crc8_bits_byte_reg: "crc8_bits 0x80 b c = crc8_bits 0x80 0 (b XOR c)"
proof -
  have "crc8_bits 0x80 (b XOR b) (b XOR c) = crc8_bits 0x80 b b XOR crc8_bits 0x80 b c"
    by (rule crc8_bits_linear)
  then show ?thesis by (simp add: crc8_bits_self)
qed

text \<open>The loop is a fold of the byte rounds, and injective in each byte and in the register.\<close>

lemma crc8_loop_fold: "crc8_loop (length bs) bs c = Inr (fold (crc8_bits 0x80) bs c)"
  by (induction bs arbitrary: c) auto

lemma crc8_bits_inj: "crc8_bits 0x80 b c = crc8_bits 0x80 b' c' \<Longrightarrow> b XOR c = b' XOR c'"
proof -
  assume "crc8_bits 0x80 b c = crc8_bits 0x80 b' c'"
  then have "crc8_bits 0x80 0 (b XOR c) XOR crc8_bits 0x80 0 (b' XOR c') = 0"
    by (simp add: crc8_bits_byte_reg [of b] crc8_bits_byte_reg [of b'])
  then have "crc8_bits 0x80 0 ((b XOR c) XOR (b' XOR c')) = 0"
    using crc8_bits_linear [of 0 0 "b XOR c" "b' XOR c'"] by simp
  then have "(b XOR c) XOR (b' XOR c') = 0"
    by (rule crc8_bits_reg_inj0)
  then show ?thesis by (simp add: xor_eq_zero)
qed

lemma crc8_fold_inj: "fold (crc8_bits 0x80) bs c = fold (crc8_bits 0x80) bs c' \<Longrightarrow> c = c'"
proof (induction bs arbitrary: c c')
  case (Cons b bs)
  then have "crc8_bits 0x80 b c = crc8_bits 0x80 b c'" by simp
  then have "b XOR c = b XOR c'" by (rule crc8_bits_inj)
  then show ?case by (simp add: xor_left_cancel)
qed simp

lemma crc8_ponl_107_fold:
  "0 < length bs \<Longrightarrow> length bs < 2 ^ 16 \<Longrightarrow>
     crc8_ponl_107 bs (word_of_nat (length bs)) = Inr (fold (crc8_bits 0x80) bs 0)"
  using dvd_imp_le [of "2 ^ 16" "length bs"]
  by (auto simp: crc8_ponl_107_def crc8_loop_fold unat_of_nat word_of_nat_eq_0_iff)

section \<open>Properties\<close>

text \<open>
  A corruption confined to one byte of a protected header always changes its CRC.
\<close>

theorem crc8_detects_byte_error:
  assumes len: "length xs + Suc (length ys) < 2 ^ 16" and ne: "b \<noteq> b'"
  shows "crc8_ponl_107 (xs @ b # ys) (word_of_nat (length xs + Suc (length ys)))
       \<noteq> crc8_ponl_107 (xs @ b' # ys) (word_of_nat (length xs + Suc (length ys)))"
proof
  assume eq: "crc8_ponl_107 (xs @ b # ys) (word_of_nat (length xs + Suc (length ys)))
            = crc8_ponl_107 (xs @ b' # ys) (word_of_nat (length xs + Suc (length ys)))"
  have "fold (crc8_bits 0x80) (xs @ b # ys) 0 = fold (crc8_bits 0x80) (xs @ b' # ys) 0"
    using eq len crc8_ponl_107_fold [of "xs @ b # ys"] crc8_ponl_107_fold [of "xs @ b' # ys"]
    by simp
  then have "b XOR fold (crc8_bits 0x80) xs 0 = b' XOR fold (crc8_bits 0x80) xs 0"
    by (auto dest!: crc8_fold_inj crc8_bits_inj)
  with ne show False by (simp add: xor.commute [of _ "fold _ _ _"] xor_left_cancel)
qed

theorem crc8_detects_byte_error_witness:
  "crc8_ponl_107 ([0x14, 0] @ 0x11 # []) (word_of_nat (2 + Suc 0))
     \<noteq> crc8_ponl_107 ([0x14, 0] @ 0x12 # []) (word_of_nat (2 + Suc 0))"
  using crc8_detects_byte_error [of "[0x14, 0]" "[]" "0x11" "0x12"] by simp

text \<open>
  The receiver's check succeeds: the CRC of a header with its CRC byte appended is zero.
\<close>

theorem crc8_residue:
  assumes "0 < length bs" "length bs + 1 < 2 ^ 16"
    and "crc8_ponl_107 bs (word_of_nat (length bs)) = Inr c"
  shows "crc8_ponl_107 (bs @ [c]) (word_of_nat (length bs + 1)) = Inr 0"
  using assms crc8_ponl_107_fold [of bs] crc8_ponl_107_fold [of "bs @ [c]"]
  by (simp add: crc8_bits_self)

lemma crc8_example: "crc8_ponl_107 [0x14, 0, 0x11] (word_of_nat 3) = Inr 0x7e"
  by code_simp

theorem crc8_residue_witness:
  "crc8_ponl_107 ([0x14, 0, 0x11] @ [0x7e]) (word_of_nat (3 + 1)) = Inr 0"
  using crc8_residue [of "[0x14, 0, 0x11]" "0x7e"] crc8_example by simp

text \<open>
  C6: a frame built by \<open>aicwf_set_cmd_tx\<close> decodes to the message it was given.
\<close>

theorem aicwf_set_cmd_tx_roundtrip:
  assumes "length (param m) = unat (param_len m)"
    and "aicwf_set_cmd_tx chipid m = Inr bs"
  shows "frame_decode bs = m"
proof -
  have "length (cmd_header chipid n) = 4" for n
    by (simp add: cmd_header_def Let_def)
  then have "get_u16 bs 8 = msg_id m \<and> get_u16 bs 10 = dest_id m \<and> get_u16 bs 12 = src_id m
      \<and> get_u16 bs 14 = param_len m \<and> drop 16 bs = param m"
    using assms put_get_u16
    by (auto simp: aicwf_set_cmd_tx_def Let_def get_u16_def put_u16_def nth_append split: if_splits)
  then show ?thesis by (simp add: frame_decode_def)
qed

lemma set_cmd_tx_example:
  "aicwf_set_cmd_tx PRODUCT_ID_AIC8800D80
     \<lparr>msg_id = 0x140C, dest_id = 5, src_id = 100, param_len = 4, param = [1, 2, 3, 4]\<rparr>
   = Inr [0x10, 0, 0x11, 0xd5, 0, 0, 0, 0, 0x0C, 0x14, 5, 0, 100, 0, 4, 0, 1, 2, 3, 4]"
  by code_simp

theorem aicwf_set_cmd_tx_roundtrip_witness:
  "frame_decode [0x10, 0, 0x11, 0xd5, 0, 0, 0, 0, 0x0C, 0x14, 5, 0, 100, 0, 4, 0, 1, 2, 3, 4]
   = \<lparr>msg_id = 0x140C, dest_id = 5, src_id = 100, param_len = 4, param = [1, 2, 3, 4]\<rparr>"
  using aicwf_set_cmd_tx_roundtrip [OF _ set_cmd_tx_example] by simp

end
