(* ===== verification/Cmd_Mgr.thy ===== *)
theory Cmd_Mgr
  imports Cmd_Frame
begin

text \<open>
  The command manager (rwnx\_cmds.c, rwnx\_cmds.h) and the static command pool it draws from
  (rwnx\_msg\_tx.c).  A command is an entry of \<open>cmd_array\<close> and is named by its index; the
  manager's list \<open>cmds\<close> holds indices, oldest first.  A function that sleeps in
  \<open>wait_for_completion_timeout\<close> is cut there: the part before the sleep ends in \<open>Q_Wait\<close>, the
  part after it is a function of its own (\<open>cmd_mgr_queue_finish\<close>, \<open>cmd_task_finish\<close>).  The
  spinlock sections are atomic, so the interleavings of the callers, the worker and the receive
  path are sequences of these parts (\<open>cmd_step\<close>, below).
\<close>

section \<open>Data\<close>

definition RWNX_CMD_FLAG_NONBLOCK :: u16 where [simp]: "RWNX_CMD_FLAG_NONBLOCK = 1"
definition RWNX_CMD_FLAG_REQ_CFM :: u16 where [simp]: "RWNX_CMD_FLAG_REQ_CFM = 2"
definition RWNX_CMD_FLAG_WAIT_PUSH :: u16 where [simp]: "RWNX_CMD_FLAG_WAIT_PUSH = 4"
definition RWNX_CMD_FLAG_WAIT_ACK :: u16 where [simp]: "RWNX_CMD_FLAG_WAIT_ACK = 8"
definition RWNX_CMD_FLAG_WAIT_CFM :: u16 where [simp]: "RWNX_CMD_FLAG_WAIT_CFM = 16"
definition RWNX_CMD_FLAG_DONE :: u16 where [simp]: "RWNX_CMD_FLAG_DONE = 32"

definition RWNX_CMD_WAIT_COMPLETE :: "u16 \<Rightarrow> bool" where
  "RWNX_CMD_WAIT_COMPLETE fl \<longleftrightarrow> \<not> has fl (RWNX_CMD_FLAG_WAIT_ACK OR RWNX_CMD_FLAG_WAIT_CFM)"

definition RWNX_CMD_MAX_QUEUED :: u32 where [simp]: "RWNX_CMD_MAX_QUEUED = 16"
definition RWNX_CMD_E2AMSG_LEN_MAX :: nat where [simp]: "RWNX_CMD_E2AMSG_LEN_MAX = 1024"
definition RWNX_CMD_ARRAY_SIZE :: nat where "RWNX_CMD_ARRAY_SIZE = 40"

definition ME_TRAFFIC_IND_REQ :: u16 where [simp]: "ME_TRAFFIC_IND_REQ = 5132"
definition MM_SET_ARPOFFLOAD_REQ :: u16 where [simp]: "MM_SET_ARPOFFLOAD_REQ = 97"

abbreviation "EINTR \<equiv> (4 :: int)"
abbreviation "ENOMEM \<equiv> (12 :: int)"
abbreviation "EPIPE \<equiv> (32 :: int)"
abbreviation "ETIMEDOUT \<equiv> (110 :: int)"

datatype rwnx_cmd_mgr_state =
    RWNX_CMD_MGR_STATE_DEINIT
  | RWNX_CMD_MGR_STATE_INITED
  | RWNX_CMD_MGR_STATE_CRASHED

text \<open>
  \<open>struct rwnx_cmd\<close>.  \<open>a2e_msg\<close> is None when the pointer is NULL or its message has been freed;
  \<open>e2a_msg\<close> is the caller's confirmation buffer, None for NULL; \<open>complete\<close> is the counter of
  the completion.
\<close>

record rwnx_cmd =
  cmd_id :: u16
  reqid :: u16
  a2e_msg :: "lmac_msg option"
  e2a_msg :: "u8 list option"
  tkn :: u32
  cmd_flags :: u16
  complete :: nat
  result :: u32
  used :: bool

text \<open>
  \<open>struct rwnx_cmd_mgr\<close> with the command pool, the chip it talks to, the frames it has handed to
  the bus (newest last) and whether the worker is queued.
\<close>

record rwnx_cmd_mgr =
  mgr_state :: rwnx_cmd_mgr_state
  next_tkn :: u32
  queue_sz :: u32
  max_queue_sz :: u32
  cmds :: "nat list"
  cmd_array :: "nat \<Rightarrow> rwnx_cmd"
  chipid :: AICWF_IC
  bus_frames :: "u8 list list"
  cmd_work :: bool

text \<open>\<open>struct ipc_e2a_msg\<close>, a confirmation or indication from the firmware.\<close>

record ipc_e2a_msg =
  e2a_id :: u16
  e2a_param_len :: u16
  e2a_param :: "u8 list"

text \<open>How a call of \<open>cmd_mgr_queue\<close> ends: it returns, it sleeps until the command is confirmed,
  or it sleeps and polls the queue again.\<close>

datatype queue_ret = Q_Ret int | Q_Wait | Q_Again

definition upd_cmd :: "nat \<Rightarrow> (rwnx_cmd \<Rightarrow> rwnx_cmd) \<Rightarrow> rwnx_cmd_mgr \<Rightarrow> rwnx_cmd_mgr" where
  "upd_cmd c f s = s\<lparr>cmd_array := (cmd_array s)(c := f (cmd_array s c))\<rparr>"

abbreviation flags_of :: "rwnx_cmd_mgr \<Rightarrow> nat \<Rightarrow> u16" where
  "flags_of s c \<equiv> cmd_flags (cmd_array s c)"

section \<open>The command pool\<close>

definition zero_cmd :: rwnx_cmd where
  "zero_cmd = \<lparr>cmd_id = 0, reqid = 0, a2e_msg = None, e2a_msg = None, tkn = 0, cmd_flags = 0,
     complete = 0, result = 0, used = False\<rparr>"

definition rwnx_init_cmd_array :: "rwnx_cmd_mgr \<Rightarrow> rwnx_cmd_mgr" where
  "rwnx_init_cmd_array s =
     s\<lparr>cmd_array := (\<lambda>i. if i < RWNX_CMD_ARRAY_SIZE then (cmd_array s i)\<lparr>used := False\<rparr>
                         else cmd_array s i)\<rparr>"

definition rwnx_free_cmd_array :: "rwnx_cmd_mgr \<Rightarrow> rwnx_cmd_mgr" where
  "rwnx_free_cmd_array s =
     s\<lparr>cmd_array := (\<lambda>i. if i < RWNX_CMD_ARRAY_SIZE then (cmd_array s i)\<lparr>used := False\<rparr>
                         else cmd_array s i)\<rparr>"

text \<open>The first unused entry, or None (a NULL pointer) when the pool is exhausted.\<close>

definition rwnx_cmd_malloc :: "rwnx_cmd_mgr \<Rightarrow> nat option \<times> rwnx_cmd_mgr" where
  "rwnx_cmd_malloc s =
     (case find (\<lambda>i. \<not> used (cmd_array s i)) [0..<RWNX_CMD_ARRAY_SIZE] of
        None \<Rightarrow> (None, s)
      | Some c \<Rightarrow> (Some c, upd_cmd c (\<lambda>x. x\<lparr>used := True\<rparr>) s))"

definition rwnx_cmd_free :: "nat \<Rightarrow> rwnx_cmd_mgr \<Rightarrow> rwnx_cmd_mgr" where
  "rwnx_cmd_free c s = upd_cmd c (\<lambda>x. x\<lparr>used := False, cmd_flags := 0\<rparr>) s"

section \<open>Completion and list removal\<close>

definition cmd_complete :: "nat \<Rightarrow> rwnx_cmd_mgr \<Rightarrow> rwnx_cmd_mgr" where
  "cmd_complete c s =
     (let s1 = upd_cmd c (\<lambda>x. x\<lparr>cmd_flags := cmd_flags x OR RWNX_CMD_FLAG_DONE\<rparr>) s
      in if has (flags_of s1 c) RWNX_CMD_FLAG_NONBLOCK then rwnx_cmd_free c s1
         else if RWNX_CMD_WAIT_COMPLETE (flags_of s1 c)
         then upd_cmd c (\<lambda>x. x\<lparr>result := 0, complete := Suc (complete x)\<rparr>) s1
         else s1)"

definition list_del :: "nat \<Rightarrow> rwnx_cmd_mgr \<Rightarrow> rwnx_cmd_mgr outcome" where
  "list_del c s = (if c \<in> set (cmds s) then Inr (s\<lparr>cmds := remove1 c (cmds s)\<rparr>) else Inl List_Poison)"

text \<open>\<open>aicwf_set_cmd_tx\<close> on the command's message, then \<open>kfree\<close> of the message.\<close>

definition push_cmd :: "nat \<Rightarrow> rwnx_cmd_mgr \<Rightarrow> rwnx_cmd_mgr outcome" where
  "push_cmd c s =
     (case a2e_msg (cmd_array s c) of
        None \<Rightarrow> Inl Null_Deref
      | Some m \<Rightarrow>
          (case aicwf_set_cmd_tx (chipid s) m of
             Inl f \<Rightarrow> Inl f
           | Inr bs \<Rightarrow> Inr (upd_cmd c (\<lambda>x. x\<lparr>a2e_msg := None\<rparr>)
                              (s\<lparr>bus_frames := bus_frames s @ [bs]\<rparr>))))"

section \<open>Queueing a command\<close>

text \<open>\<open>cmd_mgr_queue_force_defer\<close>.\<close>

definition cmd_mgr_queue_force_defer :: "nat \<Rightarrow> rwnx_cmd_mgr \<Rightarrow> int \<times> rwnx_cmd_mgr" where
  "cmd_mgr_queue_force_defer c s =
     (if mgr_state s = RWNX_CMD_MGR_STATE_CRASHED
      then (- EPIPE, upd_cmd c (\<lambda>x. x\<lparr>result := word_of_int (- EPIPE)\<rparr>) s)
      else if cmds s \<noteq> [] \<and> queue_sz s = max_queue_sz s
      then (- ENOMEM, upd_cmd c (\<lambda>x. x\<lparr>result := word_of_int (- ENOMEM)\<rparr>) s)
      else
        let f1 = flags_of s c OR RWNX_CMD_FLAG_WAIT_PUSH;
            f2 = (if has f1 RWNX_CMD_FLAG_REQ_CFM then f1 OR RWNX_CMD_FLAG_WAIT_CFM else f1)
        in (0, upd_cmd c (\<lambda>x. x\<lparr>cmd_flags := f2, tkn := next_tkn s, result := word_of_int (- EINTR),
                               complete := (if has f2 RWNX_CMD_FLAG_NONBLOCK then complete x else 0)\<rparr>)
               (s\<lparr>next_tkn := next_tkn s + 1, cmds := cmds s @ [c], queue_sz := queue_sz s + 1,
                  cmd_work := True\<rparr>)))"

text \<open>
  \<open>cmd_mgr_queue\<close> from the full-queue test to the sleep.  \<open>held\<close> says whether the manager's lock
  is held on entry; every path of this part releases it once.
\<close>

definition cmd_mgr_enqueue :: "bool \<Rightarrow> nat \<Rightarrow> rwnx_cmd_mgr \<Rightarrow> (queue_ret \<times> rwnx_cmd_mgr) outcome" where
  "cmd_mgr_enqueue held c s =
     (if cmds s \<noteq> [] \<and> queue_sz s = max_queue_sz s
      then if held then Inr (Q_Ret (- ENOMEM), upd_cmd c (\<lambda>x. x\<lparr>result := word_of_int (- ENOMEM)\<rparr>) s)
           else Inl Unlock_Not_Held
      else
        let busy = (cmds s \<noteq> [] \<and> has (flags_of s (last (cmds s)))
              (RWNX_CMD_FLAG_WAIT_ACK OR RWNX_CMD_FLAG_WAIT_PUSH OR RWNX_CMD_FLAG_WAIT_CFM));
            f1 = (if busy then flags_of s c OR RWNX_CMD_FLAG_WAIT_PUSH else flags_of s c);
            f2 = (if has f1 RWNX_CMD_FLAG_REQ_CFM then f1 OR RWNX_CMD_FLAG_WAIT_CFM else f1);
            s1 = upd_cmd c (\<lambda>x. x\<lparr>cmd_flags := f2, tkn := next_tkn s, result := word_of_int (- EINTR),
                               complete := (if has f2 RWNX_CMD_FLAG_NONBLOCK then complete x else 0)\<rparr>)
                   (s\<lparr>next_tkn := next_tkn s + 1, cmds := cmds s @ [c], queue_sz := queue_sz s + 1\<rparr>)
        in case a2e_msg (cmd_array s1 c) of
             None \<Rightarrow> Inl Null_Deref
           | Some m \<Rightarrow>
               let ind = msg_id m \<in> {ME_TRAFFIC_IND_REQ, MM_SET_ARPOFFLOAD_REQ};
                   s2 = (if ind then upd_cmd c (\<lambda>x. x\<lparr>cmd_flags := cmd_flags x OR RWNX_CMD_FLAG_WAIT_PUSH\<rparr>) s1
                         else s1)
               in if \<not> held then Inl Unlock_Not_Held
                  else if busy \<or> ind
                  then Inr (Q_Ret 0, if queue_sz s2 \<le> 1 then s2\<lparr>cmd_work := True\<rparr> else s2)
                  else (case push_cmd c s2 of
                          Inl f \<Rightarrow> Inl f
                        | Inr s3 \<Rightarrow>
                            if has (flags_of s3 c) RWNX_CMD_FLAG_NONBLOCK
                            then Inr (Q_Ret 0, upd_cmd c (\<lambda>x. x\<lparr>result := 0\<rparr>) s3)
                            else Inr (Q_Wait, s3)))"

text \<open>
  One pass of \<open>cmd_mgr_queue\<close>.  A command with a confirmation buffer first waits for the queue
  to drain, polling; \<open>expired\<close> says whether the two seconds for that are over.  The forced exit
  of the polling loop is taken after the lock has been released.
\<close>

definition cmd_mgr_queue :: "bool \<Rightarrow> nat \<Rightarrow> rwnx_cmd_mgr \<Rightarrow> (queue_ret \<times> rwnx_cmd_mgr) outcome" where
  "cmd_mgr_queue expired c s =
     (if mgr_state s = RWNX_CMD_MGR_STATE_CRASHED
      then Inr (Q_Ret (- EPIPE), upd_cmd c (\<lambda>x. x\<lparr>result := word_of_int (- EPIPE)\<rparr>) s)
      else if e2a_msg (cmd_array s c) = None \<or> cmds s = [] then cmd_mgr_enqueue True c s
      else if expired then cmd_mgr_enqueue False c s
      else Inr (Q_Again, s))"

text \<open>
  The end of a sleep, shared by \<open>cmd_mgr_queue\<close> and the worker: on a timeout the manager is
  marked crashed and the command, if not done, is failed; it stays in the list.  Otherwise the
  command leaves the list and its entry is freed.
\<close>

definition cmd_timeout :: "nat \<Rightarrow> rwnx_cmd_mgr \<Rightarrow> rwnx_cmd_mgr" where
  "cmd_timeout c s =
     (let s1 = s\<lparr>mgr_state := RWNX_CMD_MGR_STATE_CRASHED\<rparr>
      in if has (flags_of s1 c) RWNX_CMD_FLAG_DONE then s1
         else cmd_complete c (upd_cmd c (\<lambda>x. x\<lparr>result := word_of_int (- ETIMEDOUT)\<rparr>) s1))"

definition cmd_retire :: "nat \<Rightarrow> rwnx_cmd_mgr \<Rightarrow> rwnx_cmd_mgr outcome" where
  "cmd_retire c s =
     (case list_del c (upd_cmd c (\<lambda>x. x\<lparr>complete := complete x - 1\<rparr>) s) of
        Inl f \<Rightarrow> Inl f
      | Inr s1 \<Rightarrow> Inr (rwnx_cmd_free c (s1\<lparr>queue_sz := queue_sz s1 - 1\<rparr>)))"

definition cmd_mgr_queue_finish :: "bool \<Rightarrow> nat \<Rightarrow> rwnx_cmd_mgr \<Rightarrow> rwnx_cmd_mgr outcome" where
  "cmd_mgr_queue_finish completed c s =
     (if \<not> completed then Inr (cmd_timeout c s)
      else (case cmd_retire c s of
              Inl f \<Rightarrow> Inl f
            | Inr s1 \<Rightarrow> Inr (if cmds s1 \<noteq> [] then s1\<lparr>cmd_work := True\<rparr> else s1)))"

section \<open>The worker\<close>

text \<open>
  \<open>cmd_mgr_task_process\<close>: one round of its loop is \<open>cmd_task_pick\<close>, the sleep and
  \<open>cmd_task_finish\<close>.  It looks at the head of the list only; None says the loop ends.
\<close>

definition cmd_task_pick :: "rwnx_cmd_mgr \<Rightarrow> (nat option \<times> rwnx_cmd_mgr) outcome" where
  "cmd_task_pick s =
     (case cmds s of
        [] \<Rightarrow> Inr (None, s)
      | c # _ \<Rightarrow>
          if has (flags_of s c) RWNX_CMD_FLAG_WAIT_PUSH
          then (case push_cmd c (upd_cmd c
                   (\<lambda>x. x\<lparr>cmd_flags := cmd_flags x AND NOT RWNX_CMD_FLAG_WAIT_PUSH\<rparr>) s) of
                  Inl f \<Rightarrow> Inl f
                | Inr s1 \<Rightarrow> Inr (Some c, s1))
          else Inr (None, s))"

definition cmd_task_finish :: "bool \<Rightarrow> nat \<Rightarrow> rwnx_cmd_mgr \<Rightarrow> rwnx_cmd_mgr outcome" where
  "cmd_task_finish completed c s =
     (if \<not> completed then Inr (cmd_timeout c s) else cmd_retire c s)"

section \<open>Acknowledgements, confirmations, drain\<close>

text \<open>The search of \<open>cmd_mgr_llind\<close>: is the token found before the first unpushed command?\<close>

fun llind_acked :: "(nat \<Rightarrow> rwnx_cmd) \<Rightarrow> u32 \<Rightarrow> nat list \<Rightarrow> bool" where
  "llind_acked a t [] = False"
| "llind_acked a t (c # cs) =
     (if tkn (a c) = t then True
      else if has (cmd_flags (a c)) RWNX_CMD_FLAG_WAIT_PUSH then False
      else llind_acked a t cs)"

definition cmd_mgr_llind :: "nat \<Rightarrow> rwnx_cmd_mgr \<Rightarrow> rwnx_cmd_mgr" where
  "cmd_mgr_llind c s =
     (if llind_acked (cmd_array s) (tkn (cmd_array s c)) (cmds s)
      then (let s1 = upd_cmd c (\<lambda>x. x\<lparr>cmd_flags := cmd_flags x AND NOT RWNX_CMD_FLAG_WAIT_ACK\<rparr>) s
            in if RWNX_CMD_WAIT_COMPLETE (flags_of s1 c) then cmd_complete c s1 else s1)
      else s)"

text \<open>
  \<open>cmd_mgr_msgind\<close>.  The callback is a parameter: it gets the command (None when no command
  claims the message) and returns nonzero to leave the command waiting.  The copy into the
  confirmation buffer overruns it when the message is longer than the buffer.
\<close>

definition msgind_match ::
  "(rwnx_cmd option \<Rightarrow> ipc_e2a_msg \<Rightarrow> int) option \<Rightarrow> ipc_e2a_msg \<Rightarrow> rwnx_cmd_mgr \<Rightarrow> nat \<Rightarrow> bool" where
  "msgind_match cb msg s c \<longleftrightarrow>
     reqid (cmd_array s c) = e2a_id msg \<and> has (flags_of s c) RWNX_CMD_FLAG_WAIT_CFM \<and>
     (case cb of None \<Rightarrow> True | Some f \<Rightarrow> f (Some (cmd_array s c)) msg = 0)"

definition e2a_copy :: "ipc_e2a_msg \<Rightarrow> u8 list option \<Rightarrow> u8 list option outcome" where
  "e2a_copy msg dst =
     (let n = min (unat (e2a_param_len msg)) RWNX_CMD_E2AMSG_LEN_MAX
      in case dst of
           None \<Rightarrow> Inr None
         | Some buf \<Rightarrow>
             if n \<le> length buf \<and> n \<le> length (e2a_param msg)
             then Inr (Some (take n (e2a_param msg) @ drop n buf))
             else Inl Out_Of_Bounds)"

definition cmd_mgr_msgind ::
  "(rwnx_cmd option \<Rightarrow> ipc_e2a_msg \<Rightarrow> int) option \<Rightarrow> ipc_e2a_msg \<Rightarrow> rwnx_cmd_mgr \<Rightarrow> rwnx_cmd_mgr outcome" where
  "cmd_mgr_msgind cb msg s =
     (case find (msgind_match cb msg s) (cmds s) of
        None \<Rightarrow> Inr s
      | Some c \<Rightarrow>
          (case e2a_copy msg (e2a_msg (cmd_array s c)) of
             Inl f \<Rightarrow> Inl f
           | Inr buf \<Rightarrow>
               let s1 = upd_cmd c (\<lambda>x. x\<lparr>cmd_flags := cmd_flags x AND NOT RWNX_CMD_FLAG_WAIT_CFM,
                                        e2a_msg := buf\<rparr>) s
               in Inr (if RWNX_CMD_WAIT_COMPLETE (flags_of s1 c) then cmd_complete c s1 else s1)))"

definition cmd_mgr_drain :: "rwnx_cmd_mgr \<Rightarrow> rwnx_cmd_mgr" where
  "cmd_mgr_drain s =
     fold (\<lambda>c t. let t1 = t\<lparr>cmds := remove1 c (cmds t), queue_sz := queue_sz t - 1\<rparr>
                 in if has (flags_of t1 c) RWNX_CMD_FLAG_NONBLOCK then t1
                    else upd_cmd c (\<lambda>x. x\<lparr>complete := Suc (complete x)\<rparr>) t1)
       (cmds s) s"

definition rwnx_cmd_mgr_init :: "rwnx_cmd_mgr \<Rightarrow> rwnx_cmd_mgr" where
  "rwnx_cmd_mgr_init s =
     s\<lparr>cmds := [], mgr_state := RWNX_CMD_MGR_STATE_INITED, max_queue_sz := RWNX_CMD_MAX_QUEUED\<rparr>"

definition rwnx_cmd_mgr_deinit :: "rwnx_cmd_mgr \<Rightarrow> rwnx_cmd_mgr" where
  "rwnx_cmd_mgr_deinit s =
     (cmd_mgr_drain s)\<lparr>mgr_state := RWNX_CMD_MGR_STATE_DEINIT, next_tkn := 0, queue_sz := 0,
        max_queue_sz := 0, cmds := [], cmd_work := False\<rparr>"

section \<open>rwnx\_send\_msg\<close>

text \<open>
  The caller's side: fill a pool entry and queue it, or, for a message with no confirmation, send
  it at once.  \<open>rwnx_send_msg_start\<close> runs up to the first call of the queue function.  None as the
  command index says the call has returned already.
\<close>

definition fill_cmd :: "nat \<Rightarrow> lmac_msg \<Rightarrow> bool \<Rightarrow> u16 \<Rightarrow> u8 list option \<Rightarrow> rwnx_cmd_mgr \<Rightarrow> rwnx_cmd_mgr" where
  "fill_cmd c msg reqcfm rid cfm s =
     upd_cmd c (\<lambda>x. x\<lparr>result := word_of_int (- EINTR), cmd_id := msg_id msg, reqid := rid,
       a2e_msg := Some msg, e2a_msg := cfm,
       cmd_flags := (if reqcfm then (cmd_flags x OR RWNX_CMD_FLAG_REQ_CFM) AND NOT RWNX_CMD_FLAG_WAIT_ACK
                     else cmd_flags x)\<rparr>) s"

definition rwnx_send_msg_start ::
  "bool \<Rightarrow> lmac_msg \<Rightarrow> bool \<Rightarrow> u16 \<Rightarrow> u8 list option \<Rightarrow> rwnx_cmd_mgr \<Rightarrow> (nat option \<times> rwnx_cmd_mgr) outcome" where
  "rwnx_send_msg_start bus_down msg reqcfm rid cfm s =
     (if bus_down then Inr (None, s)
      else case rwnx_cmd_malloc s of
        (None, _) \<Rightarrow> Inl Null_Deref
      | (Some c, s1) \<Rightarrow>
          let s2 = fill_cmd c msg reqcfm rid cfm s1
          in if reqcfm then Inr (Some c, s2)
             else (case aicwf_set_cmd_tx (chipid s2) msg of
                     Inl f \<Rightarrow> Inl f
                   | Inr bs \<Rightarrow> Inr (None, rwnx_cmd_free c (s2\<lparr>bus_frames := bus_frames s2 @ [bs]\<rparr>))))"

text \<open>
  The end of \<open>rwnx_send_msg\<close> once the queue function has returned \<open>r\<close>: a refused command is
  freed.  The return value is 0 in every case.
\<close>

definition rwnx_send_msg_end :: "nat \<Rightarrow> int \<Rightarrow> rwnx_cmd_mgr \<Rightarrow> int \<times> rwnx_cmd_mgr" where
  "rwnx_send_msg_end c r s = (0, if r \<noteq> 0 then rwnx_cmd_free c s else s)"

section \<open>Interleavings\<close>

text \<open>
  The threads around the manager.  \<open>phase c\<close> is where the thread that owns command \<open>c\<close> stands:
  filling and polling (\<open>Submitting\<close>), gone with the command left to the worker (\<open>Deferred\<close>),
  asleep in \<open>cmd_mgr_queue\<close> (\<open>Caller_Waits\<close>); \<open>Worker_Waits\<close> when the worker sleeps on it;
  \<open>Abandoned\<close> after a timeout, when nobody will remove it.  The worker is a single thread of a
  workqueue: \<open>cmd_work\<close> is its pending bit, and it loops until the head needs no push.  A step is an
  operation that returns: the forced exit of the polling loop, which ends in a fault, is not
  continued.  \<open>cmd_mgr_drain\<close>, which runs when the driver is torn down and makes a waiting caller unlink
  its command twice, and \<open>cmd_mgr_llind\<close> are not steps.
\<close>

datatype phase = Idle | Submitting | Deferred | Caller_Waits | Worker_Waits | Abandoned

datatype worker = W_Sleeping | W_Running | W_Waiting nat

record cmd_sys =
  mgr :: rwnx_cmd_mgr
  phase :: "nat \<Rightarrow> phase"
  worker :: worker

inductive cmd_step :: "cmd_sys \<Rightarrow> cmd_sys \<Rightarrow> bool" where
  step_start: "rwnx_send_msg_start bus_down msg reqcfm rid cfm (mgr s) = Inr (r, m) \<Longrightarrow>
     cmd_step s (s\<lparr>mgr := m, phase := (case r of None \<Rightarrow> phase s | Some c \<Rightarrow> (phase s)(c := Submitting))\<rparr>)"
| step_wait: "phase s c = Submitting \<Longrightarrow> cmd_mgr_queue expired c (mgr s) = Inr (Q_Wait, m) \<Longrightarrow>
     cmd_step s (s\<lparr>mgr := m, phase := (phase s)(c := Caller_Waits)\<rparr>)"
| step_ret: "phase s c = Submitting \<Longrightarrow> cmd_mgr_queue expired c (mgr s) = Inr (Q_Ret r, m) \<Longrightarrow>
     cmd_step s (s\<lparr>mgr := snd (rwnx_send_msg_end c r m),
                   phase := (phase s)(c := (if r = 0 then Deferred else Idle))\<rparr>)"
| step_caller_done: "phase s c = Caller_Waits \<Longrightarrow> 0 < complete (cmd_array (mgr s) c) \<Longrightarrow>
     cmd_mgr_queue_finish True c (mgr s) = Inr m \<Longrightarrow>
     cmd_step s (s\<lparr>mgr := m, phase := (phase s)(c := Idle)\<rparr>)"
| step_caller_timeout: "phase s c = Caller_Waits \<Longrightarrow> cmd_mgr_queue_finish False c (mgr s) = Inr m \<Longrightarrow>
     cmd_step s (s\<lparr>mgr := m, phase := (phase s)(c := Abandoned)\<rparr>)"
| step_worker_start: "worker s = W_Sleeping \<Longrightarrow> cmd_work (mgr s) \<Longrightarrow>
     cmd_step s (s\<lparr>mgr := (mgr s)\<lparr>cmd_work := False\<rparr>, worker := W_Running\<rparr>)"
| step_worker_pick: "worker s = W_Running \<Longrightarrow> cmd_task_pick (mgr s) = Inr (Some c, m) \<Longrightarrow>
     cmd_step s (s\<lparr>mgr := m, phase := (phase s)(c := Worker_Waits), worker := W_Waiting c\<rparr>)"
| step_worker_idle: "worker s = W_Running \<Longrightarrow> cmd_task_pick (mgr s) = Inr (None, m) \<Longrightarrow>
     cmd_step s (s\<lparr>mgr := m, worker := W_Sleeping\<rparr>)"
| step_worker_done: "worker s = W_Waiting c \<Longrightarrow> 0 < complete (cmd_array (mgr s) c) \<Longrightarrow>
     cmd_task_finish True c (mgr s) = Inr m \<Longrightarrow>
     cmd_step s (s\<lparr>mgr := m, phase := (phase s)(c := Idle), worker := W_Running\<rparr>)"
| step_worker_timeout: "worker s = W_Waiting c \<Longrightarrow> cmd_task_finish False c (mgr s) = Inr m \<Longrightarrow>
     cmd_step s (s\<lparr>mgr := m, phase := (phase s)(c := Abandoned), worker := W_Running\<rparr>)"
| step_msgind: "cmd_mgr_msgind cb msg (mgr s) = Inr m \<Longrightarrow> cmd_step s (s\<lparr>mgr := m\<rparr>)"

definition cmd_boot :: "AICWF_IC \<Rightarrow> rwnx_cmd_mgr" where
  "cmd_boot chip = rwnx_cmd_mgr_init (rwnx_init_cmd_array
     \<lparr>mgr_state = RWNX_CMD_MGR_STATE_DEINIT, next_tkn = 0, queue_sz = 0, max_queue_sz = 0, cmds = [],
      cmd_array = (\<lambda>_. zero_cmd), chipid = chip, bus_frames = [], cmd_work = False\<rparr>)"

definition cmd_sys_init :: "AICWF_IC \<Rightarrow> cmd_sys" where
  "cmd_sys_init chip = \<lparr>mgr = cmd_boot chip, phase = (\<lambda>_. Idle), worker = W_Sleeping\<rparr>"

text \<open>
  Where a queued command stands: confirmed (0), sent and awaiting its confirmation (1), not yet
  sent (2).
\<close>

definition cmd_rank :: "rwnx_cmd_mgr \<Rightarrow> nat \<Rightarrow> nat" where
  "cmd_rank s c = (if has (flags_of s c) RWNX_CMD_FLAG_WAIT_PUSH then 2
                   else if has (flags_of s c) RWNX_CMD_FLAG_WAIT_CFM then 1 else 0)"

definition in_flight :: "rwnx_cmd_mgr \<Rightarrow> nat \<Rightarrow> bool" where
  "in_flight s c \<longleftrightarrow> cmd_rank s c = 1"

text \<open>The invariant, in four groups.\<close>

definition inv_list :: "cmd_sys \<Rightarrow> bool" where
  "inv_list s \<longleftrightarrow>
     distinct (cmds (mgr s)) \<and>
     (\<forall>c. c \<in> set (cmds (mgr s)) \<longleftrightarrow> phase s c \<in> {Deferred, Caller_Waits, Worker_Waits, Abandoned}) \<and>
     queue_sz (mgr s) = word_of_nat (length (cmds (mgr s))) \<and>
     length (cmds (mgr s)) \<le> 16 \<and> max_queue_sz (mgr s) = 16"

definition inv_pool :: "cmd_sys \<Rightarrow> bool" where
  "inv_pool s \<longleftrightarrow>
     (\<forall>c. phase s c \<noteq> Idle \<longleftrightarrow> used (cmd_array (mgr s) c)) \<and>
     (\<forall>c. used (cmd_array (mgr s) c) \<longrightarrow> c < RWNX_CMD_ARRAY_SIZE) \<and>
     (\<forall>c. phase s c = Idle \<longrightarrow> flags_of (mgr s) c = 0) \<and>
     (\<forall>c. phase s c = Submitting \<longrightarrow> flags_of (mgr s) c = RWNX_CMD_FLAG_REQ_CFM \<and>
        a2e_msg (cmd_array (mgr s) c) \<noteq> None)"

definition inv_flags :: "cmd_sys \<Rightarrow> bool" where
  "inv_flags s \<longleftrightarrow>
     (\<forall>c. \<not> has (flags_of (mgr s) c) RWNX_CMD_FLAG_NONBLOCK \<and>
          \<not> has (flags_of (mgr s) c) RWNX_CMD_FLAG_WAIT_ACK \<and>
          (has (flags_of (mgr s) c) RWNX_CMD_FLAG_WAIT_PUSH \<longleftrightarrow> phase s c = Deferred) \<and>
          (phase s c = Deferred \<longrightarrow> a2e_msg (cmd_array (mgr s) c) \<noteq> None))"

definition cmds_ordered :: "rwnx_cmd_mgr \<Rightarrow> nat list \<Rightarrow> bool" where
  "cmds_ordered s cs \<longleftrightarrow> sorted (map (cmd_rank s) cs) \<and> length (filter (in_flight s) cs) \<le> 1"

definition inv_order :: "cmd_sys \<Rightarrow> bool" where
  "inv_order s \<longleftrightarrow> cmds_ordered (mgr s) (cmds (mgr s))"

definition inv_worker :: "cmd_sys \<Rightarrow> bool" where
  "inv_worker s \<longleftrightarrow>
     (\<forall>c. phase s c = Worker_Waits \<longleftrightarrow> worker s = W_Waiting c) \<and>
     (\<forall>c cs. cmds (mgr s) = c # cs \<longrightarrow> phase s c = Deferred \<longrightarrow> cmd_work (mgr s) \<or> worker s \<noteq> W_Sleeping)"

definition cmd_inv :: "cmd_sys \<Rightarrow> bool" where
  "cmd_inv s \<longleftrightarrow> inv_list s \<and> inv_pool s \<and> inv_flags s \<and> inv_order s \<and> inv_worker s"

section \<open>Lemmas\<close>

lemma upd_cmd_simps [simp]:
  "mgr_state (upd_cmd c f s) = mgr_state s"
  "next_tkn (upd_cmd c f s) = next_tkn s"
  "queue_sz (upd_cmd c f s) = queue_sz s"
  "max_queue_sz (upd_cmd c f s) = max_queue_sz s"
  "cmds (upd_cmd c f s) = cmds s"
  "chipid (upd_cmd c f s) = chipid s"
  "bus_frames (upd_cmd c f s) = bus_frames s"
  "cmd_work (upd_cmd c f s) = cmd_work s"
  "cmd_array (upd_cmd c f s) = (cmd_array s)(c := f (cmd_array s c))"
  by (simp_all add: upd_cmd_def)

lemmas cmd_inv_defs = cmd_inv_def inv_list_def inv_pool_def inv_flags_def inv_order_def inv_worker_def

lemma push_cmd_cases:
  assumes "push_cmd c s = Inr t"
  shows "\<exists>m bs. a2e_msg (cmd_array s c) = Some m \<and> aicwf_set_cmd_tx (chipid s) m = Inr bs \<and>
     t = upd_cmd c (\<lambda>x. x\<lparr>a2e_msg := None\<rparr>) (s\<lparr>bus_frames := bus_frames s @ [bs]\<rparr>)"
  using assms by (auto simp: push_cmd_def split: option.splits sum.splits)

text \<open>What the parts of the manager change, without a NONBLOCK or WAIT\_ACK command.\<close>

lemma cmd_complete_blocking:
  assumes "\<not> has (flags_of s c) RWNX_CMD_FLAG_NONBLOCK"
  shows "cmds (cmd_complete c s) = cmds s \<and> queue_sz (cmd_complete c s) = queue_sz s \<and>
    max_queue_sz (cmd_complete c s) = max_queue_sz s \<and> cmd_work (cmd_complete c s) = cmd_work s \<and>
    mgr_state (cmd_complete c s) = mgr_state s \<and>
    (\<forall>d. d \<noteq> c \<longrightarrow> cmd_array (cmd_complete c s) d = cmd_array s d) \<and>
    used (cmd_array (cmd_complete c s) c) = used (cmd_array s c) \<and>
    a2e_msg (cmd_array (cmd_complete c s) c) = a2e_msg (cmd_array s c) \<and>
    flags_of (cmd_complete c s) c = flags_of s c OR RWNX_CMD_FLAG_DONE"
  using assms by (auto simp: cmd_complete_def Let_def flags)

lemma ordered_cong:
  assumes "\<And>c. c \<in> set cs \<Longrightarrow> cmd_rank t c = cmd_rank s c"
  shows "cmds_ordered t cs = cmds_ordered s cs"
proof -
  have "map (cmd_rank t) cs = map (cmd_rank s) cs" "filter (in_flight t) cs = filter (in_flight s) cs"
    using assms by (auto simp: in_flight_def cong: filter_cong)
  then show ?thesis unfolding cmds_ordered_def by presburger
qed

lemma ordered_Nil [simp]: "cmds_ordered s []"
  by (simp add: cmds_ordered_def)

lemma ordered_append:
  "cmds_ordered s (as @ bs) \<longleftrightarrow> cmds_ordered s as \<and> cmds_ordered s bs \<and>
     (\<forall>a \<in> set as. \<forall>b \<in> set bs. cmd_rank s a \<le> cmd_rank s b) \<and>
     length (filter (in_flight s) as) + length (filter (in_flight s) bs) \<le> 1"
  by (auto simp: cmds_ordered_def sorted_append)

lemma ordered_Cons:
  "cmds_ordered s (a # bs) \<longleftrightarrow> cmds_ordered s bs \<and> (\<forall>b \<in> set bs. cmd_rank s a \<le> cmd_rank s b) \<and>
     (in_flight s a \<longrightarrow> filter (in_flight s) bs = [])"
  by (auto simp: cmds_ordered_def)

lemma ordered_remove1: "cmds_ordered s cs \<Longrightarrow> cmds_ordered s (remove1 c cs)"
proof (induction cs)
  case (Cons a cs)
  then show ?case
    by (auto simp: ordered_Cons filter_empty_conv dest: set_remove1_subset)
qed simp

text \<open>Lowering the only sent command to confirmed keeps the order.\<close>

lemma ordered_confirm:
  assumes ord: "cmds_ordered s cs" "distinct cs"
    and c: "c \<in> set cs" "cmd_rank s c = 1" "cmd_rank t c = 0"
    and oth: "\<And>d. d \<noteq> c \<Longrightarrow> cmd_rank t d = cmd_rank s d"
  shows "cmds_ordered t cs"
proof -
  obtain as bs where cs: "cs = as @ c # bs" using c(1) by (auto simp: in_set_conv_decomp)
  have same: "cmd_rank t d = cmd_rank s d" if "d \<in> set as \<union> set bs" for d
    using that ord(2) by (auto simp: cs intro!: oth)
  have none: "\<not> in_flight s d" if "d \<in> set as \<union> set bs" for d
    using ord(1) c(2) that by (auto simp: cs ordered_append ordered_Cons in_flight_def filter_empty_conv)
  have as0: "cmd_rank s d = 0" if "d \<in> set as" for d
  proof -
    have "cmd_rank s d \<le> 1" using ord(1) that c(2) by (auto simp: cs ordered_append)
    with none [of d] that show ?thesis by (auto simp: in_flight_def)
  qed
  have "cmds_ordered t as" "cmds_ordered t bs"
    using ord(1) ordered_cong [of as t s] ordered_cong [of bs t s] same
    by (auto simp: cs ordered_append ordered_Cons)
  moreover have "filter (in_flight t) as = []" "filter (in_flight t) bs = []"
    using none same by (auto simp: filter_empty_conv in_flight_def)
  ultimately show ?thesis
    using as0 c same by (auto simp: cs ordered_append ordered_Cons in_flight_def)
qed

text \<open>A command appended behind confirmed ones, or behind any when it is not yet sent.\<close>

lemma ordered_snoc:
  assumes "cmds_ordered s cs" "cmd_rank s c = 2 \<or> (cs \<noteq> [] \<longrightarrow> cmd_rank s (last cs) = 0)" "cmd_rank s c \<le> 2"
    and ranks: "\<And>d. d \<in> set cs \<Longrightarrow> cmd_rank s d \<le> 2"
  shows "cmds_ordered s (cs @ [c])"
proof (cases "cmd_rank s c = 2")
  case True
  with assms show ?thesis by (auto simp: ordered_append ordered_Cons in_flight_def cmds_ordered_def sorted_append)
next
  case False
  have "cmd_rank s d = 0" if d: "d \<in> set cs" for d
  proof (rule sorted_last_zero)
    show "sorted (map (cmd_rank s) cs)" using assms(1) by (simp add: cmds_ordered_def)
    show "last (map (cmd_rank s) cs) = 0" "map (cmd_rank s) cs \<noteq> []" "cmd_rank s d \<in> set (map (cmd_rank s) cs)"
      using assms(2) False d by (cases "cs = []"; auto simp: last_map)+
  qed
  then have "filter (in_flight s) cs = []" "\<forall>d \<in> set cs. cmd_rank s d = 0"
    by (auto simp: filter_empty_conv in_flight_def)
  with assms(1) show ?thesis by (auto simp: ordered_append ordered_Cons)
qed

lemma cmd_rank_le: "cmd_rank s c \<le> 2"
  by (simp add: cmd_rank_def)

lemma cmd_retire_linked:
  assumes "c \<in> set (cmds s)"
  shows "\<exists>t. cmd_retire c s = Inr t \<and> cmds t = remove1 c (cmds s) \<and> queue_sz t = queue_sz s - 1 \<and>
    max_queue_sz t = max_queue_sz s \<and> cmd_work t = cmd_work s \<and> mgr_state t = mgr_state s \<and>
    cmd_array t = (cmd_array s)(c := (cmd_array s c)
      \<lparr>complete := complete (cmd_array s c) - 1, used := False, cmd_flags := 0\<rparr>)"
  using assms by (simp add: cmd_retire_def list_del_def rwnx_cmd_free_def upd_cmd_def)

lemma queue_sz_remove1:
  assumes "c \<in> set cs"
  shows "(word_of_nat (length cs) :: u32) - 1 = word_of_nat (length (remove1 c cs))"
proof -
  have "0 < length cs" using assms by (auto intro: length_pos_if_in_set)
  then have "(word_of_nat (length cs) :: u32) = word_of_nat (length cs - 1) + 1"
    by (cases "length cs") simp_all
  with assms show ?thesis by (simp add: length_remove1)
qed

lemma worker_waits: "cmd_inv s \<Longrightarrow> phase s c = Worker_Waits \<longleftrightarrow> worker s = W_Waiting c"
  by (simp add: cmd_inv_def inv_worker_def)

lemma caller_waits: "cmd_inv s \<Longrightarrow> phase s c = Caller_Waits \<Longrightarrow> worker s \<noteq> W_Waiting c"
  using worker_waits [of s c] by simp

text \<open>Removing a finished command keeps the invariant; \<open>w\<close> is what becomes of the worker.\<close>

lemma inv_retire:
  assumes inv: "cmd_inv s" and c: "c \<in> set (cmds (mgr s))"
    and t: "cmd_retire c (mgr s) = Inr t"
    and w: "phase s c = Worker_Waits \<and> worker s = W_Waiting c \<and> w = W_Running \<and> cw = cmd_work t
      \<or> phase s c = Caller_Waits \<and> w = worker s \<and> (cw \<longleftrightarrow> cmds t \<noteq> [] \<or> cmd_work t)"
  shows "cmd_inv (s\<lparr>mgr := t\<lparr>cmd_work := cw\<rparr>, phase := (phase s)(c := Idle), worker := w\<rparr>)"
proof -
  have t': "cmds t = remove1 c (cmds (mgr s))" "queue_sz t = queue_sz (mgr s) - 1"
    "max_queue_sz t = max_queue_sz (mgr s)"
    "cmd_array t = (cmd_array (mgr s))(c := (cmd_array (mgr s) c)
      \<lparr>complete := complete (cmd_array (mgr s) c) - 1, used := False, cmd_flags := 0\<rparr>)"
    using cmd_retire_linked [OF c] t by auto
  have rank: "cmd_rank (t\<lparr>cmd_work := cw\<rparr>) d = cmd_rank (mgr s) d" if "d \<noteq> c" for d
    using that by (simp add: cmd_rank_def t')
  have ord: "cmds_ordered (t\<lparr>cmd_work := cw\<rparr>) (remove1 c (cmds (mgr s)))
      = cmds_ordered (mgr s) (remove1 c (cmds (mgr s)))"
    using inv by (intro ordered_cong rank) (auto simp: cmd_inv_defs)
  have "inv_list (s\<lparr>mgr := t\<lparr>cmd_work := cw\<rparr>, phase := (phase s)(c := Idle), worker := w\<rparr>)"
    using inv c by (auto simp: cmd_inv_def inv_list_def t' queue_sz_remove1 length_remove1)
  moreover have "inv_pool (s\<lparr>mgr := t\<lparr>cmd_work := cw\<rparr>, phase := (phase s)(c := Idle), worker := w\<rparr>)"
    using inv by (auto simp: cmd_inv_def inv_pool_def t')
  moreover have "inv_flags (s\<lparr>mgr := t\<lparr>cmd_work := cw\<rparr>, phase := (phase s)(c := Idle), worker := w\<rparr>)"
    using inv by (auto simp: cmd_inv_def inv_flags_def t')
  moreover have "inv_order (s\<lparr>mgr := t\<lparr>cmd_work := cw\<rparr>, phase := (phase s)(c := Idle), worker := w\<rparr>)"
    using inv ord by (auto simp: cmd_inv_def inv_order_def t' ordered_remove1)
  moreover have "inv_worker (s\<lparr>mgr := t\<lparr>cmd_work := cw\<rparr>, phase := (phase s)(c := Idle), worker := w\<rparr>)"
    using inv w caller_waits [OF inv, of c] by (auto simp: cmd_inv_def inv_worker_def t')
  ultimately show ?thesis by (simp add: cmd_inv_def)
qed

lemma cmd_timeout_blocking:
  assumes "\<not> has (flags_of s c) RWNX_CMD_FLAG_NONBLOCK"
  shows "cmds (cmd_timeout c s) = cmds s \<and> queue_sz (cmd_timeout c s) = queue_sz s \<and>
    max_queue_sz (cmd_timeout c s) = max_queue_sz s \<and> cmd_work (cmd_timeout c s) = cmd_work s \<and>
    mgr_state (cmd_timeout c s) = RWNX_CMD_MGR_STATE_CRASHED \<and>
    (\<forall>d. d \<noteq> c \<longrightarrow> cmd_array (cmd_timeout c s) d = cmd_array s d) \<and>
    used (cmd_array (cmd_timeout c s) c) = used (cmd_array s c) \<and>
    a2e_msg (cmd_array (cmd_timeout c s) c) = a2e_msg (cmd_array s c) \<and>
    (\<forall>m. m AND RWNX_CMD_FLAG_DONE = 0 \<longrightarrow> has (flags_of (cmd_timeout c s) c) m = has (flags_of s c) m)"
proof -
  let ?s = "upd_cmd c (\<lambda>x. x\<lparr>result := word_of_int (- ETIMEDOUT)\<rparr>) (s\<lparr>mgr_state := RWNX_CMD_MGR_STATE_CRASHED\<rparr>)"
  have "\<not> has (flags_of ?s c) RWNX_CMD_FLAG_NONBLOCK" using assms by simp
  note compl = cmd_complete_blocking [OF this]
  show ?thesis
  proof (cases "has (flags_of s c) RWNX_CMD_FLAG_DONE")
    case True
    then show ?thesis by (simp add: cmd_timeout_def)
  next
    case False
    then have "cmd_timeout c s = cmd_complete c ?s" by (simp add: cmd_timeout_def)
    moreover have "has (flags_of s c OR RWNX_CMD_FLAG_DONE) m = has (flags_of s c) m"
      if "m AND RWNX_CMD_FLAG_DONE = 0" for m
      using that by (simp add: has_or) (simp add: has_def and.commute)
    ultimately show ?thesis using compl by simp
  qed
qed

text \<open>
  A change of one command's flags outside the push and confirmation bits, or of other fields,
  keeps the invariant as long as the list and the counters stay.
\<close>

lemma inv_frame:
  assumes inv: "cmd_inv s"
    and list: "cmds t = cmds (mgr s)" "queue_sz t = queue_sz (mgr s)" "max_queue_sz t = max_queue_sz (mgr s)"
      "cmd_work t = cmd_work (mgr s)"
    and used: "\<And>d. used (cmd_array t d) = used (cmd_array (mgr s) d)"
    and msg: "\<And>d. a2e_msg (cmd_array t d) = a2e_msg (cmd_array (mgr s) d)"
    and fl: "\<And>d m. m \<in> {1, 4, 8} \<Longrightarrow> has (flags_of t d) m = has (flags_of (mgr s) d) m"
    and idle: "\<And>d. phase s d \<in> {Idle, Submitting} \<Longrightarrow> flags_of t d = flags_of (mgr s) d"
    and ord: "cmds_ordered t (cmds (mgr s))"
  shows "cmd_inv (s\<lparr>mgr := t\<rparr>)"
proof -
  have "inv_list (s\<lparr>mgr := t\<rparr>)" using inv by (simp add: cmd_inv_def inv_list_def list)
  moreover have "inv_pool (s\<lparr>mgr := t\<rparr>)" using inv by (simp add: cmd_inv_def inv_pool_def used msg idle)
  moreover have "inv_flags (s\<lparr>mgr := t\<rparr>)" using inv by (simp add: cmd_inv_def inv_flags_def msg fl)
  moreover have "inv_order (s\<lparr>mgr := t\<rparr>)" using ord by (simp add: inv_order_def list)
  moreover have "inv_worker (s\<lparr>mgr := t\<rparr>)" using inv by (simp add: cmd_inv_def inv_worker_def list)
  ultimately show ?thesis by (simp add: cmd_inv_def)
qed

lemma inv_timeout:
  assumes inv: "cmd_inv s" and c: "phase s c \<in> {Caller_Waits, Worker_Waits}"
    and w: "phase s c = Worker_Waits \<and> w = W_Running \<or> phase s c = Caller_Waits \<and> w = worker s"
  shows "cmd_inv (s\<lparr>mgr := cmd_timeout c (mgr s), phase := (phase s)(c := Abandoned), worker := w\<rparr>)"
proof -
  have nb: "\<not> has (flags_of (mgr s) c) RWNX_CMD_FLAG_NONBLOCK"
    using inv by (simp add: cmd_inv_def inv_flags_def)
  note t = cmd_timeout_blocking [OF nb]
  have fl: "has (flags_of (cmd_timeout c (mgr s)) d) m = has (flags_of (mgr s) d) m"
    if "m AND RWNX_CMD_FLAG_DONE = 0" for d m
    using t that by (cases "d = c") auto
  have used: "used (cmd_array (cmd_timeout c (mgr s)) d) = used (cmd_array (mgr s) d)"
    "a2e_msg (cmd_array (cmd_timeout c (mgr s)) d) = a2e_msg (cmd_array (mgr s) d)" for d
    using t by (cases "d = c"; auto)+
  have rank: "cmd_rank (cmd_timeout c (mgr s)) d = cmd_rank (mgr s) d" for d
    by (simp add: cmd_rank_def fl)
  have "cmds_ordered (cmd_timeout c (mgr s)) (cmds (mgr s))"
    using inv ordered_cong [of "cmds (mgr s)" "cmd_timeout c (mgr s)" "mgr s"] rank
    by (simp add: cmd_inv_def inv_order_def)
  moreover have "flags_of (cmd_timeout c (mgr s)) d = flags_of (mgr s) d"
    if "phase s d \<in> {Idle, Submitting}" for d
    using t c that by (cases "d = c") auto
  ultimately have i: "cmd_inv (s\<lparr>mgr := cmd_timeout c (mgr s)\<rparr>)"
    using t by (intro inv_frame [OF inv]) (auto simp: used fl)
  have np: "\<not> has (flags_of (cmd_timeout c (mgr s)) c) RWNX_CMD_FLAG_WAIT_PUSH"
    using inv c by (auto simp: fl cmd_inv_def inv_flags_def)
  let ?t = "s\<lparr>mgr := cmd_timeout c (mgr s), phase := (phase s)(c := Abandoned), worker := w\<rparr>"
  have "inv_list ?t" using i c by (auto simp: cmd_inv_def inv_list_def)
  moreover have "inv_pool ?t" using i c by (auto simp: cmd_inv_def inv_pool_def)
  moreover have "inv_flags ?t" using i c np by (auto simp: cmd_inv_def inv_flags_def)
  moreover have "inv_order ?t" using i by (simp add: cmd_inv_def inv_order_def)
  moreover have "inv_worker ?t"
    using i c w caller_waits [OF inv, of c] worker_waits [OF inv, of c]
    by (cases "phase s c = Caller_Waits") (auto simp: cmd_inv_def inv_worker_def)
  ultimately show ?thesis by (simp add: cmd_inv_def)
qed

lemma msgind_effect:
  assumes nb: "\<And>c. \<not> has (flags_of s c) RWNX_CMD_FLAG_NONBLOCK"
    and t: "cmd_mgr_msgind cb msg s = Inr t" and c: "find (msgind_match cb msg s) (cmds s) = Some c"
  shows "cmds t = cmds s" "queue_sz t = queue_sz s" "max_queue_sz t = max_queue_sz s"
    "cmd_work t = cmd_work s" "mgr_state t = mgr_state s"
    "d \<noteq> c \<Longrightarrow> cmd_array t d = cmd_array s d"
    "used (cmd_array t c) = used (cmd_array s c)" "a2e_msg (cmd_array t c) = a2e_msg (cmd_array s c)"
    "m \<in> {1, 4, 8} \<Longrightarrow> has (flags_of t c) m = has (flags_of s c) m"
    "\<not> has (flags_of t c) RWNX_CMD_FLAG_WAIT_CFM"
proof -
  obtain buf where b: "e2a_copy msg (e2a_msg (cmd_array s c)) = Inr buf"
    using t c by (cases "e2a_copy msg (e2a_msg (cmd_array s c))") (auto simp: cmd_mgr_msgind_def)
  let ?s = "upd_cmd c (\<lambda>x. x\<lparr>cmd_flags := cmd_flags x AND NOT RWNX_CMD_FLAG_WAIT_CFM, e2a_msg := buf\<rparr>) s"
  have t': "t = (if RWNX_CMD_WAIT_COMPLETE (flags_of ?s c) then cmd_complete c ?s else ?s)"
    using t c b by (auto simp: cmd_mgr_msgind_def Let_def)
  have "\<not> has (flags_of ?s c) RWNX_CMD_FLAG_NONBLOCK" using nb [of c] by (simp add: flags)
  note compl = cmd_complete_blocking [OF this]
  show "cmds t = cmds s" "queue_sz t = queue_sz s" "max_queue_sz t = max_queue_sz s"
    "cmd_work t = cmd_work s" "mgr_state t = mgr_state s"
    "d \<noteq> c \<Longrightarrow> cmd_array t d = cmd_array s d"
    "used (cmd_array t c) = used (cmd_array s c)" "a2e_msg (cmd_array t c) = a2e_msg (cmd_array s c)"
    "m \<in> {1, 4, 8} \<Longrightarrow> has (flags_of t c) m = has (flags_of s c) m"
    "\<not> has (flags_of t c) RWNX_CMD_FLAG_WAIT_CFM"
    using compl unfolding t' by (auto simp: flags)
qed

lemma inv_msgind:
  assumes inv: "cmd_inv s" and t: "cmd_mgr_msgind cb msg (mgr s) = Inr t"
  shows "cmd_inv (s\<lparr>mgr := t\<rparr>)"
proof (cases "find (msgind_match cb msg (mgr s)) (cmds (mgr s))")
  case None
  with t have "t = mgr s" by (simp add: cmd_mgr_msgind_def)
  with inv show ?thesis by simp
next
  case (Some c)
  have nb: "\<not> has (flags_of (mgr s) d) RWNX_CMD_FLAG_NONBLOCK" for d
    using inv by (simp add: cmd_inv_def inv_flags_def)
  note e = msgind_effect [OF nb t Some]
  have c: "c \<in> set (cmds (mgr s))" and m: "has (flags_of (mgr s) c) RWNX_CMD_FLAG_WAIT_CFM"
    using Some by (auto simp: find_Some_iff msgind_match_def)
  have rank: "cmd_rank t d = cmd_rank (mgr s) d" if "d \<noteq> c" for d
    using that by (simp add: cmd_rank_def e)
  have ord: "cmds_ordered t (cmds (mgr s))"
  proof (cases "has (flags_of (mgr s) c) RWNX_CMD_FLAG_WAIT_PUSH")
    case True
    then have "cmd_rank t d = cmd_rank (mgr s) d" for d
      using rank [of d] by (cases "d = c") (simp_all add: cmd_rank_def e)
    then show ?thesis
      using inv ordered_cong [of "cmds (mgr s)" t "mgr s"] by (simp add: cmd_inv_def inv_order_def)
  next
    case False
    then have "cmd_rank (mgr s) c = 1" "cmd_rank t c = 0" using m e(10) by (simp_all add: cmd_rank_def e(9))
    moreover have "cmds_ordered (mgr s) (cmds (mgr s))" "distinct (cmds (mgr s))"
      using inv by (simp_all add: cmd_inv_def inv_order_def inv_list_def)
    ultimately show ?thesis using c rank by (rule_tac ordered_confirm [of "mgr s" _ c])
  qed
  have c_phase: "phase s c \<notin> {Idle, Submitting}"
    using inv c by (auto simp: cmd_inv_def inv_list_def)
  show ?thesis
  proof (rule inv_frame [OF inv])
    fix d show "used (cmd_array t d) = used (cmd_array (mgr s) d)"
      "a2e_msg (cmd_array t d) = a2e_msg (cmd_array (mgr s) d)"
      by (cases "d = c"; simp add: e)+
    show "has (flags_of t d) m = has (flags_of (mgr s) d) m" if "m \<in> {1, 4, 8}" for m
      using that by (cases "d = c") (simp_all add: e)
    show "flags_of t d = flags_of (mgr s) d" if "phase s d \<in> {Idle, Submitting}"
      using c_phase that by (cases "d = c") (auto simp: e(6))
  qed (simp_all add: e ord)
qed

lemma malloc_SomeD:
  assumes "rwnx_cmd_malloc s = (Some c, t)"
  shows "c < RWNX_CMD_ARRAY_SIZE \<and> \<not> used (cmd_array s c) \<and> t = upd_cmd c (\<lambda>x. x\<lparr>used := True\<rparr>) s"
proof -
  have f: "find (\<lambda>i. \<not> used (cmd_array s i)) [0..<RWNX_CMD_ARRAY_SIZE] = Some c"
    and t: "t = upd_cmd c (\<lambda>x. x\<lparr>used := True\<rparr>) s"
    using assms by (simp_all add: rwnx_cmd_malloc_def split: option.splits)
  from f obtain i where "i < RWNX_CMD_ARRAY_SIZE" "\<not> used (cmd_array s i)" "c = i"
    by (auto simp: find_Some_iff)
  with t show ?thesis by simp
qed

lemma inv_start:
  assumes inv: "cmd_inv s" and t: "rwnx_send_msg_start bus_down msg reqcfm rid cfm (mgr s) = Inr (r, t)"
  shows "cmd_inv (s\<lparr>mgr := t, phase := (case r of None \<Rightarrow> phase s | Some c \<Rightarrow> (phase s)(c := Submitting))\<rparr>)"
proof (cases bus_down)
  case True
  with t have "t = mgr s" "r = None" by (simp_all add: rwnx_send_msg_start_def)
  with inv show ?thesis by simp
next
  case False
  then obtain c u where m: "rwnx_cmd_malloc (mgr s) = (Some c, u)"
    using t by (auto simp: rwnx_send_msg_start_def split: prod.splits option.splits)
  note c = malloc_SomeD [OF m]
  have idle: "phase s c = Idle" "flags_of (mgr s) c = 0"
    using inv c by (auto simp: cmd_inv_def inv_pool_def)
  then have out: "c \<notin> set (cmds (mgr s))" using inv by (auto simp: cmd_inv_def inv_list_def)
  have "t = fill_cmd c msg True rid cfm u \<and> r = Some c" if reqcfm
    using t False m that by (simp add: rwnx_send_msg_start_def)
  moreover have "\<exists>bs. t = rwnx_cmd_free c ((fill_cmd c msg False rid cfm u)\<lparr>bus_frames := bs\<rparr>) \<and> r = None"
    if "\<not> reqcfm"
    using t False m that by (auto simp: rwnx_send_msg_start_def Let_def split: sum.splits)
  ultimately consider "reqcfm" "t = fill_cmd c msg True rid cfm u" "r = Some c"
    | bs where "\<not> reqcfm" "t = rwnx_cmd_free c ((fill_cmd c msg False rid cfm u)\<lparr>bus_frames := bs\<rparr>)" "r = None"
    by blast
  then have "cmds t = cmds (mgr s) \<and> queue_sz t = queue_sz (mgr s) \<and>
    max_queue_sz t = max_queue_sz (mgr s) \<and> cmd_work t = cmd_work (mgr s) \<and>
    (\<forall>d. d \<noteq> c \<longrightarrow> cmd_array t d = cmd_array (mgr s) d) \<and>
    (if reqcfm then r = Some c \<and> flags_of t c = RWNX_CMD_FLAG_REQ_CFM \<and> used (cmd_array t c) \<and>
       a2e_msg (cmd_array t c) = Some msg else r = None \<and> flags_of t c = 0 \<and> \<not> used (cmd_array t c))"
    by cases (simp_all add: fill_cmd_def rwnx_cmd_free_def c idle)
  then have t': "cmds t = cmds (mgr s)" "queue_sz t = queue_sz (mgr s)"
    "max_queue_sz t = max_queue_sz (mgr s)" "cmd_work t = cmd_work (mgr s)"
    "\<forall>d. d \<noteq> c \<longrightarrow> cmd_array t d = cmd_array (mgr s) d"
    "if reqcfm then r = Some c \<and> flags_of t c = RWNX_CMD_FLAG_REQ_CFM \<and> used (cmd_array t c) \<and>
       a2e_msg (cmd_array t c) = Some msg else r = None \<and> flags_of t c = 0 \<and> \<not> used (cmd_array t c)"
    by blast+
  have "cmds_ordered t (cmds (mgr s)) = cmds_ordered (mgr s) (cmds (mgr s))"
    using out t' by (intro ordered_cong) (auto simp: cmd_rank_def)
  with inv have ord: "cmds_ordered t (cmds (mgr s))" by (simp add: cmd_inv_def inv_order_def)
  let ?s = "s\<lparr>mgr := t, phase := (case r of None \<Rightarrow> phase s | Some c \<Rightarrow> (phase s)(c := Submitting))\<rparr>"
  have ph: "phase ?s d = phase s d" if "d \<noteq> c" for d using t' that by (cases reqcfm) auto
  have arr: "cmd_array (mgr ?s) d = cmd_array (mgr s) d" if "d \<noteq> c" for d using t' that by simp
  have pc: "phase ?s c = (if reqcfm then Submitting else Idle)" using t' idle by auto
  have "inv_list ?s"
  proof -
    have "phase ?s d \<in> {Deferred, Caller_Waits, Worker_Waits, Abandoned} \<longleftrightarrow>
        phase s d \<in> {Deferred, Caller_Waits, Worker_Waits, Abandoned}" for d
      using ph [of d] pc idle by (cases "d = c") auto
    with inv t'(1-3) show ?thesis by (simp add: cmd_inv_def inv_list_def)
  qed
  moreover have "inv_pool ?s"
  proof -
    have "(phase ?s d \<noteq> Idle \<longleftrightarrow> used (cmd_array (mgr ?s) d)) \<and>
      (used (cmd_array (mgr ?s) d) \<longrightarrow> d < RWNX_CMD_ARRAY_SIZE) \<and>
      (phase ?s d = Idle \<longrightarrow> flags_of (mgr ?s) d = 0) \<and>
      (phase ?s d = Submitting \<longrightarrow> flags_of (mgr ?s) d = RWNX_CMD_FLAG_REQ_CFM \<and>
         a2e_msg (cmd_array (mgr ?s) d) \<noteq> None)" for d
    proof (cases "d = c")
      case True
      show ?thesis using t'(6) pc c unfolding True by (cases reqcfm) auto
    next
      case False
      show ?thesis using inv unfolding ph [OF False] arr [OF False] by (simp add: cmd_inv_def inv_pool_def)
    qed
    then show ?thesis unfolding inv_pool_def by blast
  qed
  moreover have "inv_flags ?s" unfolding inv_flags_def
  proof (intro allI)
    fix d show "\<not> has (flags_of (mgr ?s) d) RWNX_CMD_FLAG_NONBLOCK \<and>
          \<not> has (flags_of (mgr ?s) d) RWNX_CMD_FLAG_WAIT_ACK \<and>
          (has (flags_of (mgr ?s) d) RWNX_CMD_FLAG_WAIT_PUSH \<longleftrightarrow> phase ?s d = Deferred) \<and>
          (phase ?s d = Deferred \<longrightarrow> a2e_msg (cmd_array (mgr ?s) d) \<noteq> None)"
    proof (cases "d = c")
      case True
      show ?thesis using t'(6) pc unfolding True by (cases reqcfm) auto
    next
      case False
      show ?thesis using inv unfolding ph [OF False] arr [OF False] by (simp add: cmd_inv_def inv_flags_def)
    qed
  qed
  moreover have "inv_order ?s" using ord t' by (simp add: inv_order_def)
  moreover have "inv_worker ?s"
  proof -
    have "phase ?s d = Worker_Waits \<longleftrightarrow> phase s d = Worker_Waits" "phase ?s d = Deferred \<longleftrightarrow> phase s d = Deferred" for d
      using ph [of d] pc idle by (cases "d = c"; auto)+
    with inv t'(1,4) show ?thesis by (simp add: cmd_inv_def inv_worker_def)
  qed
  ultimately show ?thesis by (simp add: cmd_inv_def)
qed

text \<open>The command at the head goes to the firmware: everything in the list was unsent.\<close>

lemma inv_pick:
  assumes inv: "cmd_inv s" and w: "worker s = W_Running" and t: "cmd_task_pick (mgr s) = Inr (Some c, t)"
  shows "cmd_inv (s\<lparr>mgr := t, phase := (phase s)(c := Worker_Waits), worker := W_Waiting c\<rparr>)"
proof -
  let ?f = "\<lambda>x. x\<lparr>cmd_flags := cmd_flags x AND NOT RWNX_CMD_FLAG_WAIT_PUSH\<rparr>"
  obtain cs where cs: "cmds (mgr s) = c # cs" and p: "has (flags_of (mgr s) c) RWNX_CMD_FLAG_WAIT_PUSH"
    and push: "push_cmd c (upd_cmd c ?f (mgr s)) = Inr t"
    using t by (auto simp: cmd_task_pick_def split: list.splits if_splits sum.splits)
  obtain bs where t': "t = upd_cmd c (\<lambda>x. x\<lparr>a2e_msg := None\<rparr>)
      ((upd_cmd c ?f (mgr s))\<lparr>bus_frames := bus_frames (upd_cmd c ?f (mgr s)) @ [bs]\<rparr>)"
    using push_cmd_cases [OF push] by blast
  have ph: "phase s c = Deferred" using inv p by (simp add: cmd_inv_def inv_flags_def)
  have c: "c \<notin> set cs" using inv cs by (simp add: cmd_inv_def inv_list_def)
  have arr: "cmd_array t d = cmd_array (mgr s) d" if "d \<noteq> c" for d using that by (simp add: t')
  have rank: "cmd_rank t d = cmd_rank (mgr s) d" if "d \<noteq> c" for d using arr [OF that] by (simp add: cmd_rank_def)
  have two: "cmd_rank (mgr s) d = 2" if "d \<in> set cs" for d
  proof -
    have "cmd_rank (mgr s) c = 2" using p by (simp add: cmd_rank_def)
    moreover have "cmd_rank (mgr s) c \<le> cmd_rank (mgr s) d"
      using inv that by (simp add: cmd_inv_def inv_order_def cs ordered_Cons)
    ultimately show ?thesis using cmd_rank_le [of "mgr s" d] by simp
  qed
  let ?t = "s\<lparr>mgr := t, phase := (phase s)(c := Worker_Waits), worker := W_Waiting c\<rparr>"
  have "inv_list ?t" using inv ph by (auto simp: cmd_inv_def inv_list_def t')
  moreover have "inv_pool ?t" using inv ph by (auto simp: cmd_inv_def inv_pool_def t')
  moreover have "inv_flags ?t" using inv ph by (auto simp: cmd_inv_def inv_flags_def t' flags)
  moreover have "inv_order ?t"
  proof -
    have "cmds_ordered t cs = cmds_ordered (mgr s) cs" using c by (intro ordered_cong rank) auto
    moreover have "cmd_rank t c \<le> 2" by (rule cmd_rank_le)
    moreover have "cmd_rank t d = 2" if "d \<in> set cs" for d using two [OF that] rank [of d] c that by auto
    ultimately have "cmds_ordered t (c # cs)"
      using inv by (simp add: cmd_inv_def inv_order_def cs ordered_Cons filter_empty_conv in_flight_def)
    then show ?thesis by (simp add: inv_order_def t' cs)
  qed
  moreover have "inv_worker ?t"
    using inv w ph by (auto simp: cmd_inv_def inv_worker_def)
  ultimately show ?thesis by (simp add: cmd_inv_def)
qed

lemma inv_append:
  assumes inv: "cmd_inv s" and sub: "phase s c = Submitting"
    and room: "length (cmds (mgr s)) < 16"
    and list: "cmds t = cmds (mgr s) @ [c]" "queue_sz t = queue_sz (mgr s) + 1" "max_queue_sz t = max_queue_sz (mgr s)"
    and oth: "\<And>d. d \<noteq> c \<Longrightarrow> cmd_array t d = cmd_array (mgr s) d"
    and c: "used (cmd_array t c)" "\<not> has (flags_of t c) RWNX_CMD_FLAG_NONBLOCK"
      "\<not> has (flags_of t c) RWNX_CMD_FLAG_WAIT_ACK" "has (flags_of t c) RWNX_CMD_FLAG_WAIT_PUSH \<longleftrightarrow> p = Deferred"
      "p = Deferred \<Longrightarrow> a2e_msg (cmd_array t c) \<noteq> None"
    and p: "p = Deferred \<or> p = Caller_Waits"
    and last: "p = Deferred \<or> cmds (mgr s) = [] \<or> cmd_rank (mgr s) (last (cmds (mgr s))) = 0"
    and work: "cmd_work t \<longleftrightarrow> cmd_work (mgr s) \<or> p = Deferred \<and> cmds (mgr s) = []"
  shows "cmd_inv (s\<lparr>mgr := t, phase := (phase s)(c := p)\<rparr>)"
proof -
  let ?t = "s\<lparr>mgr := t, phase := (phase s)(c := p)\<rparr>"
  have out: "c \<notin> set (cmds (mgr s))" using inv sub by (auto simp: cmd_inv_def inv_list_def)
  have "inv_list ?t" using inv sub room p out by (auto simp: cmd_inv_def inv_list_def list)
  moreover have "inv_pool ?t" unfolding inv_pool_def
  proof (intro conjI allI)
    fix d
    show "phase ?t d \<noteq> Idle \<longleftrightarrow> used (cmd_array (mgr ?t) d)"
      "used (cmd_array (mgr ?t) d) \<longrightarrow> d < RWNX_CMD_ARRAY_SIZE"
      "phase ?t d = Idle \<longrightarrow> flags_of (mgr ?t) d = 0"
      "phase ?t d = Submitting \<longrightarrow> flags_of (mgr ?t) d = RWNX_CMD_FLAG_REQ_CFM \<and>
         a2e_msg (cmd_array (mgr ?t) d) \<noteq> None"
      using inv sub c(1) p oth [of d] by (cases "d = c"; auto simp: cmd_inv_def inv_pool_def)+
  qed
  moreover have "inv_flags ?t"
  proof -
    have "\<not> has (flags_of t d) RWNX_CMD_FLAG_NONBLOCK \<and> \<not> has (flags_of t d) RWNX_CMD_FLAG_WAIT_ACK \<and>
          (has (flags_of t d) RWNX_CMD_FLAG_WAIT_PUSH \<longleftrightarrow> phase ?t d = Deferred) \<and>
          (phase ?t d = Deferred \<longrightarrow> a2e_msg (cmd_array t d) \<noteq> None)" for d
    proof (cases "d = c")
      case True
      with c show ?thesis by simp
    next
      case False
      with inv show ?thesis by (simp add: oth cmd_inv_def inv_flags_def)
    qed
    then show ?thesis by (simp add: inv_flags_def)
  qed
  moreover have "inv_order ?t"
  proof -
    have rank: "cmd_rank t d = cmd_rank (mgr s) d" if "d \<in> set (cmds (mgr s))" for d
      using out that oth [of d] by (cases "d = c") (auto simp: cmd_rank_def)
    have "cmds_ordered t (cmds (mgr s))"
      using inv ordered_cong [of "cmds (mgr s)" t "mgr s"] rank by (simp add: cmd_inv_def inv_order_def)
    moreover have "cmd_rank t c = 2 \<or> (cmds (mgr s) \<noteq> [] \<longrightarrow> cmd_rank t (last (cmds (mgr s))) = 0)"
      using last c(4) rank [of "last (cmds (mgr s))"] by (cases "p = Deferred") (auto simp: cmd_rank_def [of t c])
    ultimately have "cmds_ordered t (cmds (mgr s) @ [c])" by (intro ordered_snoc cmd_rank_le)
    then show ?thesis by (simp add: inv_order_def list)
  qed
  moreover have "inv_worker ?t"
  proof -
    have "phase s c \<noteq> Worker_Waits" using sub by simp
    then show ?thesis
      using inv p out work worker_waits [OF inv, of c]
      by (cases "cmds (mgr s)") (auto simp: cmd_inv_def inv_worker_def list)
  qed
  ultimately show ?thesis by (simp add: cmd_inv_def)
qed

lemma busy_flags:
  "has w (RWNX_CMD_FLAG_WAIT_ACK OR RWNX_CMD_FLAG_WAIT_PUSH OR RWNX_CMD_FLAG_WAIT_CFM) \<longleftrightarrow>
     has w RWNX_CMD_FLAG_WAIT_ACK \<or> has w RWNX_CMD_FLAG_WAIT_PUSH \<or> has w RWNX_CMD_FLAG_WAIT_CFM"
  by (simp only: has_mask_or disj_assoc)

text \<open>
  What queueing a fresh confirmed command can lead to: it is refused, it is left to the worker, or
  it is sent behind confirmed commands only.
\<close>

lemma enqueue_cases:
  assumes r: "cmd_mgr_enqueue True c s = Inr (r, t)" and fl: "flags_of s c = RWNX_CMD_FLAG_REQ_CFM"
    and msg: "a2e_msg (cmd_array s c) \<noteq> None"
  obtains (full) "cmds s \<noteq> []" "queue_sz s = max_queue_sz s" "r = Q_Ret (- ENOMEM)"
        "t = upd_cmd c (\<lambda>x. x\<lparr>result := word_of_int (- ENOMEM)\<rparr>) s"
    | (deferred) "cmds s = [] \<or> queue_sz s \<noteq> max_queue_sz s" "r = Q_Ret 0" "cmds t = cmds s @ [c]"
        "queue_sz t = queue_sz s + 1" "max_queue_sz t = max_queue_sz s" "mgr_state t = mgr_state s"
        "\<And>d. d \<noteq> c \<Longrightarrow> cmd_array t d = cmd_array s d" "used (cmd_array t c) = used (cmd_array s c)"
        "flags_of t c = 22" "a2e_msg (cmd_array t c) = a2e_msg (cmd_array s c)"
        "cmd_work t \<longleftrightarrow> cmd_work s \<or> queue_sz s + 1 \<le> 1" "bus_frames t = bus_frames s"
    | (sent) bs where "cmds s = [] \<or> queue_sz s \<noteq> max_queue_sz s" "r = Q_Wait" "cmds t = cmds s @ [c]"
        "queue_sz t = queue_sz s + 1" "max_queue_sz t = max_queue_sz s" "mgr_state t = mgr_state s"
        "\<And>d. d \<noteq> c \<Longrightarrow> cmd_array t d = cmd_array s d" "used (cmd_array t c) = used (cmd_array s c)"
        "flags_of t c = 18" "cmd_work t = cmd_work s" "complete (cmd_array t c) = 0"
        "cmds s = [] \<or> cmd_rank s (last (cmds s)) = 0" "bus_frames t = bus_frames s @ [bs]"
        "a2e_msg (cmd_array t c) = None"
proof (cases "cmds s \<noteq> [] \<and> queue_sz s = max_queue_sz s")
  case True
  with r show ?thesis by (intro full) (auto simp: cmd_mgr_enqueue_def)
next
  case room: False
  obtain m where m: "a2e_msg (cmd_array s c) = Some m" using msg by blast
  define busy where "busy \<longleftrightarrow> cmds s \<noteq> [] \<and> has (flags_of s (last (cmds s)))
     (RWNX_CMD_FLAG_WAIT_ACK OR RWNX_CMD_FLAG_WAIT_PUSH OR RWNX_CMD_FLAG_WAIT_CFM)"
  define ind where "ind \<longleftrightarrow> msg_id m \<in> {ME_TRAFFIC_IND_REQ, MM_SET_ARPOFFLOAD_REQ}"
  define s2 where "s2 = upd_cmd c (\<lambda>x. x\<lparr>cmd_flags := (if busy \<or> ind then 22 else 18), tkn := next_tkn s,
      result := word_of_int (- EINTR), complete := 0\<rparr>)
      (s\<lparr>next_tkn := next_tkn s + 1, cmds := cmds s @ [c], queue_sz := queue_sz s + 1\<rparr>)"
  have eq: "Inr (r, t) = (if busy \<or> ind then Inr (Q_Ret 0, if queue_sz s2 \<le> 1 then s2\<lparr>cmd_work := True\<rparr> else s2)
      else case push_cmd c s2 of Inl f \<Rightarrow> Inl f | Inr s3 \<Rightarrow> Inr (Q_Wait, s3))"
    unfolding r [symmetric] cmd_mgr_enqueue_def Let_def busy_def [symmetric] if_not_P [OF room]
    using fl m
    by (cases "cmd_array s c"; cases busy; cases ind; auto simp: ind_def s2_def upd_cmd_def push_cmd_def split: sum.split)
  show ?thesis
  proof (cases "busy \<or> ind")
    case True
    with eq room show ?thesis by (intro deferred) (auto simp: s2_def)
  next
    case False
    with eq obtain t' where push: "push_cmd c s2 = Inr t'" and rt: "r = Q_Wait" "t = t'"
      by (auto split: sum.splits)
    obtain bs where t': "t' = upd_cmd c (\<lambda>x. x\<lparr>a2e_msg := None\<rparr>) (s2\<lparr>bus_frames := bus_frames s2 @ [bs]\<rparr>)"
      using push_cmd_cases [OF push] by blast
    have "cmds s = [] \<or> cmd_rank s (last (cmds s)) = 0"
      using False unfolding busy_def busy_flags by (auto simp: cmd_rank_def)
    with False room show ?thesis by (intro sent [of bs]) (auto simp: rt t' s2_def)
  qed
qed

lemma inv_full:
  assumes "inv_list s" "cmds (mgr s) = [] \<or> queue_sz (mgr s) \<noteq> max_queue_sz (mgr s)"
  shows "length (cmds (mgr s)) < 16"
  using assms by (cases "length (cmds (mgr s)) = 16") (auto simp: inv_list_def)

lemma queue_sz_zero: "n \<le> 16 \<Longrightarrow> (word_of_nat n :: u32) + 1 \<le> 1 \<longleftrightarrow> n = 0"
proof -
  assume n: "n \<le> 16"
  have "unat ((word_of_nat n :: u32) + 1) = n + 1"
    using n by (simp add: unat_word_ariths unat_of_nat)
  then show ?thesis by (simp add: word_le_nat_alt)
qed

lemma inv_refused:
  assumes inv: "cmd_inv s" and sub: "phase s c = Submitting"
  shows "cmd_inv (s\<lparr>mgr := rwnx_cmd_free c (upd_cmd c (\<lambda>x. x\<lparr>result := e\<rparr>) (mgr s)), phase := (phase s)(c := Idle)\<rparr>)"
proof -
  let ?m = "rwnx_cmd_free c (upd_cmd c (\<lambda>x. x\<lparr>result := e\<rparr>) (mgr s))"
  let ?t = "s\<lparr>mgr := ?m, phase := (phase s)(c := Idle)\<rparr>"
  have m: "cmds ?m = cmds (mgr s)" "queue_sz ?m = queue_sz (mgr s)" "max_queue_sz ?m = max_queue_sz (mgr s)"
      "cmd_work ?m = cmd_work (mgr s)" "cmd_array ?m = (cmd_array (mgr s))(c := (cmd_array (mgr s) c)
         \<lparr>result := e, used := False, cmd_flags := 0\<rparr>)"
    by (simp_all add: rwnx_cmd_free_def)
  have out: "c \<notin> set (cmds (mgr s))" using inv sub by (auto simp: cmd_inv_def inv_list_def)
  have "inv_list ?t" using inv sub by (auto simp: cmd_inv_def inv_list_def m)
  moreover have "inv_pool ?t" using inv by (auto simp: cmd_inv_def inv_pool_def m)
  moreover have "inv_flags ?t" using inv by (auto simp: cmd_inv_def inv_flags_def m)
  moreover have "inv_order ?t"
  proof -
    have "cmds_ordered ?m (cmds (mgr s)) = cmds_ordered (mgr s) (cmds (mgr s))"
      using out by (intro ordered_cong) (auto simp: cmd_rank_def m)
    then show ?thesis using inv by (simp add: cmd_inv_def inv_order_def m)
  qed
  moreover have "inv_worker ?t"
    using inv sub worker_waits [OF inv, of c] by (auto simp: cmd_inv_def inv_worker_def m)
  ultimately show ?thesis by (simp add: cmd_inv_def)
qed

lemma queue_cases:
  assumes "cmd_mgr_queue expired c s = Inr (r, t)"
  obtains "mgr_state s = RWNX_CMD_MGR_STATE_CRASHED" "r = Q_Ret (- EPIPE)"
      "t = upd_cmd c (\<lambda>x. x\<lparr>result := word_of_int (- EPIPE)\<rparr>) s"
    | "mgr_state s \<noteq> RWNX_CMD_MGR_STATE_CRASHED" "cmd_mgr_enqueue True c s = Inr (r, t)"
    | "r = Q_Again" "t = s"
proof -
  have "cmd_mgr_enqueue False c s \<noteq> Inr (r, t)"
    by (auto simp: cmd_mgr_enqueue_def Let_def split: option.splits if_splits)
  note forced = this
  consider (crash) "mgr_state s = RWNX_CMD_MGR_STATE_CRASHED"
    | (enq) "mgr_state s \<noteq> RWNX_CMD_MGR_STATE_CRASHED" "e2a_msg (cmd_array s c) = None \<or> cmds s = []"
    | (poll) "mgr_state s \<noteq> RWNX_CMD_MGR_STATE_CRASHED" "\<not> (e2a_msg (cmd_array s c) = None \<or> cmds s = [])"
    by blast
  then show ?thesis
  proof cases
    case crash
    with assms show ?thesis by (intro that(1)) (simp_all add: cmd_mgr_queue_def)
  next
    case enq
    with assms show ?thesis by (intro that(2)) (simp_all add: cmd_mgr_queue_def)
  next
    case poll
    then have "\<not> expired" using assms forced by (auto simp: cmd_mgr_queue_def)
    with poll assms show ?thesis by (intro that(3)) (auto simp: cmd_mgr_queue_def)
  qed
qed

lemma inv_wait:
  assumes inv: "cmd_inv s" and sub: "phase s c = Submitting" and q: "cmd_mgr_queue expired c (mgr s) = Inr (Q_Wait, t)"
  shows "cmd_inv (s\<lparr>mgr := t, phase := (phase s)(c := Caller_Waits)\<rparr>)"
proof -
  have fl: "flags_of (mgr s) c = RWNX_CMD_FLAG_REQ_CFM" "a2e_msg (cmd_array (mgr s) c) \<noteq> None"
      "used (cmd_array (mgr s) c)"
    using inv sub by (auto simp: cmd_inv_def inv_pool_def)
  from q have "cmd_mgr_enqueue True c (mgr s) = Inr (Q_Wait, t)" by (rule queue_cases) auto
  then show ?thesis
  proof (rule enqueue_cases [OF _ fl(1,2)])
    fix bs
    assume t: "cmds (mgr s) = [] \<or> queue_sz (mgr s) \<noteq> max_queue_sz (mgr s)" "cmds t = cmds (mgr s) @ [c]"
      "queue_sz t = queue_sz (mgr s) + 1" "max_queue_sz t = max_queue_sz (mgr s)"
      "\<And>d. d \<noteq> c \<Longrightarrow> cmd_array t d = cmd_array (mgr s) d" "used (cmd_array t c) = used (cmd_array (mgr s) c)"
      "flags_of t c = 18" "cmd_work t = cmd_work (mgr s)"
      "cmds (mgr s) = [] \<or> cmd_rank (mgr s) (last (cmds (mgr s))) = 0"
    have "length (cmds (mgr s)) < 16" using inv t(1) by (intro inv_full) (simp_all add: cmd_inv_def)
    then show ?thesis using t fl by (intro inv_append [OF inv sub]) auto
  qed auto
qed

lemma inv_ret:
  assumes inv: "cmd_inv s" and sub: "phase s c = Submitting" and q: "cmd_mgr_queue expired c (mgr s) = Inr (Q_Ret r, t)"
  shows "cmd_inv (s\<lparr>mgr := snd (rwnx_send_msg_end c r t), phase := (phase s)(c := (if r = 0 then Deferred else Idle))\<rparr>)"
  using q
proof (rule queue_cases)
  assume "Q_Ret r = Q_Ret (- EPIPE)" "t = upd_cmd c (\<lambda>x. x\<lparr>result := word_of_int (- EPIPE)\<rparr>) (mgr s)"
  with inv_refused [OF inv sub] show ?thesis by (simp add: rwnx_send_msg_end_def)
next
  have fl: "flags_of (mgr s) c = RWNX_CMD_FLAG_REQ_CFM" "a2e_msg (cmd_array (mgr s) c) \<noteq> None"
      "used (cmd_array (mgr s) c)"
    using inv sub by (auto simp: cmd_inv_def inv_pool_def)
  assume "cmd_mgr_enqueue True c (mgr s) = Inr (Q_Ret r, t)"
  then show ?thesis
  proof (rule enqueue_cases [OF _ fl(1,2)])
    assume "Q_Ret r = Q_Ret (- ENOMEM)" "t = upd_cmd c (\<lambda>x. x\<lparr>result := word_of_int (- ENOMEM)\<rparr>) (mgr s)"
    with inv_refused [OF inv sub] show ?thesis by (simp add: rwnx_send_msg_end_def)
  next
    assume t: "cmds (mgr s) = [] \<or> queue_sz (mgr s) \<noteq> max_queue_sz (mgr s)" "cmds t = cmds (mgr s) @ [c]"
      "queue_sz t = queue_sz (mgr s) + 1" "max_queue_sz t = max_queue_sz (mgr s)"
      "\<And>d. d \<noteq> c \<Longrightarrow> cmd_array t d = cmd_array (mgr s) d" "used (cmd_array t c) = used (cmd_array (mgr s) c)"
      "flags_of t c = 22" "a2e_msg (cmd_array t c) = a2e_msg (cmd_array (mgr s) c)"
      "cmd_work t \<longleftrightarrow> cmd_work (mgr s) \<or> queue_sz (mgr s) + 1 \<le> 1" and r: "Q_Ret r = Q_Ret 0"
    have room: "length (cmds (mgr s)) < 16" using inv t(1) by (intro inv_full) (simp_all add: cmd_inv_def)
    have "queue_sz (mgr s) + 1 \<le> 1 \<longleftrightarrow> cmds (mgr s) = []"
      using inv room queue_sz_zero [of "length (cmds (mgr s))"] by (simp add: cmd_inv_def inv_list_def)
    with t fl room have "cmd_inv (s\<lparr>mgr := t, phase := (phase s)(c := Deferred)\<rparr>)"
      by (intro inv_append [OF inv sub]) auto
    with r show ?thesis by (simp add: rwnx_send_msg_end_def)
  qed auto
qed auto

lemma inv_boot: "cmd_inv (cmd_sys_init chip)"
  by (simp add: cmd_inv_defs cmd_sys_init_def cmd_boot_def rwnx_cmd_mgr_init_def rwnx_init_cmd_array_def
      zero_cmd_def cmds_ordered_def)

lemma in_listD: "cmd_inv s \<Longrightarrow> phase s c \<in> {Deferred, Caller_Waits, Worker_Waits, Abandoned} \<Longrightarrow> c \<in> set (cmds (mgr s))"
  by (auto simp: cmd_inv_def inv_list_def)

lemma ordered_cmd_work: "cmds_ordered (s\<lparr>cmd_work := b\<rparr>) cs = cmds_ordered s cs"
  by (rule ordered_cong) (simp add: cmd_rank_def)

lemma inv_cmd_step: "cmd_step s t \<Longrightarrow> cmd_inv s \<Longrightarrow> cmd_inv t"
proof (induction rule: cmd_step.induct)
  case (step_caller_done s c m)
  then obtain u where u: "cmd_retire c (mgr s) = Inr u" and m: "m = (if cmds u \<noteq> [] then u\<lparr>cmd_work := True\<rparr> else u)"
    by (auto simp: cmd_mgr_queue_finish_def split: sum.splits)
  have "m = u\<lparr>cmd_work := cmds u \<noteq> [] \<or> cmd_work u\<rparr>" by (simp add: m)
  with inv_retire [OF _ _ u, of "worker s" "cmds u \<noteq> [] \<or> cmd_work u"] step_caller_done in_listD [of s c]
  show ?case by simp
next
  case (step_worker_done s c m)
  then have m: "cmd_retire c (mgr s) = Inr m" by (simp add: cmd_task_finish_def)
  with inv_retire [OF _ _ m, of W_Running "cmd_work m"] step_worker_done in_listD [of s c] worker_waits [of s c]
  show ?case by simp
next
  case (step_caller_timeout s c m)
  then show ?case using inv_timeout [of s c "worker s"] by (simp add: cmd_mgr_queue_finish_def)
next
  case (step_worker_timeout s c m)
  then show ?case using inv_timeout [of s c W_Running] worker_waits [of s c] by (simp add: cmd_task_finish_def)
next
  case (step_worker_start s)
  then show ?case
    by (auto simp: cmd_inv_defs ordered_cmd_work)
next
  case (step_worker_idle s m)
  then have m: "m = mgr s" and "cmds (mgr s) = c # cs \<Longrightarrow> \<not> has (flags_of (mgr s) c) RWNX_CMD_FLAG_WAIT_PUSH" for c cs
    by (auto simp: cmd_task_pick_def split: list.splits if_splits sum.splits)
  with step_worker_idle show ?case by (auto simp: cmd_inv_defs)
qed (blast intro: inv_start inv_wait inv_ret inv_pick inv_msgind)+

interpretation cmd: invariant_of "cmd_sys_init chip" cmd_step cmd_inv for chip
  by unfold_locales (auto intro: inv_boot inv_cmd_step)

definition used_cmds :: "rwnx_cmd_mgr \<Rightarrow> nat set" where
  "used_cmds s = {c. used (cmd_array s c)}"

definition cmd_pool_wf :: "rwnx_cmd_mgr \<Rightarrow> bool" where
  "cmd_pool_wf s \<longleftrightarrow> (\<forall>c. used (cmd_array s c) \<longrightarrow> c < RWNX_CMD_ARRAY_SIZE)"

interpretation cmd_pool: pool rwnx_cmd_malloc rwnx_cmd_free used_cmds "{0..<RWNX_CMD_ARRAY_SIZE}" cmd_pool_wf
proof unfold_locales
  show "cmd_pool_wf t \<and> c \<in> {0..<RWNX_CMD_ARRAY_SIZE} \<and> c \<notin> used_cmds s \<and> used_cmds t = insert c (used_cmds s)"
    if "cmd_pool_wf s" "rwnx_cmd_malloc s = (Some c, t)" for s c t
    using malloc_SomeD [OF that(2)] that(1) by (auto simp: cmd_pool_wf_def used_cmds_def)
  show "t = s \<and> {0..<RWNX_CMD_ARRAY_SIZE} \<subseteq> used_cmds s" if "rwnx_cmd_malloc s = (None, t)" for s t
    using that by (auto simp: rwnx_cmd_malloc_def find_None_iff used_cmds_def split: option.splits)
  show "cmd_pool_wf (rwnx_cmd_free c s) \<and> used_cmds (rwnx_cmd_free c s) = used_cmds s - {c}"
    if "cmd_pool_wf s" for s c
    using that by (auto simp: cmd_pool_wf_def used_cmds_def rwnx_cmd_free_def)
qed (auto simp: cmd_pool_wf_def used_cmds_def)

section \<open>Properties\<close>

text \<open>
  Schedules.  An event names the rule of \<open>cmd_step\<close> that fires and what it is fired with, so that
  a run is a list of events; \<open>cmd_exec_step\<close> ties the two together.
\<close>

datatype cmd_event =
    E_Start lmac_msg bool u16 "u8 list option"
  | E_Queue bool nat
  | E_Caller bool nat
  | E_Worker_Start
  | E_Worker_Round
  | E_Worker bool nat
  | E_Msgind ipc_e2a_msg

fun cmd_exec :: "cmd_event \<Rightarrow> cmd_sys \<Rightarrow> cmd_sys option" where
  "cmd_exec (E_Start msg reqcfm rid cfm) s =
     (case rwnx_send_msg_start False msg reqcfm rid cfm (mgr s) of
        Inr (r, m) \<Rightarrow> Some (s\<lparr>mgr := m, phase := (case r of None \<Rightarrow> phase s | Some c \<Rightarrow> (phase s)(c := Submitting))\<rparr>)
      | Inl _ \<Rightarrow> None)"
| "cmd_exec (E_Queue expired c) s =
     (if phase s c \<noteq> Submitting then None
      else case cmd_mgr_queue expired c (mgr s) of
        Inr (Q_Wait, m) \<Rightarrow> Some (s\<lparr>mgr := m, phase := (phase s)(c := Caller_Waits)\<rparr>)
      | Inr (Q_Ret r, m) \<Rightarrow> Some (s\<lparr>mgr := snd (rwnx_send_msg_end c r m),
                   phase := (phase s)(c := (if r = 0 then Deferred else Idle))\<rparr>)
      | _ \<Rightarrow> None)"
| "cmd_exec (E_Caller completed c) s =
     (if phase s c \<noteq> Caller_Waits \<or> completed \<and> complete (cmd_array (mgr s) c) = 0 then None
      else case cmd_mgr_queue_finish completed c (mgr s) of
        Inr m \<Rightarrow> Some (s\<lparr>mgr := m, phase := (phase s)(c := (if completed then Idle else Abandoned))\<rparr>)
      | Inl _ \<Rightarrow> None)"
| "cmd_exec E_Worker_Start s =
     (if worker s = W_Sleeping \<and> cmd_work (mgr s)
      then Some (s\<lparr>mgr := (mgr s)\<lparr>cmd_work := False\<rparr>, worker := W_Running\<rparr>) else None)"
| "cmd_exec E_Worker_Round s =
     (if worker s \<noteq> W_Running then None
      else case cmd_task_pick (mgr s) of
        Inr (Some c, m) \<Rightarrow> Some (s\<lparr>mgr := m, phase := (phase s)(c := Worker_Waits), worker := W_Waiting c\<rparr>)
      | Inr (None, m) \<Rightarrow> Some (s\<lparr>mgr := m, worker := W_Sleeping\<rparr>)
      | Inl _ \<Rightarrow> None)"
| "cmd_exec (E_Worker completed c) s =
     (if worker s \<noteq> W_Waiting c \<or> completed \<and> complete (cmd_array (mgr s) c) = 0 then None
      else case cmd_task_finish completed c (mgr s) of
        Inr m \<Rightarrow> Some (s\<lparr>mgr := m, phase := (phase s)(c := (if completed then Idle else Abandoned)), worker := W_Running\<rparr>)
      | Inl _ \<Rightarrow> None)"
| "cmd_exec (E_Msgind msg) s =
     (case cmd_mgr_msgind None msg (mgr s) of Inr m \<Rightarrow> Some (s\<lparr>mgr := m\<rparr>) | Inl _ \<Rightarrow> None)"

fun cmd_run :: "cmd_event list \<Rightarrow> cmd_sys \<Rightarrow> cmd_sys option" where
  "cmd_run [] s = Some s"
| "cmd_run (e # es) s = (case cmd_exec e s of None \<Rightarrow> None | Some t \<Rightarrow> cmd_run es t)"

lemma cmd_exec_step: "cmd_exec e s = Some t \<Longrightarrow> cmd_step s t"
  by (cases e) (auto split: if_splits sum.splits prod.splits option.splits queue_ret.splits
      intro: cmd_step.intros dest: step_start step_ret)

lemma cmd_run_reachable: "cmd_run es s = Some t \<Longrightarrow> reachable i cmd_step s \<Longrightarrow> reachable i cmd_step t"
proof (induction es arbitrary: s)
  case (Cons e es)
  then obtain u where "cmd_exec e s = Some u" "cmd_run es u = Some t" by (auto split: option.splits)
  with Cons show ?case by (blast intro: reach_step cmd_exec_step)
qed simp

text \<open>
  The run of the witnesses: the first caller's request is in flight, a second one is left to the
  worker.
\<close>

definition w_msg :: "u16 \<Rightarrow> lmac_msg" where
  "w_msg i = \<lparr>msg_id = i, dest_id = 0, src_id = 100, param_len = 2, param = [1, 2]\<rparr>"

definition w_events :: "cmd_event list" where
  "w_events = [E_Start (w_msg 0) True 1 None, E_Queue False 0, E_Start (w_msg 2) True 3 None, E_Queue False 1]"

definition w_sys :: cmd_sys where
  "w_sys = the (cmd_run w_events (cmd_sys_init PRODUCT_ID_AIC8800D80))"

lemma w_sys_run: "cmd_run w_events (cmd_sys_init PRODUCT_ID_AIC8800D80) = Some w_sys"
proof -
  have "case cmd_run w_events (cmd_sys_init PRODUCT_ID_AIC8800D80) of None \<Rightarrow> False | Some _ \<Rightarrow> True" by code_simp
  then show ?thesis by (auto simp: w_sys_def split: option.splits)
qed

lemma w_sys_reachable: "reachable (cmd_sys_init PRODUCT_ID_AIC8800D80) cmd_step w_sys"
  by (rule cmd_run_reachable [OF w_sys_run reach_init])

lemma w_sys_facts: "cmds (mgr w_sys) = [0, 1] \<and> phase w_sys 0 = Caller_Waits \<and> phase w_sys 1 = Deferred"
  by code_simp

text \<open>
  C1: in every reachable state, short of a drain or a forced exit of the polling loop, at most one queued command is with the firmware: the confirmed
  commands come first in the list, then at most one that awaits its confirmation, then the unsent.
\<close>

theorem cmd_one_in_flight:
  assumes "reachable (cmd_sys_init chip) cmd_step s"
  shows "length (filter (in_flight (mgr s)) (cmds (mgr s))) \<le> 1 \<and>
    sorted (map (cmd_rank (mgr s)) (cmds (mgr s)))"
  using cmd.holds [OF assms] by (simp add: cmd_inv_def inv_order_def cmds_ordered_def)

theorem cmd_one_in_flight_witness:
  "map (cmd_rank (mgr w_sys)) (cmds (mgr w_sys)) = [1, 2] \<and>
   length (filter (in_flight (mgr w_sys)) (cmds (mgr w_sys))) \<le> 1"
proof
  show "map (cmd_rank (mgr w_sys)) (cmds (mgr w_sys)) = [1, 2]" by code_simp
  show "length (filter (in_flight (mgr w_sys)) (cmds (mgr w_sys))) \<le> 1"
    using cmd_one_in_flight [OF w_sys_reachable] by blast
qed

text \<open>
  In every reachable state the list holds distinct entries of the pool that are in use, at
  most 16 of them, and the 32-bit counter queue\_sz is its length.
\<close>

theorem cmd_queue_bounded:
  assumes "reachable (cmd_sys_init chip) cmd_step s"
  shows "distinct (cmds (mgr s)) \<and> unat (queue_sz (mgr s)) = length (cmds (mgr s)) \<and>
    length (cmds (mgr s)) \<le> unat RWNX_CMD_MAX_QUEUED \<and>
    set (cmds (mgr s)) \<subseteq> {c. c < RWNX_CMD_ARRAY_SIZE \<and> used (cmd_array (mgr s) c)}"
proof -
  have i: "cmd_inv s" using cmd.holds [OF assms] .
  then have l: "length (cmds (mgr s)) \<le> 16" "queue_sz (mgr s) = word_of_nat (length (cmds (mgr s)))"
    by (simp_all add: cmd_inv_def inv_list_def)
  moreover have "unat (word_of_nat (length (cmds (mgr s))) :: u32) = length (cmds (mgr s))"
    using l(1) by (simp add: unat_of_nat)
  moreover have "used (cmd_array (mgr s) c)" if "c \<in> set (cmds (mgr s))" for c
    using i that by (auto simp: cmd_inv_def inv_list_def inv_pool_def)
  ultimately show ?thesis using i by (auto simp: cmd_inv_def inv_list_def inv_pool_def)
qed

theorem cmd_queue_bounded_witness: "distinct (cmds (mgr w_sys)) \<and> unat (queue_sz (mgr w_sys)) = length (cmds (mgr w_sys))"
  using cmd_queue_bounded [OF w_sys_reachable] by blast

text \<open>
  C2: no lost wake-up.  Short of a drain or a forced exit, when the command at the head of the list still has to be sent, the worker
  is awake or its work item is queued, so that it will be sent.
\<close>

theorem cmd_no_lost_wakeup:
  assumes "reachable (cmd_sys_init chip) cmd_step s" "cmds (mgr s) = c # cs"
    and "has (flags_of (mgr s) c) RWNX_CMD_FLAG_WAIT_PUSH"
  shows "cmd_work (mgr s) \<or> worker s \<noteq> W_Sleeping"
  using cmd.holds [OF assms(1)] assms(2,3) by (auto simp: cmd_inv_def inv_worker_def inv_flags_def)

definition w_wake :: cmd_sys where
  "w_wake = the (cmd_run (w_events @ [E_Msgind \<lparr>e2a_id = 1, e2a_param_len = 0, e2a_param = []\<rparr>, E_Caller True 0])
     (cmd_sys_init PRODUCT_ID_AIC8800D80))"

lemma w_wake_reachable: "reachable (cmd_sys_init PRODUCT_ID_AIC8800D80) cmd_step w_wake"
proof -
  have "case cmd_run (w_events @ [E_Msgind \<lparr>e2a_id = 1, e2a_param_len = 0, e2a_param = []\<rparr>, E_Caller True 0])
     (cmd_sys_init PRODUCT_ID_AIC8800D80) of None \<Rightarrow> False | Some _ \<Rightarrow> True" by code_simp
  then have "cmd_run (w_events @ [E_Msgind \<lparr>e2a_id = 1, e2a_param_len = 0, e2a_param = []\<rparr>, E_Caller True 0])
     (cmd_sys_init PRODUCT_ID_AIC8800D80) = Some w_wake" by (auto simp: w_wake_def split: option.splits)
  then show ?thesis by (rule cmd_run_reachable [OF _ reach_init])
qed

theorem cmd_no_lost_wakeup_witness: "cmds (mgr w_wake) = [1] \<and> worker w_wake = W_Sleeping \<and> cmd_work (mgr w_wake)"
proof -
  have "cmds (mgr w_wake) = [1] \<and> has (flags_of (mgr w_wake) 1) RWNX_CMD_FLAG_WAIT_PUSH \<and> worker w_wake = W_Sleeping"
    by code_simp
  then show ?thesis using cmd_no_lost_wakeup [OF w_wake_reachable] by blast
qed

text \<open>
  C3: the list is not corrupted as long as nothing drains it.  In every reachable state the end of a caller's sleep and the
  end of the worker's sleep find their command in the list, whether it was confirmed or timed out,
  and the worker never sends a freed message: a round of the worker can only fail when the frame
  does not fit the command buffer.
\<close>

theorem cmd_list_safe:
  assumes "reachable (cmd_sys_init chip) cmd_step s"
  shows "(phase s c = Caller_Waits \<longrightarrow> (\<exists>m. cmd_mgr_queue_finish completed c (mgr s) = Inr m)) \<and>
    (worker s = W_Waiting c \<longrightarrow> (\<exists>m. cmd_task_finish completed c (mgr s) = Inr m)) \<and>
    (\<forall>f. cmd_task_pick (mgr s) = Inl f \<longrightarrow>
       (\<exists>d msg. cmds (mgr s) \<noteq> [] \<and> d = hd (cmds (mgr s)) \<and> a2e_msg (cmd_array (mgr s) d) = Some msg \<and>
          aicwf_set_cmd_tx (chipid (mgr s)) msg = Inl f))"
proof -
  have i: "cmd_inv s" using cmd.holds [OF assms] .
  have list: "\<exists>m. cmd_retire c (mgr s) = Inr m" if "phase s c \<in> {Caller_Waits, Worker_Waits}"
    using cmd_retire_linked [OF in_listD [OF i]] that by blast
  have pick: "\<exists>msg. cmds (mgr s) \<noteq> [] \<and> a2e_msg (cmd_array (mgr s) (hd (cmds (mgr s)))) = Some msg \<and>
      aicwf_set_cmd_tx (chipid (mgr s)) msg = Inl f" if f: "cmd_task_pick (mgr s) = Inl f" for f
  proof -
    obtain d ds where d: "cmds (mgr s) = d # ds" "has (flags_of (mgr s) d) RWNX_CMD_FLAG_WAIT_PUSH"
      using f by (auto simp: cmd_task_pick_def split: list.splits if_splits)
    then obtain msg where "a2e_msg (cmd_array (mgr s) d) = Some msg"
      using i by (auto simp: cmd_inv_def inv_flags_def)
    with d f show ?thesis by (auto simp: cmd_task_pick_def push_cmd_def upd_cmd_def split: sum.splits)
  qed
  show ?thesis
    using list worker_waits [OF i, of c] pick
    by (auto simp: cmd_mgr_queue_finish_def cmd_task_finish_def split: sum.split)
qed

theorem cmd_list_safe_witness: "\<exists>m. cmd_mgr_queue_finish True 0 (mgr w_sys) = Inr m"
  using cmd_list_safe [OF w_sys_reachable, of 0 True] w_sys_facts by blast

lemma start_keeps:
  "rwnx_send_msg_start bus_down msg reqcfm rid cfm s = Inr (r, t) \<Longrightarrow> cmds t = cmds s \<and> mgr_state t = mgr_state s"
  by (auto simp: rwnx_send_msg_start_def Let_def fill_cmd_def rwnx_cmd_free_def dest!: malloc_SomeD
      split: if_splits prod.splits option.splits sum.splits)

lemma cmd_complete_keeps [simp]: "cmds (cmd_complete c s) = cmds s" "mgr_state (cmd_complete c s) = mgr_state s"
  by (simp_all add: cmd_complete_def Let_def rwnx_cmd_free_def)

lemma msgind_keeps: "cmd_mgr_msgind cb msg s = Inr t \<Longrightarrow> cmds t = cmds s \<and> mgr_state t = mgr_state s"
  by (auto simp: cmd_mgr_msgind_def Let_def split: option.splits sum.splits if_splits)

lemma timeout_keeps: "cmds (cmd_timeout c s) = cmds s" "mgr_state (cmd_timeout c s) = RWNX_CMD_MGR_STATE_CRASHED"
  by (simp_all add: cmd_timeout_def Let_def)

lemma retire_keeps: "cmd_retire c s = Inr t \<Longrightarrow> set (cmds t) \<subseteq> set (cmds s) \<and> mgr_state t = mgr_state s"
  by (auto simp: cmd_retire_def list_del_def rwnx_cmd_free_def split: if_splits dest: set_remove1_subset)

lemma pick_keeps: "cmd_task_pick s = Inr (r, t) \<Longrightarrow> cmds t = cmds s \<and> mgr_state t = mgr_state s"
  by (auto simp: cmd_task_pick_def dest!: push_cmd_cases split: list.splits if_splits sum.splits)

lemma crashed_refuses:
  assumes "cmd_mgr_queue expired c s = Inr (r, t)" "mgr_state s = RWNX_CMD_MGR_STATE_CRASHED"
  shows "r = Q_Ret (- EPIPE) \<and> t = upd_cmd c (\<lambda>x. x\<lparr>result := word_of_int (- EPIPE)\<rparr>) s"
  using assms by (simp add: cmd_mgr_queue_def)

lemmas keeps = start_keeps msgind_keeps retire_keeps pick_keeps crashed_refuses

text \<open>
  A crash is final.  Once a command has timed out, every step leaves the manager crashed and
  adds no command to the list.
\<close>

theorem cmd_crash_absorbing:
  "cmd_step s t \<Longrightarrow> mgr_state (mgr s) = RWNX_CMD_MGR_STATE_CRASHED \<Longrightarrow>
   mgr_state (mgr t) = RWNX_CMD_MGR_STATE_CRASHED \<and> set (cmds (mgr t)) \<subseteq> set (cmds (mgr s))"
proof (induction rule: cmd_step.induct)
  case (step_ret s c expired r m)
  then show ?case by (auto dest!: crashed_refuses simp: rwnx_send_msg_end_def rwnx_cmd_free_def)
next
  case (step_caller_done s c m)
  then show ?case by (auto simp: cmd_mgr_queue_finish_def dest!: retire_keeps split: sum.splits if_splits)
next
  case (step_worker_done s c m)
  then show ?case by (auto simp: cmd_task_finish_def dest!: retire_keeps split: sum.splits if_splits)
qed (auto simp: timeout_keeps cmd_mgr_queue_finish_def cmd_task_finish_def dest!: keeps)

lemma exec_the_step:
  assumes "case cmd_exec e s of None \<Rightarrow> False | Some _ \<Rightarrow> True"
  shows "cmd_step s (the (cmd_exec e s))"
  using assms by (cases "cmd_exec e s") (simp_all add: cmd_exec_step)

definition w_crash :: cmd_sys where
  "w_crash = the (cmd_exec (E_Caller False 0) w_sys)"

lemma w_crash_step: "cmd_step w_sys w_crash"
  unfolding w_crash_def by (rule exec_the_step) code_simp

lemma w_crash_reachable: "reachable (cmd_sys_init PRODUCT_ID_AIC8800D80) cmd_step w_crash"
  by (rule reach_step [OF w_sys_reachable w_crash_step])

definition w_after_crash :: cmd_sys where
  "w_after_crash = the (cmd_exec (E_Start (w_msg 4) True 5 None) w_crash)"

lemma w_after_crash_step: "cmd_step w_crash w_after_crash"
  unfolding w_after_crash_def by (rule exec_the_step) code_simp

theorem cmd_crash_absorbing_witness:
  "mgr_state (mgr w_crash) = RWNX_CMD_MGR_STATE_CRASHED \<and> mgr_state (mgr w_after_crash) = RWNX_CMD_MGR_STATE_CRASHED"
proof
  show c: "mgr_state (mgr w_crash) = RWNX_CMD_MGR_STATE_CRASHED" by code_simp
  show "mgr_state (mgr w_after_crash) = RWNX_CMD_MGR_STATE_CRASHED"
    using cmd_crash_absorbing [OF w_after_crash_step c] by blast
qed

lemma start_not_used:
  assumes "rwnx_send_msg_start bus_down msg reqcfm rid cfm s = Inr (Some c, t)"
  shows "\<not> used (cmd_array s c)"
proof -
  obtain u where "rwnx_cmd_malloc s = (Some c, u)"
    using assms
    by (auto simp: rwnx_send_msg_start_def Let_def split: if_splits prod.splits option.splits sum.splits)
  then show ?thesis using malloc_SomeD by blast
qed

lemma inv_used: "cmd_inv s \<Longrightarrow> used (cmd_array (mgr s) c) \<longleftrightarrow> phase s c \<noteq> Idle"
  by (simp add: cmd_inv_def inv_pool_def)

lemma pick_deferred:
  assumes "cmd_inv s" "cmd_task_pick (mgr s) = Inr (Some c, t)"
  shows "phase s c = Deferred"
proof -
  have "has (flags_of (mgr s) c) RWNX_CMD_FLAG_WAIT_PUSH"
    using assms(2) by (auto simp: cmd_task_pick_def split: list.splits if_splits sum.splits)
  with assms(1) show ?thesis by (simp add: cmd_inv_def inv_flags_def)
qed

lemma abandoned_step:
  "cmd_step s t \<Longrightarrow> cmd_inv s \<Longrightarrow> phase s c = Abandoned \<Longrightarrow> phase t c = Abandoned"
proof (induction rule: cmd_step.induct)
  case (step_start bus_down msg reqcfm rid cfm s r m)
  then have "used (cmd_array (mgr s) c)" by (simp add: inv_used)
  then have "r \<noteq> Some c" using step_start(1) start_not_used by blast
  with step_start(3) show ?case by (simp split: option.split)
next
  case (step_worker_pick s d m)
  with pick_deferred [of s d m] show ?case by auto
next
  case (step_worker_done s d m)
  with worker_waits [of s d] show ?case by auto
next
  case (step_worker_timeout s d m)
  with worker_waits [of s d] show ?case by auto
qed auto

text \<open>
  A command that has timed out stays in the list and keeps its pool entry in every later
  state: nothing removes it, so that each timeout costs the pool one of its 40 entries.
\<close>

theorem cmd_timed_out_kept:
  assumes "reachable (cmd_sys_init chip) cmd_step s" "phase s c = Abandoned" "reachable s cmd_step t"
  shows "c \<in> set (cmds (mgr t)) \<and> used (cmd_array (mgr t) c)"
proof -
  have "cmd_inv t \<and> phase t c = Abandoned"
    using assms(3)
  proof (induction rule: reachable.induct)
    case reach_init
    show ?case using cmd.holds [OF assms(1)] assms(2) by simp
  next
    case (reach_step t u)
    then show ?case using abandoned_step inv_cmd_step by blast
  qed
  then show ?thesis using in_listD [of t c] by (simp add: inv_used)
qed

theorem cmd_timed_out_kept_witness: "0 \<in> set (cmds (mgr w_after_crash)) \<and> used (cmd_array (mgr w_after_crash) 0)"
proof -
  have "reachable w_crash cmd_step w_after_crash"
    by (rule reach_step [where s = w_crash and step = cmd_step, OF reach_init w_after_crash_step])
  moreover have "phase w_crash 0 = Abandoned" by code_simp
  ultimately show ?thesis using cmd_timed_out_kept [OF w_crash_reachable] by blast
qed

lemma find_oldest: "find P xs = Some x \<Longrightarrow> \<exists>as bs. xs = as @ x # bs \<and> P x \<and> (\<forall>y \<in> set as. \<not> P y)"
proof (induction xs)
  case (Cons a xs)
  show ?case
  proof (cases "P a")
    case True
    with Cons show ?thesis by (intro exI [of _ "[]"] exI [of _ xs]) simp
  next
    case False
    with Cons(2) have "find P xs = Some x" by simp
    with Cons(1) obtain as bs where "xs = as @ x # bs" "P x" "\<forall>y \<in> set as. \<not> P y" by blast
    with False show ?thesis by (intro exI [of _ "a # as"] exI [of _ bs]) simp
  qed
qed simp

text \<open>
  C4: a confirmation completes the oldest command that waits for it and no other.  With no command
  that waits for the message the manager is unchanged; otherwise the oldest one that does is the
  only command touched: its confirmation flag goes, the message is copied into its buffer, it is
  marked done with result 0 and its sleeper is woken once.
\<close>

theorem msgind_completes_oldest:
  assumes fl: "\<forall>c. \<not> has (flags_of s c) RWNX_CMD_FLAG_NONBLOCK \<and> \<not> has (flags_of s c) RWNX_CMD_FLAG_WAIT_ACK"
    and t: "cmd_mgr_msgind cb msg s = Inr t"
  shows "t = s \<and> (\<forall>c \<in> set (cmds s). \<not> msgind_match cb msg s c) \<or>
    (\<exists>as c bs buf. cmds s = as @ c # bs \<and> msgind_match cb msg s c \<and> (\<forall>d \<in> set as. \<not> msgind_match cb msg s d) \<and>
      e2a_copy msg (e2a_msg (cmd_array s c)) = Inr buf \<and>
      t = upd_cmd c (\<lambda>x. x\<lparr>cmd_flags := (cmd_flags x AND NOT RWNX_CMD_FLAG_WAIT_CFM) OR RWNX_CMD_FLAG_DONE,
            e2a_msg := buf, result := 0, complete := Suc (complete x)\<rparr>) s)"
proof (cases "find (msgind_match cb msg s) (cmds s)")
  case None
  with t show ?thesis by (simp add: cmd_mgr_msgind_def find_None_iff)
next
  case (Some c)
  from find_oldest [OF this] obtain as bs where c: "cmds s = as @ c # bs" "msgind_match cb msg s c"
    "\<forall>d \<in> set as. \<not> msgind_match cb msg s d" by blast
  obtain buf where b: "e2a_copy msg (e2a_msg (cmd_array s c)) = Inr buf"
    using t Some by (cases "e2a_copy msg (e2a_msg (cmd_array s c))") (auto simp: cmd_mgr_msgind_def)
  let ?s = "upd_cmd c (\<lambda>x. x\<lparr>cmd_flags := cmd_flags x AND NOT RWNX_CMD_FLAG_WAIT_CFM, e2a_msg := buf\<rparr>) s"
  have f: "RWNX_CMD_WAIT_COMPLETE (flags_of ?s c)" "RWNX_CMD_WAIT_COMPLETE (flags_of ?s c OR RWNX_CMD_FLAG_DONE)"
    "\<not> has (flags_of ?s c OR RWNX_CMD_FLAG_DONE) RWNX_CMD_FLAG_NONBLOCK"
    using fl [rule_format, of c] unfolding RWNX_CMD_WAIT_COMPLETE_def has_mask_or by (simp_all add: flags)
  have "t = cmd_complete c ?s"
    using t f(1) unfolding cmd_mgr_msgind_def Some option.case b sum.case Let_def by simp
  also have "\<dots> = upd_cmd c (\<lambda>x. x\<lparr>result := 0, complete := Suc (complete x)\<rparr>)
      (upd_cmd c (\<lambda>x. x\<lparr>cmd_flags := cmd_flags x OR RWNX_CMD_FLAG_DONE\<rparr>) ?s)"
    using f(2,3) unfolding cmd_complete_def Let_def by (simp add: upd_cmd_def)
  also have "\<dots> = upd_cmd c (\<lambda>x. x\<lparr>cmd_flags := (cmd_flags x AND NOT RWNX_CMD_FLAG_WAIT_CFM) OR RWNX_CMD_FLAG_DONE,
            e2a_msg := buf, result := 0, complete := Suc (complete x)\<rparr>) s"
    by (cases "cmd_array s c") (simp add: upd_cmd_def)
  finally show ?thesis using b c by blast
qed

theorem msgind_completes_oldest_witness:
  "\<exists>t. cmd_mgr_msgind None \<lparr>e2a_id = 1, e2a_param_len = 0, e2a_param = []\<rparr> (mgr w_sys) = Inr t \<and>
     complete (cmd_array t 0) = 1"
proof -
  let ?m = "\<lparr>e2a_id = 1, e2a_param_len = 0, e2a_param = []\<rparr> :: ipc_e2a_msg"
  have "case cmd_mgr_msgind None ?m (mgr w_sys) of Inl _ \<Rightarrow> False | Inr _ \<Rightarrow> True" by code_simp
  then obtain t where t: "cmd_mgr_msgind None ?m (mgr w_sys) = Inr t" by (auto split: sum.splits)
  have "cmd_inv w_sys" using cmd.holds [OF w_sys_reachable] .
  then have fl: "\<forall>c. \<not> has (flags_of (mgr w_sys) c) RWNX_CMD_FLAG_NONBLOCK \<and> \<not> has (flags_of (mgr w_sys) c) RWNX_CMD_FLAG_WAIT_ACK"
    by (simp add: cmd_inv_def inv_flags_def)
  have "map (msgind_match None ?m (mgr w_sys)) (cmds (mgr w_sys)) = [True, False] \<and>
      complete (cmd_array (mgr w_sys) 0) = 0" by code_simp
  then have "msgind_match None ?m (mgr w_sys) 0" "\<not> msgind_match None ?m (mgr w_sys) 1"
    "complete (cmd_array (mgr w_sys) 0) = 0" "cmds (mgr w_sys) = [0, 1]"
    using w_sys_facts by auto
  moreover from this have "\<not> (\<forall>c \<in> set (cmds (mgr w_sys)). \<not> msgind_match None ?m (mgr w_sys) c)" by simp
  ultimately have "complete (cmd_array t 0) = 1"
    using msgind_completes_oldest [OF fl t] by (auto simp: Cons_eq_append_conv)
  with t show ?thesis by blast
qed

text \<open>
  The pool.  An entry is handed out exactly when one of the 40 is unused, two requests never
  get the same one, and an entry that is freed can be had again.
\<close>

theorem cmd_pool_sound:
  assumes "cmd_pool_wf s"
  shows "((\<exists>c t. rwnx_cmd_malloc s = (Some c, t)) \<longleftrightarrow> used_cmds s \<noteq> {0..<RWNX_CMD_ARRAY_SIZE}) \<and>
    (\<forall>c t d u. rwnx_cmd_malloc s = (Some c, t) \<and> rwnx_cmd_malloc t = (Some d, u) \<longrightarrow> c \<noteq> d) \<and>
    (\<forall>c \<in> used_cmds s. \<exists>d t. rwnx_cmd_malloc (rwnx_cmd_free c s) = (Some d, t))"
  using cmd_pool.alloc_succeeds_iff [OF assms] cmd_pool.alloc_twice_distinct [OF assms]
    cmd_pool.alloc_after_release [OF assms] by blast

theorem cmd_pool_sound_witness: "\<exists>c t. rwnx_cmd_malloc (mgr w_sys) = (Some c, t)"
proof -
  have "cmd_inv w_sys" using cmd.holds [OF w_sys_reachable] .
  then have "cmd_pool_wf (mgr w_sys)" by (simp add: cmd_inv_def inv_pool_def cmd_pool_wf_def)
  moreover have "\<not> used (cmd_array (mgr w_sys) 5)" by code_simp
  then have "used_cmds (mgr w_sys) \<noteq> {0..<RWNX_CMD_ARRAY_SIZE}"
    by (auto simp: used_cmds_def RWNX_CMD_ARRAY_SIZE_def)
  ultimately show ?thesis using cmd_pool_sound by blast
qed


definition w_forced :: cmd_sys where
  "w_forced = the (cmd_exec (E_Start (w_msg 6) True 7 (Some [0, 0])) w_sys)"


lemma drain_empties: "cmds (cmd_mgr_drain s) = []"
proof -
  have "cmds (fold (\<lambda>c t. let t1 = t\<lparr>cmds := remove1 c (cmds t), queue_sz := queue_sz t - 1\<rparr>
                 in if has (flags_of t1 c) RWNX_CMD_FLAG_NONBLOCK then t1
                    else upd_cmd c (\<lambda>x. x\<lparr>complete := Suc (complete x)\<rparr>) t1) cs t) = fold remove1 cs (cmds t)" for cs t
    by (induction cs arbitrary: t) (simp_all add: Let_def)
  moreover have "fold remove1 cs cs = []" for cs :: "nat list"
    by (induction cs) simp_all
  ultimately show ?thesis by (simp add: cmd_mgr_drain_def)
qed

text \<open>
  Draining under a sleeping caller corrupts the list.  The drain removes every command and
  wakes its sleeper, and the sleeper then removes its command a second time.
\<close>

theorem drain_then_double_delete: "cmds (cmd_mgr_drain s) = [] \<and> cmd_mgr_queue_finish True c (cmd_mgr_drain s) = Inl List_Poison"
  by (simp add: drain_empties cmd_mgr_queue_finish_def cmd_retire_def list_del_def)

end
