(* ===== verification/Frame_Queue.thy ===== *)
theory Frame_Queue
  imports Aic_Prelude
begin

text \<open>
  The priority frame queue of aicwf\_txrxif.c (\<open>struct frame_queue\<close>), used for the frames received
  from the bus and for those waiting to be sent.  It is an array of eight FIFO lists with a
  count and an upper bound \<open>hi_prio\<close> on the highest list in use.  The interface its clients rely on
  is the locale \<open>prio_queue\<close>: frames come out by descending priority, in order within a priority,
  each exactly once.
\<close>

section \<open>Interface\<close>

text \<open>Taking up to \<open>n\<close> elements out of a queue.\<close>

fun drain :: "('q \<Rightarrow> 'p option \<times> 'q) \<Rightarrow> nat \<Rightarrow> 'q \<Rightarrow> 'p list \<times> 'q" where
  "drain deq 0 q = ([], q)"
| "drain deq (Suc n) q =
     (case deq q of
        (None, q') \<Rightarrow> ([], q')
      | (Some p, q') \<Rightarrow> (case drain deq n q' of (ps, q'') \<Rightarrow> (p # ps, q'')))"

text \<open>All elements by descending priority below \<open>n\<close>.\<close>

fun by_prio :: "nat \<Rightarrow> (nat \<Rightarrow> 'p list) \<Rightarrow> 'p list" where
  "by_prio 0 f = []"
| "by_prio (Suc n) f = f n @ by_prio n f"

lemma by_prio_cong: "(\<And>i. i < n \<Longrightarrow> f i = g i) \<Longrightarrow> by_prio n f = by_prio n g"
  by (induction n) auto

lemma by_prio_Nil: "by_prio n f = [] \<longleftrightarrow> (\<forall>i < n. f i = [])"
  by (induction n) (auto simp: less_Suc_eq)

lemma by_prio_head:
  assumes "i < n" "f i = p # g i" "\<And>j. j \<noteq> i \<Longrightarrow> g j = f j" "\<And>j. i < j \<Longrightarrow> f j = []"
  shows "by_prio n f = p # by_prio n g"
  using assms(1)
proof (induction n)
  case (Suc n)
  show ?case
  proof (cases "i = n")
    case True
    have "by_prio n f = by_prio n g" using True assms(3) by (intro by_prio_cong) auto
    then show ?thesis using True assms(2) by simp
  next
    case False
    then have "f n = []" "g n = []" using Suc.prems assms(3,4) by auto
    with False Suc show ?thesis by simp
  qed
qed simp

lemma by_prio_length_upd:
  "i < n \<Longrightarrow> length (by_prio n (f(i := xs))) + length (f i) = length (by_prio n f) + length xs"
proof (induction n)
  case (Suc n)
  show ?case
  proof (cases "i = n")
    case True
    have "by_prio n (f(i := xs)) = by_prio n f" using True by (intro by_prio_cong) auto
    then show ?thesis using True by (simp del: fun_upd_apply add: fun_upd_same)
  next
    case False
    with Suc show ?thesis by simp
  qed
qed simp

locale prio_queue =
  fixes enq :: "nat \<Rightarrow> 'p \<Rightarrow> 'q \<Rightarrow> bool \<times> 'q"
    and deq :: "'q \<Rightarrow> 'p option \<times> 'q"
    and items :: "'q \<Rightarrow> nat \<Rightarrow> 'p list"
    and prios :: "'q \<Rightarrow> nat"
    and inv :: "'q \<Rightarrow> bool"
  assumes enq_ok: "inv q \<Longrightarrow> i < prios q \<Longrightarrow> enq i p q = (True, q') \<Longrightarrow>
      inv q' \<and> prios q' = prios q \<and> items q' = (items q)(i := items q i @ [p])"
    and enq_refused: "enq i p q = (False, q') \<Longrightarrow> q' = q"
    and deq_None: "inv q \<Longrightarrow> deq q = (None, q') \<Longrightarrow> q' = q \<and> (\<forall>i < prios q. items q i = [])"
    and deq_Some: "inv q \<Longrightarrow> deq q = (Some p, q') \<Longrightarrow>
      inv q' \<and> prios q' = prios q \<and>
      (\<exists>i < prios q. items q i = p # items q' i \<and> (\<forall>j. j \<noteq> i \<longrightarrow> items q' j = items q j) \<and>
         (\<forall>j > i. items q j = []))"
begin

lemma deq_by_prio:
  assumes "inv q" "deq q = (Some p, q')"
  shows "by_prio (prios q) (items q) = p # by_prio (prios q') (items q')"
  using deq_Some [OF assms] by (auto intro: by_prio_head)

lemma drain_all:
  "inv q \<Longrightarrow> length (by_prio (prios q) (items q)) \<le> n \<Longrightarrow> fst (drain deq n q) = by_prio (prios q) (items q)"
proof (induction n arbitrary: q)
  case (Suc n)
  show ?case
  proof (cases "deq q")
    case (Pair r q')
    show ?thesis
    proof (cases r)
      case None
      then have "by_prio (prios q) (items q) = []" using Pair Suc.prems deq_None [of q q'] by (simp add: by_prio_Nil)
      with None Pair show ?thesis by simp
    next
      case (Some p)
      with Pair have d: "deq q = (Some p, q')" by simp
      then have "inv q'" using Suc.prems deq_Some by blast
      moreover from this have "fst (drain deq n q') = by_prio (prios q') (items q')"
        using Suc deq_by_prio [OF Suc.prems(1) d] by simp
      ultimately show ?thesis using d deq_by_prio [OF Suc.prems(1) d] by (simp add: case_prod_unfold)
    qed
  qed
qed (simp split: list.splits)

lemma enq_deq_once:
  assumes "inv q" "\<forall>i < prios q. items q i = []" "i < prios q" "enq i p q = (True, q')"
  shows "fst (deq q') = Some p"
proof -
  have q': "inv q'" "prios q' = prios q" "items q' i = [p]" using enq_ok [OF assms(1,3,4)] assms by auto
  show ?thesis
  proof (cases "deq q'")
    case (Pair r q'')
    show ?thesis
    proof (cases r)
      case None
      with Pair q' assms deq_None [of q' q''] show ?thesis by auto
    next
      case (Some x)
      with Pair q' have "by_prio (prios q') (items q') = x # by_prio (prios q'') (items q'')"
        using deq_by_prio by blast
      moreover have "set (by_prio n (items q')) \<subseteq> {p}" if "n \<le> prios q" for n
        using that
      proof (induction n)
        case (Suc n)
        then have "items q' n = [] \<or> items q' n = [p]" using enq_ok [OF assms(1,3,4)] assms(2) by auto
        with Suc show ?case by auto
      qed simp
      ultimately show ?thesis using Pair Some q' by (metis insert_subset list.simps(15) order_refl singletonD fst_conv)
    qed
  qed
qed

end

section \<open>Data\<close>

record 'p frame_queue =
  num_prio :: u16
  hi_prio :: u16
  qmax :: u16
  qcnt :: u16
  queuelist :: "nat \<Rightarrow> 'p list"

abbreviation "NUM_QUEUES \<equiv> (8 :: nat)"

section \<open>Operations\<close>

definition aicwf_frame_queue_init :: "nat \<Rightarrow> nat \<Rightarrow> 'p frame_queue" where
  "aicwf_frame_queue_init n max_len =
     \<lparr>num_prio = word_of_nat n, hi_prio = 0, qmax = word_of_nat max_len, qcnt = 0, queuelist = (\<lambda>_. [])\<rparr>"

text \<open>\<open>aicwf_frame_queue_penq\<close>: None is the NULL result.\<close>

definition aicwf_frame_queue_penq :: "nat \<Rightarrow> 'p \<Rightarrow> 'p frame_queue \<Rightarrow> 'p option \<times> 'p frame_queue" where
  "aicwf_frame_queue_penq prio p pq =
     (if length (queuelist pq prio) \<ge> unat (qmax pq) then (None, pq)
      else (Some p, pq\<lparr>queuelist := (queuelist pq)(prio := queuelist pq prio @ [p]), qcnt := qcnt pq + 1,
              hi_prio := (if unat (hi_prio pq) < prio then word_of_nat prio else hi_prio pq)\<rparr>))"

definition aicwf_frame_enq :: "nat \<Rightarrow> 'p \<Rightarrow> 'p frame_queue \<Rightarrow> bool \<times> 'p frame_queue" where
  "aicwf_frame_enq prio p q =
     (if length (queuelist q prio) < unat (qmax q) \<and> qcnt q < qmax q
      then (True, snd (aicwf_frame_queue_penq prio p q)) else (False, q))"

definition aicwf_rxframe_enqueue :: "'p \<Rightarrow> 'p frame_queue \<Rightarrow> bool \<times> 'p frame_queue" where
  "aicwf_rxframe_enqueue p q = aicwf_frame_enq 0 p q"

text \<open>\<open>aicwf_is_framequeue_empty\<close> sums the lengths up to \<open>hi_prio\<close>.\<close>

definition aicwf_is_framequeue_empty :: "'p frame_queue \<Rightarrow> bool" where
  "aicwf_is_framequeue_empty pq \<longleftrightarrow>
     \<not> 0 < sum_list (map (\<lambda>prio. length (queuelist pq prio)) [0..<Suc (unat (hi_prio pq))])"

text \<open>The loop of \<open>aicwf_frame_dequeue\<close> that lowers \<open>hi_prio\<close> past empty lists.\<close>

fun lower_prio :: "(nat \<Rightarrow> 'p list) \<Rightarrow> nat \<Rightarrow> nat" where
  "lower_prio ql 0 = 0"
| "lower_prio ql (Suc n) = (if ql (Suc n) = [] then lower_prio ql n else Suc n)"

definition aicwf_frame_dequeue :: "'p frame_queue \<Rightarrow> 'p option \<times> 'p frame_queue" where
  "aicwf_frame_dequeue pq =
     (if qcnt pq = 0 then (None, pq)
      else let prio = lower_prio (queuelist pq) (unat (hi_prio pq));
               pq1 = pq\<lparr>hi_prio := word_of_nat prio\<rparr>
           in case queuelist pq prio of
                [] \<Rightarrow> (None, pq1)
              | p # ps \<Rightarrow> (Some p, pq1\<lparr>queuelist := (queuelist pq)(prio := ps), qcnt := qcnt pq - 1\<rparr>))"

text \<open>The loop of \<open>aicwf_frame_queue_peek_tail\<close>: the lowest list in use below \<open>hi_prio\<close>.\<close>

fun raise_prio :: "(nat \<Rightarrow> 'p list) \<Rightarrow> nat \<Rightarrow> nat \<Rightarrow> nat" where
  "raise_prio ql prio 0 = prio"
| "raise_prio ql prio (Suc n) = (if ql prio \<noteq> [] then prio else raise_prio ql (Suc prio) n)"

definition aicwf_frame_queue_peek_tail :: "'p frame_queue \<Rightarrow> ('p option \<times> nat) option" where
  "aicwf_frame_queue_peek_tail pq =
     (if qcnt pq = 0 then None
      else let prio = raise_prio (queuelist pq) 0 (unat (hi_prio pq))
           in Some (if queuelist pq prio = [] then None else Some (last (queuelist pq prio)), prio))"

text \<open>\<open>aicwf_frame_queue_flush\<close>, with the frames it frees, in order.\<close>

definition aicwf_frame_queue_flush :: "'p frame_queue \<Rightarrow> 'p list \<times> 'p frame_queue" where
  "aicwf_frame_queue_flush pq =
     fold (\<lambda>prio (freed, q). (freed @ queuelist q prio,
              q\<lparr>queuelist := (queuelist q)(prio := []), qcnt := qcnt q - word_of_nat (length (queuelist q prio))\<rparr>))
       [0..<unat (num_prio pq)] ([], pq)"

section \<open>Invariant\<close>

definition frame_queue_inv :: "'p frame_queue \<Rightarrow> bool" where
  "frame_queue_inv pq \<longleftrightarrow>
     0 < unat (num_prio pq) \<and> unat (num_prio pq) \<le> NUM_QUEUES \<and> unat (hi_prio pq) < unat (num_prio pq) \<and>
     (\<forall>i > unat (hi_prio pq). queuelist pq i = []) \<and>
     unat (qcnt pq) = length (by_prio (unat (num_prio pq)) (queuelist pq)) \<and>
     unat (qcnt pq) \<le> unat (qmax pq)"

lemma lower_prio_le: "lower_prio ql n \<le> n"
  by (induction n) auto

lemma lower_prio_above: "lower_prio ql n < i \<Longrightarrow> i \<le> n \<Longrightarrow> ql i = []"
  by (induction n) (auto simp: le_Suc_eq split: if_splits)

lemma lower_prio_stop: "0 < lower_prio ql n \<Longrightarrow> ql (lower_prio ql n) \<noteq> []"
  by (induction n) auto

lemma u16_bound: "unat (w :: u16) < 65536"
  using unsigned_less [where w = w] by simp

lemma unat_word_of_nat_le: "n \<le> unat (w :: u16) \<Longrightarrow> unat (word_of_nat n :: u16) = n"
  using u16_bound [of w] by (simp add: unat_of_nat)

lemma unat_word_of_nat_small: "n < 65536 \<Longrightarrow> unat (word_of_nat n :: u16) = n"
  by (simp add: unat_of_nat)

lemma frame_queue_inv_init: "0 < n \<Longrightarrow> n \<le> NUM_QUEUES \<Longrightarrow> frame_queue_inv (aicwf_frame_queue_init n max_len)"
  by (simp add: frame_queue_inv_def aicwf_frame_queue_init_def unat_word_of_nat_small by_prio_Nil)

lemma inv_enq:
  assumes inv: "frame_queue_inv q" and i: "i < unat (num_prio q)" and e: "aicwf_frame_enq i p q = (True, q')"
  shows "frame_queue_inv q' \<and> num_prio q' = num_prio q \<and> queuelist q' = (queuelist q)(i := queuelist q i @ [p])"
proof -
  let ?h = "if unat (hi_prio q) < i then word_of_nat i else hi_prio q"
  have c: "length (queuelist q i) < unat (qmax q)" "unat (qcnt q) < unat (qmax q)"
    and q': "q' = q\<lparr>queuelist := (queuelist q)(i := queuelist q i @ [p]), qcnt := qcnt q + 1, hi_prio := ?h\<rparr>"
    using e by (auto simp: aicwf_frame_enq_def aicwf_frame_queue_penq_def word_less_nat_alt split: if_splits)
  have h: "unat ?h = max (unat (hi_prio q)) i"
    using inv i by (auto simp: frame_queue_inv_def unat_word_of_nat_small max_def)
  have "unat (qcnt q + 1) = unat (qcnt q) + 1"
    using c(2) u16_bound [of "qmax q"] by (simp add: unat_word_ariths)
  moreover have "length (by_prio (unat (num_prio q)) ((queuelist q)(i := queuelist q i @ [p])))
      = length (by_prio (unat (num_prio q)) (queuelist q)) + 1"
    using by_prio_length_upd [OF i, of "queuelist q" "queuelist q i @ [p]"] by simp
  ultimately show ?thesis
    using inv i c h by (auto simp: frame_queue_inv_def q')
qed

lemma inv_deq:
  assumes inv: "frame_queue_inv q" and d: "aicwf_frame_dequeue q = (Some p, q')"
  shows "frame_queue_inv q' \<and> num_prio q' = num_prio q \<and>
    (\<exists>i < unat (num_prio q). queuelist q i = p # queuelist q' i \<and>
       (\<forall>j. j \<noteq> i \<longrightarrow> queuelist q' j = queuelist q j) \<and> (\<forall>j > i. queuelist q j = []))"
proof -
  define i where "i = lower_prio (queuelist q) (unat (hi_prio q))"
  obtain ps where ps: "queuelist q i = p # ps" and n0: "qcnt q \<noteq> 0"
    and q': "q' = q\<lparr>hi_prio := word_of_nat i, queuelist := (queuelist q)(i := ps), qcnt := qcnt q - 1\<rparr>"
    using d by (auto simp: aicwf_frame_dequeue_def Let_def i_def split: if_splits list.splits)
  have i: "i \<le> unat (hi_prio q)" "i < unat (num_prio q)"
    using inv lower_prio_le [of "queuelist q" "unat (hi_prio q)"] by (auto simp: i_def frame_queue_inv_def)
  have h: "unat (word_of_nat i :: u16) = i" using i(1) by (rule unat_word_of_nat_le)
  have above: "queuelist q j = []" if "i < j" for j
    using that inv lower_prio_above [of "queuelist q" "unat (hi_prio q)" j]
    by (cases "j \<le> unat (hi_prio q)") (auto simp: i_def frame_queue_inv_def)
  have "unat (qcnt q - 1) = unat (qcnt q) - 1" using n0 by (simp add: unat_minus_one)
  moreover have "length (by_prio (unat (num_prio q)) ((queuelist q)(i := ps))) + 1
      = length (by_prio (unat (num_prio q)) (queuelist q))"
    using by_prio_length_upd [OF i(2), of "queuelist q" ps] ps by simp
  ultimately have "frame_queue_inv q'" using inv i h above by (auto simp: frame_queue_inv_def q')
  then show ?thesis using ps i above by (auto simp: q')
qed

lemma deq_empty:
  assumes inv: "frame_queue_inv q" and d: "aicwf_frame_dequeue q = (None, q')"
  shows "q' = q \<and> (\<forall>i < unat (num_prio q). queuelist q i = [])"
proof (cases "qcnt q = 0")
  case True
  then have "by_prio (unat (num_prio q)) (queuelist q) = []" using inv by (simp add: frame_queue_inv_def)
  with True d show ?thesis by (simp add: aicwf_frame_dequeue_def by_prio_Nil)
next
  case False
  define i where "i = lower_prio (queuelist q) (unat (hi_prio q))"
  have e: "queuelist q i = []"
    using False d by (auto simp: aicwf_frame_dequeue_def Let_def i_def split: list.splits)
  then have "i = 0" using lower_prio_stop [of "queuelist q" "unat (hi_prio q)"] by (auto simp: i_def)
  then have "queuelist q j = []" for j
    using e inv lower_prio_above [of "queuelist q" "unat (hi_prio q)" j]
    by (cases "j = 0"; cases "j \<le> unat (hi_prio q)") (auto simp: i_def frame_queue_inv_def)
  then have "by_prio (unat (num_prio q)) (queuelist q) = []" by (simp add: by_prio_Nil)
  with False inv show ?thesis by (simp add: frame_queue_inv_def unat_eq_zero)
qed

interpretation fq: prio_queue aicwf_frame_enq aicwf_frame_dequeue queuelist "\<lambda>q. unat (num_prio q)" frame_queue_inv
proof unfold_locales
  fix q :: "'a frame_queue" and i p q'
  assume "frame_queue_inv q" "i < unat (num_prio q)" "aicwf_frame_enq i p q = (True, q')"
  from inv_enq [OF this]
  show "frame_queue_inv q' \<and> unat (num_prio q') = unat (num_prio q) \<and> queuelist q' = (queuelist q)(i := queuelist q i @ [p])"
    by simp
next
  fix i and p :: 'a and q q'
  assume "aicwf_frame_enq i p q = (False, q')"
  then show "q' = q" by (simp add: aicwf_frame_enq_def split: if_splits)
next
  fix q :: "'a frame_queue" and q'
  assume "frame_queue_inv q" "aicwf_frame_dequeue q = (None, q')"
  then show "q' = q \<and> (\<forall>i < unat (num_prio q). queuelist q i = [])" by (rule deq_empty)
next
  fix q :: "'a frame_queue" and p q'
  assume "frame_queue_inv q" "aicwf_frame_dequeue q = (Some p, q')"
  from inv_deq [OF this]
  show "frame_queue_inv q' \<and> unat (num_prio q') = unat (num_prio q) \<and>
      (\<exists>i < unat (num_prio q). queuelist q i = p # queuelist q' i \<and> (\<forall>j. j \<noteq> i \<longrightarrow> queuelist q' j = queuelist q j) \<and>
         (\<forall>j > i. queuelist q j = []))" by simp
qed

lemma sum_prefix_by_prio:
  "sum_list (map (\<lambda>i. length (f i)) [0..<n]) = length (by_prio n f)"
  by (induction n) auto

lemma by_prio_extend:
  assumes "m \<le> n" "\<And>i. m \<le> i \<Longrightarrow> f i = []"
  shows "by_prio n f = by_prio m f"
  using assms(1)
proof (induction n)
  case (Suc n)
  then show ?case using assms(2) by (cases "m = Suc n") auto
qed simp

lemma is_empty_iff:
  assumes "frame_queue_inv q"
  shows "aicwf_is_framequeue_empty q \<longleftrightarrow> qcnt q = 0"
proof -
  have "by_prio (unat (num_prio q)) (queuelist q) = by_prio (Suc (unat (hi_prio q))) (queuelist q)"
    using assms by (intro by_prio_extend) (auto simp: frame_queue_inv_def)
  then have "unat (qcnt q) = sum_list (map (\<lambda>i. length (queuelist q i)) [0..<Suc (unat (hi_prio q))])"
    using assms unfolding sum_prefix_by_prio by (simp add: frame_queue_inv_def)
  then have "aicwf_is_framequeue_empty q \<longleftrightarrow> unat (qcnt q) = 0"
    unfolding aicwf_is_framequeue_empty_def by simp
  then show ?thesis by (simp add: unat_eq_zero)
qed

lemma length_le_by_prio: "i < n \<Longrightarrow> length (f i) \<le> length (by_prio n f)"
  by (induction n) (auto simp: less_Suc_eq)

lemma enq_accepts_iff:
  assumes "frame_queue_inv q" "i < unat (num_prio q)"
  shows "fst (aicwf_frame_enq i p q) \<longleftrightarrow> unat (qcnt q) < unat (qmax q)"
  using assms length_le_by_prio [OF assms(2), of "queuelist q"]
  by (auto simp: aicwf_frame_enq_def frame_queue_inv_def word_less_nat_alt)

fun flush_lists :: "nat list \<Rightarrow> (nat \<Rightarrow> 'p list) \<Rightarrow> 'p list" where
  "flush_lists [] f = []"
| "flush_lists (i # is) f = f i @ flush_lists is f"

lemma flush_lists_cong: "(\<And>i. i \<in> set is \<Longrightarrow> f i = g i) \<Longrightarrow> flush_lists is f = flush_lists is g"
  by (induction "is") auto

lemma flush_fold:
  assumes "distinct is"
  shows "fold (\<lambda>prio (freed, q). (freed @ queuelist q prio,
              q\<lparr>queuelist := (queuelist q)(prio := []), qcnt := qcnt q - word_of_nat (length (queuelist q prio))\<rparr>))
       is (fr, q) =
     (fr @ flush_lists is (queuelist q),
      q\<lparr>queuelist := (\<lambda>j. if j \<in> set is then [] else queuelist q j),
        qcnt := qcnt q - word_of_nat (length (flush_lists is (queuelist q)))\<rparr>)"
  using assms
proof (induction "is" arbitrary: fr q)
  case (Cons i "is")
  have "flush_lists is ((queuelist q)(i := [])) = flush_lists is (queuelist q)"
    using Cons.prems by (intro flush_lists_cong) auto
  then show ?case using Cons by (simp add: fun_eq_iff algebra_simps del: fun_upd_apply) (auto simp: fun_eq_iff)
qed simp

lemma flush_lists_upt: "length (flush_lists [0..<n] f) = length (by_prio n f)"
proof (induction n)
  case (Suc n)
  have "flush_lists (xs @ [n]) f = flush_lists xs f @ f n" for xs by (induction xs) auto
  with Suc show ?case by simp
qed simp

section \<open>Properties\<close>

text \<open>
  C11: taking frames out of a well-formed queue yields every queued frame exactly once, by
  descending priority and in order of arrival within a priority.
\<close>

theorem frame_queue_drain_order:
  assumes "frame_queue_inv q" "unat (qcnt q) \<le> n"
  shows "fst (drain aicwf_frame_dequeue n q) = by_prio (unat (num_prio q)) (queuelist q)"
  using fq.drain_all assms by (simp add: frame_queue_inv_def)

definition w_queue :: "nat frame_queue" where
  "w_queue = snd (aicwf_frame_enq 1 30 (snd (aicwf_frame_enq 3 20 (snd (aicwf_frame_enq 1 10 (aicwf_frame_queue_init 8 4))))))"

lemma w_queue_inv: "frame_queue_inv w_queue" "unat (num_prio w_queue) = 8" "qcnt w_queue = 3"
proof -
  have "frame_queue_inv w_queue \<and> unat (num_prio w_queue) = 8"
  proof -
    let ?q0 = "aicwf_frame_queue_init 8 4 :: nat frame_queue"
    let ?q1 = "snd (aicwf_frame_enq 1 10 ?q0)"
    let ?q2 = "snd (aicwf_frame_enq 3 20 ?q1)"
    have q0: "frame_queue_inv ?q0" "num_prio ?q0 = 8" by (rule frame_queue_inv_init) (simp_all add: aicwf_frame_queue_init_def)
    have e1: "aicwf_frame_enq 1 10 ?q0 = (True, ?q1)" by (simp add: aicwf_frame_enq_def aicwf_frame_queue_init_def)
    have q1: "frame_queue_inv ?q1" "num_prio ?q1 = 8" using inv_enq [OF q0(1) _ e1] q0 by auto
    have e2: "aicwf_frame_enq 3 20 ?q1 = (True, ?q2)"
      by (simp add: aicwf_frame_enq_def aicwf_frame_queue_init_def aicwf_frame_queue_penq_def)
    have q2: "frame_queue_inv ?q2" "num_prio ?q2 = 8" using inv_enq [OF q1(1) _ e2] q1 by auto
    have e3: "aicwf_frame_enq 1 30 ?q2 = (True, w_queue)"
      by (simp add: w_queue_def aicwf_frame_enq_def aicwf_frame_queue_init_def aicwf_frame_queue_penq_def)
    show ?thesis using inv_enq [OF q2(1) _ e3] q2 by auto
  qed
  then show "frame_queue_inv w_queue" "unat (num_prio w_queue) = 8" by auto
  show "qcnt w_queue = 3" by code_simp
qed

theorem frame_queue_drain_order_witness: "fst (drain aicwf_frame_dequeue 5 w_queue) = [20, 10, 30]"
proof -
  have "by_prio 8 (queuelist w_queue) = [20, 10, 30]" by code_simp
  then show ?thesis using frame_queue_drain_order [OF w_queue_inv(1), of 5] w_queue_inv by simp
qed

text \<open>
  A frame is accepted exactly when fewer than qmax frames are queued in total; an accepted
  frame is appended to the list of its priority and nothing else changes, a refused one changes
  nothing, and the queue stays well formed.
\<close>

theorem frame_enq_bounded:
  assumes "frame_queue_inv q" "i < unat (num_prio q)" "aicwf_frame_enq i p q = (ok, q')"
  shows "ok = (unat (qcnt q) < unat (qmax q)) \<and> frame_queue_inv q' \<and>
    queuelist q' = (if ok then (queuelist q)(i := queuelist q i @ [p]) else queuelist q)"
proof (cases ok)
  case True
  then show ?thesis using inv_enq [of q i p q'] enq_accepts_iff [OF assms(1,2), of p] assms by simp
next
  case False
  then have "q' = q" using assms(3) by (simp add: aicwf_frame_enq_def split: if_splits)
  then show ?thesis using False enq_accepts_iff [OF assms(1,2), of p] assms by simp
qed

theorem frame_enq_bounded_witness:
  "fst (aicwf_frame_enq 7 40 w_queue) \<and> frame_queue_inv (snd (aicwf_frame_enq 7 40 w_queue))"
proof -
  have "unat (qcnt w_queue) < unat (qmax w_queue)" by code_simp
  moreover have "7 < unat (num_prio w_queue)" using w_queue_inv(2) by simp
  ultimately show ?thesis
    using frame_enq_bounded [OF w_queue_inv(1) _ prod.collapse [symmetric], of 7 40] by blast
qed

text \<open>
  Flushing frees every queued frame exactly once and leaves a well-formed empty queue.
\<close>

theorem frame_queue_flush_frees_all:
  assumes "frame_queue_inv q" "aicwf_frame_queue_flush q = (freed, q')"
  shows "freed = flush_lists [0..<unat (num_prio q)] (queuelist q) \<and> length freed = unat (qcnt q) \<and>
    frame_queue_inv q' \<and> qcnt q' = 0 \<and> aicwf_is_framequeue_empty q'"
proof -
  have f: "freed = flush_lists [0..<unat (num_prio q)] (queuelist q)"
    and q': "q' = q\<lparr>queuelist := (\<lambda>j. if j \<in> set [0..<unat (num_prio q)] then [] else queuelist q j),
        qcnt := qcnt q - word_of_nat (length (flush_lists [0..<unat (num_prio q)] (queuelist q)))\<rparr>"
    using assms(2) unfolding aicwf_frame_queue_flush_def flush_fold [OF distinct_upt] by auto
  have l: "length freed = unat (qcnt q)" using assms(1) by (simp add: f flush_lists_upt frame_queue_inv_def)
  then have "qcnt q' = 0" by (simp add: q' f)
  moreover have "frame_queue_inv q'" using assms(1) \<open>qcnt q' = 0\<close> by (auto simp: frame_queue_inv_def q' by_prio_Nil)
  ultimately show ?thesis using f l is_empty_iff by blast
qed

theorem frame_queue_flush_frees_all_witness: "fst (aicwf_frame_queue_flush w_queue) = [10, 30, 20]"
proof -
  have "flush_lists [0..<8] (queuelist w_queue) = [10, 30, 20]" by code_simp
  then show ?thesis
    using frame_queue_flush_frees_all [OF w_queue_inv(1), of "fst (aicwf_frame_queue_flush w_queue)" "snd (aicwf_frame_queue_flush w_queue)"]
      w_queue_inv(2) by simp
qed

end
