(* ===== verification/Rx_Frames.thy ===== *)
theory Rx_Frames
  imports Frame_Queue
begin

text \<open>
  The receive thread's demultiplexer, \<open>aicwf_process_rxframes\<close> of aicwf\_txrxif.c (SDIO branch): it
  empties the receive queue and cuts each buffer read from the bus into the packets the firmware
  has packed into it.  A buffer is the list of its \<open>skb->len\<close> bytes; a read past them is
  \<open>Out_Of_Bounds\<close>.  The loop over a buffer need not end, so that it is an option-valued function:
  None is a thread that never returns.
\<close>

section \<open>Constants\<close>

definition SDIO_TYPE_CFG :: u8 where [simp]: "SDIO_TYPE_CFG = 0x10"
definition SDIO_TYPE_CFG_CMD_RSP :: u8 where [simp]: "SDIO_TYPE_CFG_CMD_RSP = 0x11"
definition SDIO_TYPE_CFG_DATA_CFM :: u8 where [simp]: "SDIO_TYPE_CFG_DATA_CFM = 0x12"
definition SDIO_TYPE_CFG_PRINT :: u8 where [simp]: "SDIO_TYPE_CFG_PRINT = 0x13"
definition RX_HWHRD_LEN :: u16 where [simp]: "RX_HWHRD_LEN = 60"
definition RX_ALIGNMENT :: nat where [simp]: "RX_ALIGNMENT = 4"

section \<open>One packet\<close>

text \<open>What a packet is handed to: the data path, the message dispatcher, the transmit confirmation
  handler, the firmware's print, or nobody because no memory was left for a copy.\<close>

datatype rx_event = Ev_Data "u8 list" | Ev_Msg "u8 list" | Ev_Cfm "u8 list" | Ev_Print "u8 list" | Ev_Drop

text \<open>\<open>skb_pull\<close> of the kernel: no effect when fewer bytes are left.\<close>

definition skb_pull :: "nat \<Rightarrow> u8 list \<Rightarrow> u8 list" where
  "skb_pull n d = (if n > length d then d else drop n d)"

definition rx_pkt_len :: "u8 list \<Rightarrow> u16" where
  "rx_pkt_len d = ucast (d ! 0) OR push_bit 8 (ucast (d ! 1))"

definition aicwf_another_ptk :: "u8 list \<Rightarrow> bool outcome" where
  "aicwf_another_ptk d =
     (if length d = 0 then Inr False
      else if length d < 2 then Inl Out_Of_Bounds
      else Inr (rx_pkt_len d \<noteq> 0))"

definition rx_adjust :: "u16 \<Rightarrow> u16" where
  "rx_adjust n = (if n AND (word_of_nat RX_ALIGNMENT - 1) \<noteq> 0
                  then word_of_nat ((unat n + (RX_ALIGNMENT - 1)) div RX_ALIGNMENT * RX_ALIGNMENT) else n)"

text \<open>
  One round of the inner loop: \<open>mem\<close> says whether the allocation of the copy succeeds, \<open>up\<close>
  whether the bus is up.  A None for the rest is the error return.
\<close>

definition rx_packet :: "bool \<Rightarrow> bool \<Rightarrow> u8 list \<Rightarrow> (rx_event list \<times> u8 list option) outcome" where
  "rx_packet mem up d =
     (if length d < 3 then Inl Out_Of_Bounds
      else if d ! 2 AND SDIO_TYPE_CFG \<noteq> SDIO_TYPE_CFG
      then let aggr_len = rx_pkt_len d + RX_HWHRD_LEN; adjust_len = rx_adjust aggr_len
           in if \<not> mem then Inr ([Ev_Drop], Some (skb_pull (unat adjust_len) d))
              else if unat aggr_len > length d then Inl Out_Of_Bounds
              else Inr ([Ev_Data (take (unat aggr_len) d)], Some (skb_pull (unat adjust_len) d))
      else let aggr_len = rx_pkt_len d; adjust_len = rx_adjust aggr_len; msg = drop 4 (take (unat aggr_len + 4) d);
               ty = d ! 2 AND 0x7f
           in if \<not> mem then Inr ([], None)
              else if unat aggr_len + 4 > length d then Inl Out_Of_Bounds
              else Inr ((if ty = SDIO_TYPE_CFG_CMD_RSP \<and> up then [Ev_Msg msg] else [])
                      @ (if ty = SDIO_TYPE_CFG_DATA_CFM then [Ev_Cfm msg] else [])
                      @ (if ty = SDIO_TYPE_CFG_PRINT then [Ev_Print msg] else []),
                      Some (skb_pull (unat adjust_len + 4) d)))"

section \<open>The loops\<close>

datatype rx_end = Rx_Done | Rx_No_Mem | Rx_Fault fault

text \<open>
  The inner loop on one buffer; \<open>mem k\<close> is the outcome of the \<open>k\<close>-th allocation.  The result is
  what was delivered, how the loop ended and the index of the next allocation.
\<close>

partial_function (option) rx_loop ::
  "(nat \<Rightarrow> bool) \<Rightarrow> bool \<Rightarrow> nat \<Rightarrow> u8 list \<Rightarrow> (rx_event list \<times> rx_end \<times> nat) option" where
  [code]: "rx_loop mem up k d =
     (case aicwf_another_ptk d of
        Inl f \<Rightarrow> Some ([], Rx_Fault f, k)
      | Inr b \<Rightarrow>
          if \<not> b then Some ([], Rx_Done, k)
          else (case rx_packet (mem k) up d of
                  Inl f \<Rightarrow> Some ([], Rx_Fault f, Suc k)
                | Inr (evs, r) \<Rightarrow>
                    (case r of
                       None \<Rightarrow> Some (evs, Rx_No_Mem, Suc k)
                     | Some d' \<Rightarrow> Option.bind (rx_loop mem up (Suc k) d')
                         (\<lambda>(evs', e, k'). Some (evs @ evs', e, k')))))"

text \<open>
  \<open>aicwf_process_rxframes\<close>: the return value, what was delivered, the queue and the counter
  \<open>rx_cnt\<close>.  A fault in a buffer ends the run; it is reported in place of the return value.
\<close>

abbreviation "EBADE \<equiv> (52 :: int)"

partial_function (option) aicwf_process_rxframes ::
  "(nat \<Rightarrow> bool) \<Rightarrow> bool \<Rightarrow> nat \<Rightarrow> u8 list frame_queue \<Rightarrow> int \<Rightarrow>
     (int outcome \<times> rx_event list \<times> u8 list frame_queue \<times> int) option" where
  [code]: "aicwf_process_rxframes mem up k q rx_cnt =
     (if aicwf_is_framequeue_empty q then Some (Inr 0, [], q, rx_cnt)
      else case aicwf_frame_dequeue q of
        (None, q') \<Rightarrow> Some (Inr 0, [], q', rx_cnt)
      | (Some skb, q') \<Rightarrow>
          Option.bind (rx_loop mem up k skb)
            (\<lambda>(evs, e, k'). case e of
               Rx_Fault f \<Rightarrow> Some (Inl f, evs, q', rx_cnt)
             | Rx_No_Mem \<Rightarrow> Some (Inr (- EBADE), evs, q', rx_cnt)
             | Rx_Done \<Rightarrow> Option.bind (aicwf_process_rxframes mem up k' q' (rx_cnt - 1))
                 (\<lambda>(r, evs', q'', c). Some (r, evs @ evs', q'', c))))"

section \<open>Packing\<close>

text \<open>
  A packet as the firmware writes it: a length, a type and a body.  \<open>rx_wf\<close>
  says what its bytes look like, \<open>rx_pack\<close> pads it to the alignment, and \<open>rx_events\<close> is what the host
  should deliver for it.
\<close>

definition rx_is_cfg :: "u8 list \<Rightarrow> bool" where
  "rx_is_cfg b \<longleftrightarrow> b ! 2 AND SDIO_TYPE_CFG = SDIO_TYPE_CFG"

definition rx_wf :: "u8 list \<Rightarrow> bool" where
  "rx_wf b \<longleftrightarrow> rx_pkt_len b \<noteq> 0 \<and> unat (rx_pkt_len b) + 64 < 65536 \<and>
     length b = unat (rx_pkt_len b) + (if rx_is_cfg b then 4 else 60)"

definition rx_pack :: "u8 list \<Rightarrow> u8 list" where
  "rx_pack b = b @ replicate ((4 - length b mod 4) mod 4) 0"

definition rx_events :: "bool \<Rightarrow> u8 list \<Rightarrow> rx_event list" where
  "rx_events up b =
     (if rx_is_cfg b
      then (if b ! 2 AND 0x7f = SDIO_TYPE_CFG_CMD_RSP \<and> up then [Ev_Msg (drop 4 b)] else [])
         @ (if b ! 2 AND 0x7f = SDIO_TYPE_CFG_DATA_CFM then [Ev_Cfm (drop 4 b)] else [])
         @ (if b ! 2 AND 0x7f = SDIO_TYPE_CFG_PRINT then [Ev_Print (drop 4 b)] else [])
      else [Ev_Data b])"

section \<open>Lemmas\<close>

lemma and_3_mod: "unat (n AND 3 :: u16) = unat n mod 4"
proof -
  have "n AND 3 = take_bit 2 n" by (simp add: take_bit_eq_mask mask_eq_exp_minus_1)
  then show ?thesis by (simp add: take_bit_eq_mod unat_mod)
qed

lemma rx_adjust_unat:
  assumes "unat n + 3 < 65536"
  shows "unat (rx_adjust n) = (unat n + 3) div 4 * 4"
proof (cases "n AND 3 = 0")
  case True
  then have "unat n mod 4 = 0" using and_3_mod [of n] by simp
  then have "(unat n + 3) div 4 * 4 = unat n" by presburger
  with True show ?thesis by (simp add: rx_adjust_def)
next
  case False
  have "(unat n + 3) div 4 * 4 < 65536" using assms by linarith
  from unat_word_of_nat_small [OF this] False show ?thesis by (simp add: rx_adjust_def)
qed

lemma pad_length: "n + (4 - n mod 4) mod 4 = (n + 3) div 4 * 4" for n :: nat
proof -
  obtain q r where n: "n = 4 * q + r" and r: "r < 4"
    by (metis mod_div_mult_eq mod_less_divisor mult.commute zero_less_numeral add.commute)
  have m: "n mod 4 = r" using n r by simp
  from r have "r = 0 \<or> r = 1 \<or> r = 2 \<or> r = 3" by linarith
  then show ?thesis unfolding m by (elim disjE) (simp_all add: n)
qed

lemma rx_wf_length: "rx_wf b \<Longrightarrow> 4 < length b"
proof -
  assume b: "rx_wf b"
  then have "0 < unat (rx_pkt_len b)" by (simp add: rx_wf_def unat_gt_0)
  with b show ?thesis by (simp add: rx_wf_def split: if_splits)
qed

lemma rx_pack_nth: "rx_wf b \<Longrightarrow> i < 4 \<Longrightarrow> (rx_pack b @ r) ! i = b ! i"
  using rx_wf_length [of b] by (simp add: rx_pack_def nth_append)

lemma rx_pack_pkt_len: "rx_wf b \<Longrightarrow> rx_pkt_len (rx_pack b @ r) = rx_pkt_len b"
  by (simp add: rx_pkt_len_def rx_pack_nth)

lemma rx_pack_length: "length (rx_pack b) = (length b + 3) div 4 * 4"
  by (simp add: rx_pack_def pad_length)

lemma skb_pull_append: "length a = n \<Longrightarrow> skb_pull n (a @ r) = r"
  by (simp add: skb_pull_def)

lemma another_ptk_pack: "rx_wf b \<Longrightarrow> aicwf_another_ptk (rx_pack b @ r) = Inr True"
proof -
  assume b: "rx_wf b"
  then have "2 \<le> length (rx_pack b @ r)" using rx_wf_length [of b] by (simp add: rx_pack_def)
  moreover have "rx_pkt_len b \<noteq> 0" using b by (simp add: rx_wf_def)
  ultimately show ?thesis unfolding aicwf_another_ptk_def rx_pack_pkt_len [OF b] by auto
qed

lemma rx_packet_pack:
  assumes b: "rx_wf b"
  shows "rx_packet True up (rx_pack b @ r) = Inr (rx_events up b, Some r)"
proof (cases "rx_is_cfg b")
  case True
  then have l: "length b = unat (rx_pkt_len b) + 4" "unat (rx_pkt_len b) + 3 < 65536" using b by (auto simp: rx_wf_def)
  have "length (rx_pack b) = unat (rx_adjust (rx_pkt_len b)) + 4"
  proof -
    have "(unat (rx_pkt_len b) + 4 + 3) div 4 = (unat (rx_pkt_len b) + 3) div 4 + 1" by presburger
    then show ?thesis using l by (simp add: rx_pack_length rx_adjust_unat del: add_2_eq_Suc')
  qed
  then have "skb_pull (unat (rx_adjust (rx_pkt_len b)) + 4) (rx_pack b @ r) = r" by (rule skb_pull_append)
  moreover have "take (unat (rx_pkt_len b) + 4) (rx_pack b @ r) = b" using l by (simp add: rx_pack_def)
  moreover have "unat (rx_pkt_len b) + 4 \<le> length (rx_pack b @ r)" "\<not> length (rx_pack b @ r) < 3"
    using l by (simp_all add: rx_pack_def)
  ultimately show ?thesis
    using True rx_pack_nth [OF b, of 2 r]
    by (simp add: rx_packet_def rx_events_def rx_is_cfg_def rx_pack_pkt_len [OF b] Let_def del: take_append length_append)
next
  case False
  then have l: "length b = unat (rx_pkt_len b) + 60" "unat (rx_pkt_len b) + 64 < 65536" using b by (auto simp: rx_wf_def)
  have a: "unat (rx_pkt_len b + RX_HWHRD_LEN) = length b"
    using l by (simp add: unat_word_ariths)
  have "length (rx_pack b) = unat (rx_adjust (rx_pkt_len b + RX_HWHRD_LEN))"
    using l a by (subst rx_adjust_unat) (simp_all add: rx_pack_length)
  then have "skb_pull (unat (rx_adjust (rx_pkt_len b + RX_HWHRD_LEN))) (rx_pack b @ r) = r" by (rule skb_pull_append)
  moreover have "take (length b) (rx_pack b @ r) = b" by (simp add: rx_pack_def)
  moreover have "length b \<le> length (rx_pack b @ r)" "\<not> length (rx_pack b @ r) < 3"
    using rx_wf_length [OF b] by (simp_all add: rx_pack_def)
  ultimately show ?thesis
    using False rx_pack_nth [OF b, of 2 r] a
    by (simp add: rx_packet_def rx_events_def rx_is_cfg_def rx_pack_pkt_len [OF b] Let_def)
qed

definition rx_trailer :: "u8 list \<Rightarrow> bool" where
  "rx_trailer z \<longleftrightarrow> z = [] \<or> (\<exists>r. z = 0 # 0 # r)"

lemma another_ptk_trailer: "rx_trailer z \<Longrightarrow> aicwf_another_ptk z = Inr False"
  by (auto simp: rx_trailer_def aicwf_another_ptk_def rx_pkt_len_def)

lemma rx_loop_packed:
  assumes "\<forall>b \<in> set bs. rx_wf b" "rx_trailer z"
  shows "rx_loop (\<lambda>_. True) up k (concat (map rx_pack bs) @ z) = Some (concat (map (rx_events up) bs), Rx_Done, k + length bs)"
  using assms(1)
proof (induction bs arbitrary: k)
  case Nil
  then show ?case using assms(2) by (subst rx_loop.simps) (simp add: another_ptk_trailer)
next
  case (Cons b bs)
  then show ?case
    by (subst rx_loop.simps) (simp add: another_ptk_pack rx_packet_pack)
qed

lemma process_packed:
  assumes "frame_queue_inv q" "\<forall>skb \<in> set (by_prio (unat (num_prio q)) (queuelist q)). \<exists>bs z.
      skb = concat (map rx_pack bs) @ z \<and> (\<forall>b \<in> set bs. rx_wf b) \<and> rx_trailer z"
    and "skbs = by_prio (unat (num_prio q)) (queuelist q)"
  shows "\<exists>evs q'. aicwf_process_rxframes (\<lambda>_. True) up k q c = Some (Inr 0, concat evs, q', c - int (length skbs)) \<and>
    list_all2 (\<lambda>skb ev. \<exists>bs z. skb = concat (map rx_pack bs) @ z \<and> rx_trailer z \<and> (\<forall>b \<in> set bs. rx_wf b) \<and>
       ev = concat (map (rx_events up) bs)) skbs evs \<and> frame_queue_inv q' \<and> qcnt q' = 0"
  using assms
proof (induction skbs arbitrary: q k c)
  case Nil
  then have "qcnt q = 0" by (simp add: frame_queue_inv_def unat_eq_zero)
  with Nil show ?case
    by (intro exI [of _ "[]"] exI [of _ q]) (subst aicwf_process_rxframes.simps, simp add: is_empty_iff)
next
  case (Cons skb skbs)
  then have n0: "qcnt q \<noteq> 0" by (auto simp: frame_queue_inv_def unat_eq_zero)
  obtain r q1 where d: "aicwf_frame_dequeue q = (r, q1)" by (cases "aicwf_frame_dequeue q")
  have "r \<noteq> None"
    using deq_empty [OF Cons.prems(1)] d Cons.prems(3) by_prio_Nil [of "unat (num_prio q)" "queuelist q"] by auto
  then obtain p where d: "aicwf_frame_dequeue q = (Some p, q1)" using d by auto
  have q1: "frame_queue_inv q1" "num_prio q1 = num_prio q" using inv_deq [OF Cons.prems(1) d] by auto
  have p: "p = skb" "skbs = by_prio (unat (num_prio q1)) (queuelist q1)"
    using fq.deq_by_prio [OF Cons.prems(1) d] Cons.prems(3) by auto
  obtain bs z where bz: "skb = concat (map rx_pack bs) @ z" "\<forall>b \<in> set bs. rx_wf b" "rx_trailer z"
    using Cons.prems(2,3) by (metis list.set_intros(1))
  note loop = rx_loop_packed [OF bz(2,3), of up k]
  have "\<forall>skb \<in> set (by_prio (unat (num_prio q1)) (queuelist q1)). \<exists>bs z.
      skb = concat (map rx_pack bs) @ z \<and> (\<forall>b \<in> set bs. rx_wf b) \<and> rx_trailer z"
    using Cons.prems(2,3) p by (metis list.set_intros(2))
  from Cons.IH [OF q1(1) this p(2), of "k + length bs" "c - 1"] obtain evs q' where
    IH: "aicwf_process_rxframes (\<lambda>_. True) up (k + length bs) q1 (c - 1) = Some (Inr 0, concat evs, q', c - 1 - int (length skbs))"
    "list_all2 (\<lambda>skb ev. \<exists>bs z. skb = concat (map rx_pack bs) @ z \<and> rx_trailer z \<and> (\<forall>b \<in> set bs. rx_wf b) \<and>
       ev = concat (map (rx_events up) bs)) skbs evs" "frame_queue_inv q'" "qcnt q' = 0" by blast
  have "aicwf_process_rxframes (\<lambda>_. True) up k q c =
      Some (Inr 0, concat (concat (map (rx_events up) bs) # evs), q', c - int (length (skb # skbs)))"
    using n0 is_empty_iff [OF Cons.prems(1)] d p(1) bz(1) loop IH(1)
    by (subst aicwf_process_rxframes.simps) simp
  moreover have "list_all2 (\<lambda>skb ev. \<exists>bs z. skb = concat (map rx_pack bs) @ z \<and> rx_trailer z \<and> (\<forall>b \<in> set bs. rx_wf b) \<and>
       ev = concat (map (rx_events up) bs)) (skb # skbs) (concat (map (rx_events up) bs) # evs)"
    using IH(2) bz by auto
  ultimately show ?case using IH(3,4) by blast
qed

lemma rx_loop_stuck:
  assumes "aicwf_another_ptk d = Inr True" "\<And>k. rx_packet (mem k) up d = Inr (evs, Some d)"
  shows "rx_loop mem up k d = None"
proof (rule ccontr)
  assume "rx_loop mem up k d \<noteq> None"
  then obtain y where y: "rx_loop mem up k d = Some y" by blast
  have "\<not> (aicwf_another_ptk d = Inr True \<and> (\<forall>k. rx_packet (mem k) up d = Inr (evs, Some d)))"
  proof (rule rx_loop.raw_induct [where P = "\<lambda>mem up k d y. \<not> (aicwf_another_ptk d = Inr True \<and>
      (\<forall>k. rx_packet (mem k) up d = Inr (evs, Some d)))", OF _ y])
    fix f :: "(nat \<Rightarrow> bool) \<Rightarrow> bool \<Rightarrow> nat \<Rightarrow> u8 list \<Rightarrow> (rx_event list \<times> rx_end \<times> nat) option"
      and mem :: "nat \<Rightarrow> bool" and up k d y
    assume IH: "\<And>mem up k d y. f mem up k d = Some y \<Longrightarrow> \<not> (aicwf_another_ptk d = Inr True \<and>
        (\<forall>k. rx_packet (mem k) up d = Inr (evs, Some d)))"
      and eq: "(case aicwf_another_ptk d of Inl f \<Rightarrow> Some ([], Rx_Fault f, k)
        | Inr b \<Rightarrow> if \<not> b then Some ([], Rx_Done, k)
           else case rx_packet (mem k) up d of Inl f \<Rightarrow> Some ([], Rx_Fault f, Suc k)
             | Inr (evs, r) \<Rightarrow> (case r of None \<Rightarrow> Some (evs, Rx_No_Mem, Suc k)
                 | Some d' \<Rightarrow> Option.bind (f mem up (Suc k) d') (\<lambda>(evs', e, k'). Some (evs @ evs', e, k')))) = Some y"
    show "\<not> (aicwf_another_ptk d = Inr True \<and> (\<forall>k. rx_packet (mem k) up d = Inr (evs, Some d)))"
    proof
      assume s: "aicwf_another_ptk d = Inr True \<and> (\<forall>k. rx_packet (mem k) up d = Inr (evs, Some d))"
      with eq have "Option.bind (f mem up (Suc k) d) (\<lambda>(evs', e, k'). Some (evs @ evs', e, k')) = Some y" by simp
      then obtain z where "f mem up (Suc k) d = Some z" by (cases "f mem up (Suc k) d") auto
      with IH s show False by blast
    qed
  qed
  with assms show False by blast
qed

section \<open>Properties\<close>

text \<open>
  The demultiplexer inverts the packing.  A buffer of well-formed packets, each padded to four
  bytes, with a zero length or nothing behind them, is delivered packet by packet in order, and the
  loop returns.
\<close>

theorem rx_loop_unpacks:
  assumes "\<forall>b \<in> set bs. rx_wf b" "rx_trailer z"
  shows "rx_loop (\<lambda>_. True) up k (concat (map rx_pack bs) @ z) =
    Some (concat (map (rx_events up) bs), Rx_Done, k + length bs)"
  using assms by (rule rx_loop_packed)

definition w_cfg :: "u8 list" where "w_cfg = [5, 0, 0x11, 0, 1, 2, 3, 4, 5]"
definition w_data :: "u8 list" where "w_data = [2, 0, 0, 0] @ replicate 58 7"

lemma w_rx_wf: "rx_wf w_cfg" "rx_wf w_data"
  by (simp_all add: rx_wf_def rx_pkt_len_def rx_is_cfg_def w_cfg_def w_data_def)

theorem rx_loop_unpacks_witness:
  "rx_loop (\<lambda>_. True) True 0 (rx_pack w_cfg @ rx_pack w_data @ [0, 0]) = Some ([Ev_Msg [1, 2, 3, 4, 5], Ev_Data w_data], Rx_Done, 2)"
proof -
  have "concat (map (rx_events True) [w_cfg, w_data]) = [Ev_Msg [1, 2, 3, 4, 5], Ev_Data w_data]" by code_simp
  moreover have "rx_trailer [0, 0]" by (simp add: rx_trailer_def)
  ultimately show ?thesis using rx_loop_unpacks [of "[w_cfg, w_data]" "[0, 0]" True 0] w_rx_wf by simp
qed


definition w_rxq :: "u8 list frame_queue" where
  "w_rxq = snd (aicwf_rxframe_enqueue (rx_pack w_cfg) (aicwf_frame_queue_init 1 2000))"

lemma w_rxq_facts: "frame_queue_inv w_rxq" "unat (num_prio w_rxq) = 1" "queuelist w_rxq 0 = [rx_pack w_cfg]" "qcnt w_rxq = 1"
proof -
  let ?q = "aicwf_frame_queue_init 1 2000 :: u8 list frame_queue"
  have "frame_queue_inv ?q" by (rule frame_queue_inv_init) simp_all
  moreover have "aicwf_frame_enq 0 (rx_pack w_cfg) ?q = (True, w_rxq)"
    by (simp add: w_rxq_def aicwf_rxframe_enqueue_def aicwf_frame_enq_def aicwf_frame_queue_init_def)
  ultimately have "frame_queue_inv w_rxq \<and> num_prio w_rxq = num_prio ?q \<and> queuelist w_rxq = (queuelist ?q)(0 := queuelist ?q 0 @ [rx_pack w_cfg])"
    by (intro inv_enq) (simp_all add: aicwf_frame_queue_init_def)
  then show "frame_queue_inv w_rxq" "unat (num_prio w_rxq) = 1" "queuelist w_rxq 0 = [rx_pack w_cfg]"
    by (simp_all add: aicwf_frame_queue_init_def)
  show "qcnt w_rxq = 1"
    by (simp add: w_rxq_def aicwf_rxframe_enqueue_def aicwf_frame_enq_def aicwf_frame_queue_penq_def aicwf_frame_queue_init_def)
qed




end
