(* ===== verification/Reorder.thy ===== *)
theory Reorder
  imports Aic_Prelude "HOL-Library.Multiset"
begin

text \<open>
  The receive reorder buffer of rwnx\_rx.c (with the structures of aicwf\_txrxif.h).  Received
  MSDUs are held in a pool of preallocated entries (\<open>struct recv_msdu\<close>, named by index), each
  station has eight reorder windows (\<open>struct reord_ctrl\<close>), one per traffic identifier, and a window
  holds its pending entries sorted by 12-bit sequence number.  What is handed up and what is freed
  is logged in the state (\<open>rx_up\<close>, \<open>rx_freed\<close>).  The timer and the work item are the flags
  \<open>reord_timer\<close> and \<open>reord_work\<close>.
\<close>

section \<open>Data\<close>

definition MAX_REORD_RXFRAME :: nat where "MAX_REORD_RXFRAME = 250"
definition AICWF_REORDER_WINSIZE :: u8 where [simp]: "AICWF_REORDER_WINSIZE = 64"

text \<open>The comparisons are made in \<open>int\<close>, to which the 16-bit operands are promoted.\<close>

definition SN_LESS :: "u16 \<Rightarrow> u16 \<Rightarrow> bool" where
  "SN_LESS a b \<longleftrightarrow> (uint a - uint b) AND 0x800 \<noteq> 0"

definition SN_EQUAL :: "u16 \<Rightarrow> u16 \<Rightarrow> bool" where
  "SN_EQUAL a b \<longleftrightarrow> a = b"

datatype iftype =
    NL80211_IFTYPE_STATION
  | NL80211_IFTYPE_P2P_CLIENT
  | NL80211_IFTYPE_AP
  | NL80211_IFTYPE_P2P_GO
  | NL80211_IFTYPE_OTHER

record recv_msdu =
  pkt :: "u8 list option"
  rx_tid :: u8
  seq_num :: u16
  forward :: bool
  is_amsdu :: bool

record reord_ctrl =
  enable :: bool
  ind_sn :: u16
  wsize_b :: u8
  reord_list :: "nat list"
  reord_timer :: bool
  reord_work :: bool

text \<open>
  \<open>struct aicwf_rx_priv\<close>: the free entries, the entries, the stations with their windows, and the
  two logs.
\<close>

record aicwf_rx_priv =
  rxframes_freequeue :: "nat list"
  recv_frames :: "nat \<Rightarrow> recv_msdu"
  stas_reord_list :: "(u8 list \<times> (nat \<Rightarrow> reord_ctrl)) list"
  rx_up :: "(u8 list \<times> bool) list"
  rx_freed :: "u8 list list"

abbreviation seq_of :: "aicwf_rx_priv \<Rightarrow> nat \<Rightarrow> u16" where
  "seq_of s i \<equiv> seq_num (recv_frames s i)"

section \<open>The pool\<close>

definition aicwf_rxframe_queue_init :: "nat \<Rightarrow> nat list" where
  "aicwf_rxframe_queue_init qsize = fold (\<lambda>i q. i # q) [0..<qsize] []"

definition reord_rxframe_free :: "nat \<Rightarrow> aicwf_rx_priv \<Rightarrow> aicwf_rx_priv" where
  "reord_rxframe_free i s = s\<lparr>rxframes_freequeue := i # rxframes_freequeue s\<rparr>"

definition reord_rxframe_alloc :: "aicwf_rx_priv \<Rightarrow> nat option \<times> aicwf_rx_priv" where
  "reord_rxframe_alloc s =
     (case rxframes_freequeue s of [] \<Rightarrow> (None, s) | i # q \<Rightarrow> (Some i, s\<lparr>rxframes_freequeue := q\<rparr>))"

definition zero_msdu :: recv_msdu where
  "zero_msdu = \<lparr>pkt = None, rx_tid = 0, seq_num = 0, forward = False, is_amsdu = False\<rparr>"

text \<open>The reorder part of \<open>aicwf_rx_init\<close>.\<close>

definition aicwf_rx_init :: aicwf_rx_priv where
  "aicwf_rx_init = \<lparr>rxframes_freequeue = aicwf_rxframe_queue_init MAX_REORD_RXFRAME, recv_frames = (\<lambda>_. zero_msdu),
     stas_reord_list = [], rx_up = [], rx_freed = []\<rparr>"

section \<open>The window\<close>

definition reord_ctrl_init :: reord_ctrl where
  "reord_ctrl_init = \<lparr>enable = True, ind_sn = 0xffff, wsize_b = AICWF_REORDER_WINSIZE, reord_list = [],
     reord_timer = False, reord_work = False\<rparr>"

text \<open>\<open>reord_init_sta\<close>; \<open>bus_up\<close> is the bus state and \<open>mem\<close> whether the allocation succeeds.\<close>

definition reord_init_sta :: "bool \<Rightarrow> bool \<Rightarrow> u8 list \<Rightarrow> (u8 list \<times> (nat \<Rightarrow> reord_ctrl)) option" where
  "reord_init_sta bus_up mem mac = (if \<not> bus_up \<or> \<not> mem then None else Some (mac, \<lambda>_. reord_ctrl_init))"

text \<open>\<open>reord_need_check\<close>; True is the result -1, a frame older than the window.\<close>

definition reord_need_check :: "reord_ctrl \<Rightarrow> u16 \<Rightarrow> bool \<times> reord_ctrl" where
  "reord_need_check pc sn =
     (let wsize = wsize_b pc;
          wend = (ind_sn pc + ucast wsize - 1) AND 0xFFF;
          pc1 = (if ind_sn pc = 0xFFFF then pc\<lparr>ind_sn := sn\<rparr> else pc)
      in if SN_LESS sn (ind_sn pc1) then (True, pc1)
         else (False,
           if SN_EQUAL sn (ind_sn pc1) then pc1\<lparr>ind_sn := (ind_sn pc1 + 1) AND 0xFFF\<rparr>
           else if SN_LESS wend sn
           then pc1\<lparr>ind_sn := (if uint sn \<ge> uint wsize - 1 then sn - (ucast wsize - 1)
                              else 0xFFF - (ucast wsize - (sn + 1)) + 1)\<rparr>
           else pc1))"

text \<open>\<open>reord_rxframe_enqueue\<close>: the insertion point from the front; None for a duplicate.\<close>

fun reord_rxframe_enqueue :: "(nat \<Rightarrow> u16) \<Rightarrow> nat \<Rightarrow> nat list \<Rightarrow> nat list option" where
  "reord_rxframe_enqueue sq i [] = Some [i]"
| "reord_rxframe_enqueue sq i (j # js) =
     (if SN_LESS (sq j) (sq i) then map_option ((#) j) (reord_rxframe_enqueue sq i js)
      else if SN_EQUAL (sq j) (sq i) then None
      else Some (i # j # js))"

text \<open>The scan of \<open>reord_rxframes_process\<close> and the function.\<close>

fun process_scan :: "(nat \<Rightarrow> u16) \<Rightarrow> u16 \<Rightarrow> nat list \<Rightarrow> bool \<times> u16" where
  "process_scan sq sn [] = (False, sn)"
| "process_scan sq sn (j # js) =
     (if \<not> SN_LESS sn (sq j)
      then process_scan sq (if SN_EQUAL sn (sq j) then (sn + 1) AND 0xFFF else sn) js
      else (True, sn))"

definition reord_rxframes_process :: "(nat \<Rightarrow> u16) \<Rightarrow> bool \<Rightarrow> reord_ctrl \<Rightarrow> bool \<times> reord_ctrl" where
  "reord_rxframes_process sq bforced pc =
     (case reord_list pc of
        [] \<Rightarrow> (False, pc)
      | j # _ \<Rightarrow>
          (case process_scan sq (if bforced then sq j else ind_sn pc) (reord_list pc) of
             (b, sn) \<Rightarrow> (b, pc\<lparr>ind_sn := sn\<rparr>)))"

section \<open>Handing frames up\<close>

text \<open>
  \<open>reord_single_frame_ind\<close>.  A frame that is forwarded is logged with its A-MSDU flag; splitting it
  and passing it to the network stack is modelled in the theory of A-MSDUs.
\<close>

definition reord_single_frame_ind :: "nat \<Rightarrow> aicwf_rx_priv \<Rightarrow> int \<times> aicwf_rx_priv" where
  "reord_single_frame_ind i s =
     (case pkt (recv_frames s i) of
        None \<Rightarrow> (-1, s)
      | Some skb \<Rightarrow>
          let s1 = s\<lparr>recv_frames := (recv_frames s)(i := (recv_frames s i)\<lparr>pkt := None\<rparr>)\<rparr>
          in (0, reord_rxframe_free i
                (if \<not> forward (recv_frames s i) then s1\<lparr>rx_freed := rx_freed s1 @ [skb]\<rparr>
                 else s1\<lparr>rx_up := rx_up s1 @ [(skb, is_amsdu (recv_frames s i))]\<rparr>)))"

text \<open>\<open>reord_rxframes_ind\<close>: the list that is left, and the state.\<close>

fun reord_rxframes_ind :: "u16 \<Rightarrow> nat list \<Rightarrow> aicwf_rx_priv \<Rightarrow> nat list \<times> aicwf_rx_priv" where
  "reord_rxframes_ind sn [] s = ([], s)"
| "reord_rxframes_ind sn (j # js) s =
     (if \<not> SN_LESS sn (seq_of s j) then reord_rxframes_ind sn js (snd (reord_single_frame_ind j s))
      else (j # js, s))"

definition set_ctrl :: "nat \<Rightarrow> nat \<Rightarrow> reord_ctrl \<Rightarrow> aicwf_rx_priv \<Rightarrow> aicwf_rx_priv" where
  "set_ctrl k t pc s =
     s\<lparr>stas_reord_list := (stas_reord_list s)[k := (fst (stas_reord_list s ! k), (snd (stas_reord_list s ! k))(t := pc))]\<rparr>"

definition get_ctrl :: "nat \<Rightarrow> nat \<Rightarrow> aicwf_rx_priv \<Rightarrow> reord_ctrl" where
  "get_ctrl k t s = snd (stas_reord_list s ! k) t"

text \<open>Index of the station with an address.\<close>

fun sta_index :: "u8 list \<Rightarrow> (u8 list \<times> 'a) list \<Rightarrow> nat option" where
  "sta_index mac [] = None"
| "sta_index mac ((m, _) # xs) = (if mac = m then Some 0 else map_option Suc (sta_index mac xs))"

definition reord_mac :: "iftype \<Rightarrow> u8 list \<Rightarrow> u8 list option" where
  "reord_mac ty skb =
     (case ty of
        NL80211_IFTYPE_STATION \<Rightarrow> Some (take 6 skb)
      | NL80211_IFTYPE_P2P_CLIENT \<Rightarrow> Some (take 6 skb)
      | NL80211_IFTYPE_AP \<Rightarrow> Some (take 6 (drop 6 skb))
      | NL80211_IFTYPE_P2P_GO \<Rightarrow> Some (take 6 (drop 6 skb))
      | NL80211_IFTYPE_OTHER \<Rightarrow> None)"

section \<open>Receiving a frame\<close>

definition kfree_skb :: "u8 list \<Rightarrow> aicwf_rx_priv \<Rightarrow> aicwf_rx_priv" where
  "kfree_skb skb s = s\<lparr>rx_freed := rx_freed s @ [skb]\<rparr>"

text \<open>Free an entry together with its packet, as on the failure paths.\<close>

definition drop_frame :: "nat \<Rightarrow> aicwf_rx_priv \<Rightarrow> aicwf_rx_priv" where
  "drop_frame i s =
     reord_rxframe_free i
       (case pkt (recv_frames s i) of
          None \<Rightarrow> s
        | Some skb \<Rightarrow> kfree_skb skb (s\<lparr>recv_frames := (recv_frames s)(i := (recv_frames s i)\<lparr>pkt := None\<rparr>)\<rparr>))"

text \<open>
  The part of \<open>reord_process_unit\<close> after the station's lock is released, under the lock of the window \<open>t\<close> of station \<open>k\<close>, for the entry \<open>i\<close>
  that has just been filled.
\<close>

definition reord_window_unit :: "nat \<Rightarrow> nat \<Rightarrow> nat \<Rightarrow> aicwf_rx_priv \<Rightarrow> (int \<times> aicwf_rx_priv) outcome" where
  "reord_window_unit k t i s =
     (let pc = get_ctrl k t s; sn = seq_of s i; (late, pc1) = reord_need_check pc sn
      in if \<not> enable pc
         then Inr (0, set_ctrl k t (pc\<lparr>ind_sn := (sn + 1) mod 4096\<rparr>) (snd (reord_single_frame_ind i s)))
         else if late
         then (case pkt (recv_frames s i) of
                 None \<Rightarrow> Inl Null_Deref
               | Some skb \<Rightarrow>
                   if length skb \<le> 42 then Inl Out_Of_Bounds
                   else if skb ! 42 = 0x80 \<and> sn \<noteq> ind_sn pc1
                   then Inr (0, drop_frame i (set_ctrl k t pc1 s))
                   else Inr (0, snd (reord_single_frame_ind i (set_ctrl k t pc1 s))))
         else (case reord_rxframe_enqueue (seq_of s) i (reord_list pc1) of
                 None \<Rightarrow> Inr (0, drop_frame i (set_ctrl k t pc1 s))
               | Some l \<Rightarrow>
                   let (more, pc2) = reord_rxframes_process (seq_of s) False (pc1\<lparr>reord_list := l\<rparr>);
                       (l', s') = reord_rxframes_ind (ind_sn pc2) (reord_list pc2) s
                   in Inr (0, set_ctrl k t (pc2\<lparr>reord_list := l', reord_timer := more\<rparr>) s')))"

text \<open>
  The part of \<open>reord_process_unit\<close> from the EAPOL test on: find the station's window, making a
  station that is not known, and re-enabling a window that has been flushed.
\<close>

definition reord_station_unit ::
  "iftype \<Rightarrow> bool \<Rightarrow> bool \<Rightarrow> u8 list \<Rightarrow> u8 \<Rightarrow> nat \<Rightarrow> aicwf_rx_priv \<Rightarrow> (int \<times> aicwf_rx_priv) outcome" where
  "reord_station_unit vif bus_up mem skb tid i s =
     (if skb ! 12 = 0x88 \<and> skb ! 13 = 0x8e then Inr (reord_single_frame_ind i s)
      else case reord_mac vif skb of
        None \<Rightarrow> Inr (-1, kfree_skb skb s)
      | Some mac \<Rightarrow>
          (case sta_index mac (stas_reord_list s) of
             None \<Rightarrow>
               (case reord_init_sta bus_up mem mac of
                  None \<Rightarrow> Inr (-1, kfree_skb skb s)
                | Some info \<Rightarrow>
                    if unat tid \<ge> 8 then Inl Out_Of_Bounds
                    else reord_window_unit (length (stas_reord_list s)) (unat tid) i
                           (s\<lparr>stas_reord_list := stas_reord_list s @ [info]\<rparr>))
           | Some k \<Rightarrow>
               if unat tid \<ge> 8 then Inl Out_Of_Bounds
               else let pc = get_ctrl k (unat tid) s;
                        pc1 = (if \<not> enable pc then pc\<lparr>enable := True, ind_sn := 0xffff,
                                  wsize_b := AICWF_REORDER_WINSIZE\<rparr> else pc)
                    in reord_window_unit k (unat tid) i (set_ctrl k (unat tid) pc1 s)))"

text \<open>\<open>reord_process_unit\<close>.  \<open>vif\<close> is the type of the virtual interface, None for no interface.\<close>

definition reord_process_unit ::
  "iftype option \<Rightarrow> bool \<Rightarrow> bool \<Rightarrow> u8 list \<Rightarrow> u16 \<Rightarrow> u8 \<Rightarrow> bool \<Rightarrow> bool \<Rightarrow> aicwf_rx_priv \<Rightarrow> (int \<times> aicwf_rx_priv) outcome" where
  "reord_process_unit vif bus_up mem skb sn tid fwd amsdu s =
     (case vif of
        None \<Rightarrow> Inr (-1, kfree_skb skb s)
      | Some ty \<Rightarrow>
          if length skb \<le> 14 then Inr (-1, kfree_skb skb s)
          else case reord_rxframe_alloc s of
            (None, _) \<Rightarrow> Inr (-1, kfree_skb skb s)
          | (Some i, s0) \<Rightarrow>
              reord_station_unit ty bus_up mem skb tid i
                (s0\<lparr>recv_frames := (recv_frames s0)(i := \<lparr>pkt = Some skb, rx_tid = tid, seq_num = sn,
                      forward = fwd, is_amsdu = amsdu\<rparr>)\<rparr>))"

section \<open>Timeout\<close>

text \<open>\<open>reord_timeout_handler\<close>: the timer has fired and queues the work item.\<close>

definition reord_timeout_handler :: "nat \<Rightarrow> nat \<Rightarrow> aicwf_rx_priv \<Rightarrow> aicwf_rx_priv" where
  "reord_timeout_handler k t s = set_ctrl k t ((get_ctrl k t s)\<lparr>reord_timer := False, reord_work := True\<rparr>) s"

definition reord_timeout_worker :: "nat \<Rightarrow> nat \<Rightarrow> aicwf_rx_priv \<Rightarrow> aicwf_rx_priv" where
  "reord_timeout_worker k t s =
     (let (more, pc) = reord_rxframes_process (seq_of s) True ((get_ctrl k t s)\<lparr>reord_work := False\<rparr>);
          (l, s') = reord_rxframes_ind (ind_sn pc) (reord_list pc) s
      in set_ctrl k t (pc\<lparr>reord_list := l, reord_timer := (if more then True else reord_timer pc)\<rparr>) s')"

section \<open>Flush and removal\<close>

definition reord_flush_tid :: "iftype \<Rightarrow> u8 list \<Rightarrow> u8 \<Rightarrow> aicwf_rx_priv \<Rightarrow> (int \<times> aicwf_rx_priv) outcome" where
  "reord_flush_tid vif skb tid s =
     (case reord_mac vif skb of
        None \<Rightarrow> Inr (-1, kfree_skb skb s)
      | Some mac \<Rightarrow>
          (case sta_index mac (stas_reord_list s) of
             None \<Rightarrow> Inr (0, s)
           | Some k \<Rightarrow>
               if unat tid \<ge> 8 then Inl Out_Of_Bounds
               else let pc = get_ctrl k (unat tid) s
                    in if \<not> enable pc then Inr (0, s)
                       else Inr (0, set_ctrl k (unat tid)
                              (pc\<lparr>reord_list := [], enable := False, reord_timer := False, reord_work := False\<rparr>)
                              (fold (\<lambda>i t. snd (reord_single_frame_ind i t)) (reord_list pc) s))))"

text \<open>One window of \<open>reord_deinit_sta\<close>, then the function, for the station at index \<open>k\<close>.\<close>

definition reord_deinit_ctrl :: "reord_ctrl \<Rightarrow> aicwf_rx_priv \<Rightarrow> aicwf_rx_priv" where
  "reord_deinit_ctrl pc s = fold drop_frame (reord_list pc) s"

definition reord_deinit_sta :: "nat \<Rightarrow> aicwf_rx_priv \<Rightarrow> aicwf_rx_priv" where
  "reord_deinit_sta k s =
     (let s1 = fold (\<lambda>t u. reord_deinit_ctrl (get_ctrl k t s) u) [0..<8] s
      in s1\<lparr>stas_reord_list := take k (stas_reord_list s1) @ drop (Suc k) (stas_reord_list s1)\<rparr>)"

section \<open>Sequence numbers\<close>

text \<open>
  Twelve-bit sequence numbers are compared relative to a base: \<open>sn_off b s\<close> is the distance from \<open>b\<close>
  up to \<open>s\<close>.  Within half of the number space \<open>SN_LESS\<close> is the order of the distances.
\<close>

definition sn_off :: "u16 \<Rightarrow> u16 \<Rightarrow> int" where
  "sn_off b s = (uint s - uint b) mod 4096"

definition sn_ok :: "u16 \<Rightarrow> bool" where
  "sn_ok s \<longleftrightarrow> uint s < 4096"

lemma and_bit_11: "(x AND 0x800 \<noteq> 0) \<longleftrightarrow> 2048 \<le> x mod 4096" for x :: int
proof -
  have "x div 2048 = (x mod 4096 + 2 * (x div 4096) * 2048) div 2048"
    by (rule arg_cong [where f = "\<lambda>y. y div 2048"]) simp
  also have "\<dots> = 2 * (x div 4096) + x mod 4096 div 2048" by (rule div_mult_self1) simp
  finally have d: "odd (x div 2048) \<longleftrightarrow> odd (x mod 4096 div 2048)" by simp
  have "x AND 0x800 \<noteq> 0 \<longleftrightarrow> bit x 11"
    by (simp add: bit_iff_and_push_bit_not_eq_0)
  also have "\<dots> \<longleftrightarrow> odd (x mod 4096 div 2048)" using d by (simp add: bit_iff_odd)
  also have "\<dots> \<longleftrightarrow> 2048 \<le> x mod 4096"
  proof (cases "2048 \<le> x mod 4096")
    case True
    moreover have "x mod 4096 < 2048 * 2" by simp
    ultimately have "x mod 4096 div 2048 = 1" by (intro int_div_pos_eq [where r = "x mod 4096 - 2048"]) auto
    with True show ?thesis by simp
  next
    case False
    then have "x mod 4096 div 2048 = 0" by (intro div_pos_pos_trivial) auto
    with False show ?thesis by simp
  qed
  finally show ?thesis .
qed

lemma SN_LESS_mod: "SN_LESS a b \<longleftrightarrow> 2048 \<le> (uint a - uint b) mod 4096"
  by (simp add: SN_LESS_def and_bit_11)

lemma sn_off_range: "0 \<le> sn_off b s" "sn_off b s < 4096"
  by (simp_all add: sn_off_def)

lemma sn_off_diff: "(uint x - uint y) mod 4096 = (sn_off b x - sn_off b y) mod 4096"
  by (simp add: sn_off_def mod_diff_eq)

lemma SN_LESS_off:
  assumes "\<bar>sn_off b x - sn_off b y\<bar> < 2048"
  shows "SN_LESS x y \<longleftrightarrow> sn_off b x < sn_off b y"
proof -
  have "SN_LESS x y \<longleftrightarrow> 2048 \<le> (sn_off b x - sn_off b y) mod 4096"
    using sn_off_diff [of x y b] by (simp add: SN_LESS_mod)
  also have "\<dots> \<longleftrightarrow> sn_off b x < sn_off b y"
  proof (cases "sn_off b x < sn_off b y")
    case True
    have "(sn_off b x - sn_off b y) mod 4096 = (sn_off b x - sn_off b y + 4096) mod 4096" by simp
    also have "\<dots> = sn_off b x - sn_off b y + 4096"
      using True assms by (intro mod_pos_pos_trivial) auto
    finally show ?thesis using True assms by simp
  next
    case False
    then have "(sn_off b x - sn_off b y) mod 4096 = sn_off b x - sn_off b y"
      using assms by (intro mod_pos_pos_trivial) auto
    with False assms show ?thesis by simp
  qed
  finally show ?thesis .
qed

lemma SN_EQUAL_off: "sn_ok x \<Longrightarrow> sn_ok y \<Longrightarrow> SN_EQUAL x y \<longleftrightarrow> sn_off b x = sn_off b y"
proof
  assume ok: "sn_ok x" "sn_ok y" and eq: "sn_off b x = sn_off b y"
  have "(uint x - uint y) mod 4096 = 0" using sn_off_diff [of x y b] eq by simp
  then have "uint x mod 4096 = uint y mod 4096" by (simp add: mod_eq_dvd_iff mod_0_imp_dvd)
  with ok have "uint x = uint y" by (simp add: sn_ok_def)
  then show "SN_EQUAL x y" by (simp add: SN_EQUAL_def word_uint_eq_iff)
qed (simp add: SN_EQUAL_def)

lemma and_fff: "uint (x AND 0xFFF :: u16) = uint x mod 4096"
proof -
  have "x AND 0xFFF = take_bit 12 x" by (simp add: take_bit_eq_mask mask_eq_exp_minus_1)
  then show ?thesis by (simp add: take_bit_eq_mod uint_mod)
qed

lemma uint_mod_12: "uint (x + y :: u16) mod 4096 = (uint x + uint y) mod 4096"
  "uint (x - y :: u16) mod 4096 = (uint x - uint y) mod 4096"
  using mod_mod_cancel [of 4096 65536 "uint x + uint y"] mod_mod_cancel [of 4096 65536 "uint x - uint y"]
  by (simp_all add: uint_word_ariths)

lemma sn_inc: "sn_ok ((x + 1) AND 0xFFF)" "uint ((x + 1) AND 0xFFF) = (uint x + 1) mod 4096"
  by (simp_all add: sn_ok_def and_fff uint_mod_12)

lemma sn_off_inc: "sn_off b x < 4095 \<Longrightarrow> sn_off b ((x + 1) AND 0xFFF) = sn_off b x + 1"
proof -
  assume a: "sn_off b x < 4095"
  have "sn_off b ((x + 1) AND 0xFFF) = (sn_off b x + 1) mod 4096"
    unfolding sn_off_def sn_inc(2) by (simp add: mod_simps diff_add_eq [symmetric])
  also have "\<dots> = sn_off b x + 1" using a sn_off_range [of b x] by simp
  finally show ?thesis .
qed

section \<open>The window invariant\<close>

text \<open>
  A window is empty before its first frame (\<open>ind_sn\<close> is 0xffff); afterwards its entries lie one to
  63 numbers ahead of \<open>ind_sn\<close>, in ascending order.
\<close>

definition window_inv :: "(nat \<Rightarrow> u16) \<Rightarrow> reord_ctrl \<Rightarrow> bool" where
  "window_inv sq pc \<longleftrightarrow>
     wsize_b pc = AICWF_REORDER_WINSIZE \<and>
     (if ind_sn pc = 0xFFFF then reord_list pc = [] else sn_ok (ind_sn pc)) \<and>
     (\<forall>i \<in> set (reord_list pc). sn_ok (sq i) \<and> 1 \<le> sn_off (ind_sn pc) (sq i) \<and> sn_off (ind_sn pc) (sq i) \<le> 63) \<and>
     sorted_wrt (<) (map (\<lambda>i. sn_off (ind_sn pc) (sq i)) (reord_list pc))"

text \<open>The base of a window for an incoming frame: its first frame sets it.\<close>

definition window_base :: "reord_ctrl \<Rightarrow> u16 \<Rightarrow> u16" where
  "window_base pc sn = (if ind_sn pc = 0xFFFF then sn else ind_sn pc)"

definition advance :: "int \<Rightarrow> int" where
  "advance d = (if d = 0 then 1 else if 63 < d then d - 63 else 0)"

lemma sn_off_self [simp]: "sn_off b b = 0"
  by (simp add: sn_off_def)

lemma sn_off_shift: "sn_off c x = (sn_off b x - sn_off b c) mod 4096"
proof -
  have "(sn_off b x - sn_off b c) mod 4096 = ((uint x - uint b) - (uint c - uint b)) mod 4096"
    unfolding sn_off_def by (rule mod_diff_eq)
  then show ?thesis by (simp add: sn_off_def)
qed

lemma need_check_late:
  "fst (reord_need_check pc sn) \<longleftrightarrow> 2048 \<le> sn_off (window_base pc sn) sn"
  by (simp add: reord_need_check_def Let_def window_base_def SN_LESS_mod sn_off_def)

lemma wend_less:
  assumes "0 \<le> sn_off b sn" "sn_off b sn < 2048"
  shows "SN_LESS ((b + 64 - 1) AND 0xFFF) sn \<longleftrightarrow> 63 < sn_off b sn"
proof -
  have "uint ((b + 63) AND 0xFFF) = (uint b + 63) mod 4096"
    by (simp add: and_fff uint_mod_12)
  then have "sn_off b ((b + 63) AND 0xFFF) = 63" by (simp add: sn_off_def mod_simps)
  then have l: "SN_LESS ((b + 63) AND 0xFFF) sn \<longleftrightarrow> 63 < sn_off b sn"
    using assms SN_LESS_off [of b "(b + 63) AND 0xFFF" sn] by simp
  have e: "b + 64 - 1 = b + 63" by simp
  show ?thesis unfolding e by (rule l)
qed

lemma window_move:
  assumes "sn_ok sn" "sn_off b sn < 2048" "63 < sn_off b sn"
  defines "n \<equiv> (if uint sn \<ge> uint (64 :: u8) - 1 then sn - (ucast (64 :: u8) - 1)
                 else 0xFFF - (ucast (64 :: u8) - (sn + 1)) + 1 :: u16)"
  shows "sn_ok n \<and> sn_off b n = sn_off b sn - 63"
proof -
  have u: "uint sn < 4096" using assms(1) by (simp add: sn_ok_def)
  have n: "uint n = (uint sn - 63) mod 4096"
  proof (cases "63 \<le> uint sn")
    case True
    then have "uint (sn - 63) = uint sn - 63" using u by (simp add: uint_word_ariths mod_pos_pos_trivial)
    with True u show ?thesis by (simp add: n_def)
  next
    case False
    have e: "0xFFF - (64 - (sn + 1)) + 1 = sn + (4033 :: u16)" by (simp add: algebra_simps)
    have "uint n = uint (0xFFF - (64 - (sn + 1)) + 1 :: u16)" using False by (simp add: n_def)
    also have "\<dots> = uint (sn + 4033)" by (simp only: e)
    also have "\<dots> = uint sn + 4033" using False by (simp add: uint_word_ariths mod_pos_pos_trivial)
    also have "\<dots> = (uint sn - 63 + 4096) mod 4096" using False by (simp add: mod_pos_pos_trivial)
    also have "\<dots> = (uint sn - 63) mod 4096" by (rule mod_add_self2)
    finally show ?thesis .
  qed
  have "sn_off b n = (sn_off b sn - 63) mod 4096"
    unfolding sn_off_def n by (simp add: mod_simps algebra_simps)
  also have "\<dots> = sn_off b sn - 63" using assms(3) sn_off_range [of b sn] by simp
  finally show ?thesis using n by (simp add: sn_ok_def)
qed

lemma need_check_advance:
  assumes "window_inv sq pc" "sn_ok sn" "reord_need_check pc sn = (False, pc1)"
  shows "sn_ok (ind_sn pc1) \<and> sn_off (window_base pc sn) (ind_sn pc1) = advance (sn_off (window_base pc sn) sn) \<and>
    reord_list pc1 = reord_list pc \<and> wsize_b pc1 = wsize_b pc \<and> enable pc1 = enable pc \<and>
    reord_timer pc1 = reord_timer pc \<and> reord_work pc1 = reord_work pc"
proof -
  let ?b = "window_base pc sn" and ?o = "sn_off (window_base pc sn) sn"
  have b: "sn_ok ?b" and w: "wsize_b pc = 64" using assms(1,2) by (auto simp: window_inv_def window_base_def split: if_splits)
  have o: "?o < 2048" using need_check_late [of pc sn] assms(3) by simp
  consider (eq) "?o = 0" | (far) "63 < ?o" | (near) "?o \<noteq> 0" "?o \<le> 63" by linarith
  then show ?thesis
  proof cases
    case eq
    then have "SN_EQUAL sn ?b" using SN_EQUAL_off [OF assms(2) b, of ?b] by simp
    moreover from this have "sn = ?b" by (simp add: SN_EQUAL_def)
    ultimately show ?thesis
      using assms(3) o sn_off_inc [of ?b ?b] sn_inc(1) [of ?b]
      by (auto simp: reord_need_check_def Let_def window_base_def advance_def split: if_splits)
  next
    case far
    then have ne: "\<not> SN_EQUAL sn ?b" using SN_EQUAL_off [OF assms(2) b, of ?b] by simp
    then have nf: "ind_sn pc \<noteq> 0xFFFF" by (auto simp: SN_EQUAL_def window_base_def)
    then have "SN_LESS ((ind_sn pc + 64 - 1) AND 0xFFF) sn"
      using wend_less [of "ind_sn pc" sn] far o sn_off_range by (simp add: window_base_def)
    then show ?thesis
      using assms(3) ne nf far w window_move [OF assms(2) o far]
      by (auto simp: reord_need_check_def Let_def window_base_def advance_def split: if_splits)
  next
    case near
    then have ne: "\<not> SN_EQUAL sn ?b" using SN_EQUAL_off [OF assms(2) b, of ?b] by simp
    then have nf: "ind_sn pc \<noteq> 0xFFFF" by (auto simp: SN_EQUAL_def window_base_def)
    then have "\<not> SN_LESS ((ind_sn pc + 64 - 1) AND 0xFFF) sn"
      using wend_less [of "ind_sn pc" sn] near o sn_off_range by (simp add: window_base_def)
    then show ?thesis
      using assms(3) ne nf near w b
      by (auto simp: reord_need_check_def Let_def window_base_def advance_def split: if_splits)
  qed
qed

section \<open>Insertion and scan\<close>

lemma enqueue_spec:
  assumes "sorted_wrt (<) (map (\<lambda>i. sn_off b (sq i)) l)"
    and "\<forall>i \<in> set l. sn_ok (sq i) \<and> lo \<le> sn_off b (sq i) \<and> sn_off b (sq i) < lo + 2048"
    and "sn_ok (sq x)" "lo \<le> sn_off b (sq x)" "sn_off b (sq x) < lo + 2048"
  shows "case reord_rxframe_enqueue sq x l of
      None \<Rightarrow> \<exists>i \<in> set l. sq i = sq x
    | Some l' \<Rightarrow> sorted_wrt (<) (map (\<lambda>i. sn_off b (sq i)) l') \<and> mset l' = add_mset x (mset l)"
  using assms(1,2)
proof (induction l)
  case (Cons j l)
  have less: "SN_LESS (sq j) (sq x) \<longleftrightarrow> sn_off b (sq j) < sn_off b (sq x)"
    using Cons.prems assms(3-5) by (intro SN_LESS_off) auto
  have eq: "SN_EQUAL (sq j) (sq x) \<longleftrightarrow> sn_off b (sq j) = sn_off b (sq x)"
    using Cons.prems assms(3) by (intro SN_EQUAL_off) auto
  consider (lt) "sn_off b (sq j) < sn_off b (sq x)" | (eq) "sn_off b (sq j) = sn_off b (sq x)"
    | (gt) "sn_off b (sq x) < sn_off b (sq j)" by linarith
  then show ?case
  proof cases
    case lt
    show ?thesis
    proof (cases "reord_rxframe_enqueue sq x l")
      case None
      with lt less Cons show ?thesis by auto
    next
      case (Some l')
      with Cons have l': "sorted_wrt (<) (map (\<lambda>i. sn_off b (sq i)) l')" "mset l' = add_mset x (mset l)" by auto
      then have "set l' = insert x (set l)" by (metis set_mset_add_mset_insert set_mset_mset)
      with l' lt less Some Cons.prems show ?thesis by auto
    qed
  next
    case eq': eq
    then have "sq j = sq x" using eq by (simp add: SN_EQUAL_def)
    with eq' less eq show ?thesis by auto
  next
    case gt
    with less eq Cons.prems show ?thesis by auto
  qed
qed simp

lemma scan_spec:
  assumes "sorted_wrt (<) (map (\<lambda>i. sn_off b (sq i)) l)"
    and "\<forall>i \<in> set l. sn_ok (sq i) \<and> lo \<le> sn_off b (sq i) \<and> sn_off b (sq i) < lo + 2047"
    and "sn_ok sn" "lo \<le> sn_off b sn" "sn_off b sn < lo + 2048" "lo \<in> {0, 1}"
  shows "let (more, n) = process_scan sq sn l in
    sn_ok n \<and> sn_off b sn \<le> sn_off b n \<and> sn_off b n < lo + 2048 \<and>
    (\<forall>i \<in> set l. sn_off b (sq i) \<noteq> sn_off b n) \<and> more = (\<exists>i \<in> set l. sn_off b n < sn_off b (sq i)) \<and>
    (\<forall>i \<in> set l. sn_off b sn \<le> sn_off b (sq i) \<longrightarrow> sn_off b (sq i) < sn_off b n \<longrightarrow>
       (\<forall>m. sn_off b sn \<le> m \<longrightarrow> m \<le> sn_off b (sq i) \<longrightarrow> (\<exists>j \<in> set l. sn_off b (sq j) = m)))"
  using assms
proof (induction l arbitrary: sn)
  case (Cons j l)
  let ?o = "\<lambda>i. sn_off b (sq i)"
  have less: "SN_LESS sn (sq j) \<longleftrightarrow> sn_off b sn < ?o j"
    using Cons.prems by (intro SN_LESS_off) auto
  have eq: "SN_EQUAL sn (sq j) \<longleftrightarrow> sn_off b sn = ?o j"
    using Cons.prems by (intro SN_EQUAL_off) auto
  have l: "sorted_wrt (<) (map ?o l)" "\<forall>i \<in> set l. sn_ok (sq i) \<and> lo \<le> ?o i \<and> ?o i < lo + 2047" "\<forall>i \<in> set l. ?o j < ?o i"
    using Cons.prems by auto
  consider (gt) "sn_off b sn < ?o j" | (eq) "sn_off b sn = ?o j" | (lt) "?o j < sn_off b sn" by linarith
  then show ?case
  proof cases
    case gt
    with less l Cons.prems show ?thesis by auto
  next
    case eq': eq
    let ?n = "(sn + 1) AND 0xFFF"
    have n: "sn_ok ?n" "sn_off b ?n = sn_off b sn + 1"
      using sn_inc(1) sn_off_inc [of b sn] Cons.prems by auto
    have IH: "let (more, m) = process_scan sq ?n l in
      sn_ok m \<and> sn_off b ?n \<le> sn_off b m \<and> sn_off b m < lo + 2048 \<and>
      (\<forall>i \<in> set l. ?o i \<noteq> sn_off b m) \<and> more = (\<exists>i \<in> set l. sn_off b m < ?o i) \<and>
      (\<forall>i \<in> set l. sn_off b ?n \<le> ?o i \<longrightarrow> ?o i < sn_off b m \<longrightarrow>
         (\<forall>k. sn_off b ?n \<le> k \<longrightarrow> k \<le> ?o i \<longrightarrow> (\<exists>j \<in> set l. ?o j = k)))"
      using Cons.prems eq' n by (intro Cons.IH l n) auto
    obtain more m where p: "process_scan sq ?n l = (more, m)" by fastforce
    have q: "process_scan sq sn (j # l) = (more, m)" using less eq eq' p by simp
    have gap: "\<exists>j' \<in> set (j # l). ?o j' = k"
      if i: "i \<in> set (j # l)" "?o i < sn_off b m" and k: "sn_off b sn \<le> k" "k \<le> ?o i" for i k
    proof (cases "k = ?o j")
      case False
      then have "sn_off b ?n \<le> k" using k n eq' by simp
      moreover from this have "i \<in> set l" "sn_off b ?n \<le> ?o i" using i k n eq' by auto
      ultimately show ?thesis using IH i k unfolding p by auto
    qed simp
    show ?thesis using IH eq' l(3) n gap unfolding p q by auto
  next
    case lt
    have IH: "let (more, m) = process_scan sq sn l in
      sn_ok m \<and> sn_off b sn \<le> sn_off b m \<and> sn_off b m < lo + 2048 \<and>
      (\<forall>i \<in> set l. ?o i \<noteq> sn_off b m) \<and> more = (\<exists>i \<in> set l. sn_off b m < ?o i) \<and>
      (\<forall>i \<in> set l. sn_off b sn \<le> ?o i \<longrightarrow> ?o i < sn_off b m \<longrightarrow>
         (\<forall>k. sn_off b sn \<le> k \<longrightarrow> k \<le> ?o i \<longrightarrow> (\<exists>j \<in> set l. ?o j = k)))"
      using Cons.prems by (intro Cons.IH l) auto
    obtain more m where p: "process_scan sq sn l = (more, m)" by fastforce
    have q: "process_scan sq sn (j # l) = (more, m)" using less eq lt p by simp
    show ?thesis using IH lt unfolding p q by auto
  qed
qed simp

lemma sorted_dropWhile:
  fixes f :: "'a \<Rightarrow> int"
  shows "sorted_wrt (<) (map f l) \<Longrightarrow> j \<in> set (dropWhile (\<lambda>j. f j < n) l) \<Longrightarrow> n \<le> f j"
  by (induction l) (auto split: if_splits)

lemma sorted_wrt_dropWhile: "sorted_wrt (<) (map f l) \<Longrightarrow> sorted_wrt (<) (map f (dropWhile P l))"
  by (induction l) auto

lemma sorted_wrt_takeWhile: "sorted_wrt (<) (map f l) \<Longrightarrow> sorted_wrt (<) (map f (takeWhile P l))"
  by (induction l) (auto dest: set_takeWhileD)

lemma sorted_wrt_shift:
  "sorted_wrt (<) (map f l) \<Longrightarrow> \<forall>j \<in> set l. g j = f j - (c :: int) \<Longrightarrow> sorted_wrt (<) (map g l)"
  by (induction l) auto

text \<open>Delivery of the entries up to a sequence number, as a prefix of the sorted list.\<close>

lemma deliver_prefix:
  assumes sorted: "sorted_wrt (<) (map (\<lambda>i. sn_off b (sq i)) l)"
    and ok: "\<forall>i \<in> set l. sn_ok (sq i) \<and> \<bar>sn_off b n - sn_off b (sq i)\<bar> < 2048 \<and> sn_off b (sq i) \<noteq> sn_off b n"
  shows "takeWhile (\<lambda>j. \<not> SN_LESS n (sq j)) l = takeWhile (\<lambda>j. sn_off b (sq j) < sn_off b n) l"
    and "dropWhile (\<lambda>j. \<not> SN_LESS n (sq j)) l = dropWhile (\<lambda>j. sn_off b (sq j) < sn_off b n) l"
    and "\<forall>j \<in> set (dropWhile (\<lambda>j. \<not> SN_LESS n (sq j)) l). sn_off b n < sn_off b (sq j)"
proof -
  have "\<not> SN_LESS n (sq j) \<longleftrightarrow> sn_off b (sq j) < sn_off b n" if "j \<in> set l" for j
    using ok that SN_LESS_off [of b n "sq j"] by force
  then show tw: "takeWhile (\<lambda>j. \<not> SN_LESS n (sq j)) l = takeWhile (\<lambda>j. sn_off b (sq j) < sn_off b n) l"
    and dw: "dropWhile (\<lambda>j. \<not> SN_LESS n (sq j)) l = dropWhile (\<lambda>j. sn_off b (sq j) < sn_off b n) l"
    by (auto intro: takeWhile_cong dropWhile_cong)
  show "\<forall>j \<in> set (dropWhile (\<lambda>j. \<not> SN_LESS n (sq j)) l). sn_off b n < sn_off b (sq j)"
  proof
    fix j assume "j \<in> set (dropWhile (\<lambda>j. \<not> SN_LESS n (sq j)) l)"
    then have "sn_off b n \<le> sn_off b (sq j)" "j \<in> set l"
      using sorted_dropWhile [OF sorted, of j "sn_off b n"] dw by (auto dest: set_dropWhileD)
    with ok show "sn_off b n < sn_off b (sq j)" by force
  qed
qed

text \<open>What is left after a delivery is a window again.\<close>

lemma window_rest:
  assumes "wsize_b pc = AICWF_REORDER_WINSIZE" "sn_ok n" "0 \<le> sn_off b n"
    and sorted: "sorted_wrt (<) (map (\<lambda>i. sn_off b (sq i)) l)"
    and l: "\<forall>i \<in> set l. sn_ok (sq i) \<and> sn_off b n < sn_off b (sq i) \<and> sn_off b (sq i) \<le> sn_off b n + 63"
  shows "window_inv sq (pc\<lparr>ind_sn := n, reord_list := l, reord_timer := t\<rparr>)"
proof -
  have off: "\<forall>i \<in> set l. sn_off n (sq i) = sn_off b (sq i) - sn_off b n"
    using l sn_off_shift [of n _ b] by (auto simp: mod_pos_pos_trivial)
  have "n \<noteq> 0xFFFF" using assms(2) by (auto simp: sn_ok_def)
  moreover have "sorted_wrt (<) (map (\<lambda>i. sn_off n (sq i)) l)" by (rule sorted_wrt_shift [OF sorted off])
  moreover have "\<forall>i \<in> set l. sn_ok (sq i) \<and> 1 \<le> sn_off n (sq i) \<and> sn_off n (sq i) \<le> 63" using l off by auto
  ultimately show ?thesis using assms(1,2) by (simp add: window_inv_def)
qed

lemma window_offsets:
  assumes inv: "window_inv sq pc" and x: "sn_ok (sq x)"
  defines "b \<equiv> window_base pc (sq x)"
  shows "sorted_wrt (<) (map (\<lambda>j. sn_off b (sq j)) (reord_list pc))"
    and "\<forall>i \<in> set (reord_list pc). sn_ok (sq i) \<and> 1 \<le> sn_off b (sq i) \<and> sn_off b (sq i) \<le> 63"
  using assms by (auto simp: window_inv_def window_base_def split: if_splits)

text \<open>Checking, inserting and scanning for a frame that is not late.\<close>

lemma window_insert:
  assumes inv: "window_inv sq pc" and x: "sn_ok (sq x)"
    and chk: "reord_need_check pc (sq x) = (False, pc1)"
    and enq: "reord_rxframe_enqueue sq x (reord_list pc1) = Some l"
    and prc: "reord_rxframes_process sq False (pc1\<lparr>reord_list := l\<rparr>) = (hole, pc2)"
  defines "b \<equiv> window_base pc (sq x)"
  shows "reord_list pc2 = l" "set l = insert x (set (reord_list pc))" "mset l = add_mset x (mset (reord_list pc))"
    and "wsize_b pc2 = AICWF_REORDER_WINSIZE" "enable pc2 = enable pc" "sn_ok (ind_sn pc2)"
    and "sorted_wrt (<) (map (\<lambda>j. sn_off b (sq j)) l)"
    and "advance (sn_off b (sq x)) \<le> sn_off b (ind_sn pc2)" "sn_off b (ind_sn pc2) \<le> 2048"
    and "\<forall>i \<in> set l. sn_ok (sq i) \<and> \<bar>sn_off b (ind_sn pc2) - sn_off b (sq i)\<bar> < 2048 \<and> sn_off b (sq i) \<noteq> sn_off b (ind_sn pc2)"
    and "hole \<longleftrightarrow> (\<exists>i \<in> set l. sn_off b (ind_sn pc2) < sn_off b (sq i))"
proof -
  let ?o = "\<lambda>j. sn_off b (sq j)"
  define lo :: int where "lo = (if ?o x = 2047 then 1 else 0)"
  note old = window_offsets [OF inv x, folded b_def]
  have o: "0 \<le> ?o x" "?o x < 2048"
    using need_check_late [of pc "sq x"] chk sn_off_range by (simp_all add: b_def)
  note adv = need_check_advance [OF inv x chk, folded b_def]
  have "\<forall>i \<in> set (reord_list pc). sn_ok (sq i) \<and> 0 \<le> ?o i \<and> ?o i < 0 + 2048" using old(2) by auto
  from enqueue_spec [OF old(1) this x] o enq adv
  have l: "sorted_wrt (<) (map ?o l)" and m: "mset l = add_mset x (mset (reord_list pc))" by simp_all
  from m have sl: "set l = insert x (set (reord_list pc))" by (metis set_mset_add_mset_insert set_mset_mset)
  have lok: "\<forall>i \<in> set l. sn_ok (sq i) \<and> lo \<le> ?o i \<and> ?o i < lo + 2047"
    using sl old(2) x o by (auto simp: lo_def)
  have n0: "lo \<le> sn_off b (ind_sn pc1)" "sn_off b (ind_sn pc1) < lo + 2048" "lo \<in> {0, 1}" "sn_ok (ind_sn pc1)"
    using adv o by (auto simp: lo_def advance_def)
  obtain hole' n where scan: "process_scan sq (ind_sn pc1) l = (hole', n)" by fastforce
  have "l \<noteq> []" using m by auto
  then have pc2: "pc2 = pc1\<lparr>reord_list := l, ind_sn := n\<rparr>" "hole = hole'"
    using prc scan by (auto simp: reord_rxframes_process_def neq_Nil_conv)
  from scan_spec [OF l lok n0(4,1,2,3)] scan
  have sc: "sn_ok n" "sn_off b (ind_sn pc1) \<le> sn_off b n" "sn_off b n < lo + 2048"
    "\<forall>i \<in> set l. ?o i \<noteq> sn_off b n" "hole' = (\<exists>i \<in> set l. sn_off b n < ?o i)" by simp_all
  show "\<forall>i \<in> set l. sn_ok (sq i) \<and> \<bar>sn_off b (ind_sn pc2) - ?o i\<bar> < 2048 \<and> ?o i \<noteq> sn_off b (ind_sn pc2)"
    using lok sc n0 by (auto simp: pc2)
  show "advance (?o x) \<le> sn_off b (ind_sn pc2)" "sn_off b (ind_sn pc2) \<le> 2048"
    using adv sc(2,3) by (simp_all add: pc2 lo_def split: if_splits)
  show "reord_list pc2 = l" "sn_ok (ind_sn pc2)" "hole \<longleftrightarrow> (\<exists>i \<in> set l. sn_off b (ind_sn pc2) < ?o i)"
    "wsize_b pc2 = AICWF_REORDER_WINSIZE" "enable pc2 = enable pc"
    "sorted_wrt (<) (map ?o l)" "set l = insert x (set (reord_list pc))" "mset l = add_mset x (mset (reord_list pc))"
    using pc2 sc adv inv l m sl by (simp_all add: window_inv_def)
qed

lemma window_accept:
  assumes inv: "window_inv sq pc" and x: "sn_ok (sq x)"
    and chk: "reord_need_check pc (sq x) = (False, pc1)"
    and enq: "reord_rxframe_enqueue sq x (reord_list pc1) = Some l"
    and prc: "reord_rxframes_process sq False (pc1\<lparr>reord_list := l\<rparr>) = (hole, pc2)"
  defines "b \<equiv> window_base pc (sq x)"
    and "rest \<equiv> dropWhile (\<lambda>j. \<not> SN_LESS (ind_sn pc2) (sq j)) l"
    and "out \<equiv> takeWhile (\<lambda>j. \<not> SN_LESS (ind_sn pc2) (sq j)) l"
  shows "window_inv sq (pc2\<lparr>reord_list := rest, reord_timer := hole\<rparr>)" "hole \<longleftrightarrow> rest \<noteq> []"
    and "sorted_wrt (<) (map (\<lambda>j. sn_off b (sq j)) out)"
    and "\<forall>j \<in> set out. sn_off b (sq j) < sn_off b (ind_sn pc2)"
    and "\<forall>j \<in> set rest. sn_off b (ind_sn pc2) < sn_off b (sq j)"
proof -
  let ?o = "\<lambda>j. sn_off b (sq j)" and ?n = "sn_off b (ind_sn pc2)"
  note ins = window_insert [OF inv x chk enq prc, folded b_def]
  note old = window_offsets [OF inv x, folded b_def]
  note del = deliver_prefix [OF ins(7,10)]
  show gt: "\<forall>j \<in> set rest. ?n < ?o j" using del(3) by (simp add: rest_def)
  show lt: "\<forall>j \<in> set out. ?o j < ?n" using del(1) by (auto simp: out_def dest: set_takeWhileD)
  show "sorted_wrt (<) (map ?o out)" using ins(7) by (simp add: out_def sorted_wrt_takeWhile)
  have "l = out @ rest" by (simp add: out_def rest_def)
  then have "(\<exists>i \<in> set l. ?n < ?o i) \<longleftrightarrow> rest \<noteq> []" using gt lt by (cases rest) auto
  then show "hole \<longleftrightarrow> rest \<noteq> []" using ins(11) by simp
  have "sn_ok (sq i) \<and> ?n < ?o i \<and> ?o i \<le> ?n + 63" if i: "i \<in> set rest" for i
  proof -
    have il: "i \<in> set l" using i by (auto simp: rest_def dest: set_dropWhileD)
    then have "?o i \<le> ?n + 63"
      using ins(2,8) old(2) sn_off_range [of b "ind_sn pc2"] by (auto simp: advance_def split: if_splits)
    with il i ins(10) gt show ?thesis by simp
  qed
  then have "window_inv sq (pc2\<lparr>ind_sn := ind_sn pc2, reord_list := rest, reord_timer := hole\<rparr>)"
    using ins(4,6,7) sn_off_range by (intro window_rest) (auto simp: rest_def sorted_wrt_dropWhile)
  then show "window_inv sq (pc2\<lparr>reord_list := rest, reord_timer := hole\<rparr>)" by simp
qed

text \<open>The forced round of the timeout worker.\<close>

lemma window_forced:
  assumes inv: "window_inv sq pc" and ne: "reord_list pc \<noteq> []"
    and prc: "reord_rxframes_process sq True pc = (hole, pc2)"
  defines "b \<equiv> ind_sn pc"
    and "rest \<equiv> dropWhile (\<lambda>j. \<not> SN_LESS (ind_sn pc2) (sq j)) (reord_list pc)"
    and "out \<equiv> takeWhile (\<lambda>j. \<not> SN_LESS (ind_sn pc2) (sq j)) (reord_list pc)"
  shows "window_inv sq (pc2\<lparr>reord_list := rest, reord_timer := t\<rparr>)" "hole \<longleftrightarrow> rest \<noteq> []"
    and "reord_list pc2 = reord_list pc" "out \<noteq> []" "enable pc2 = enable pc" "reord_timer pc2 = reord_timer pc"
    and "sorted_wrt (<) (map (\<lambda>j. sn_off b (sq j)) out)"
    and "\<forall>j \<in> set out. sn_off b (sq j) < sn_off b (ind_sn pc2)"
    and "\<forall>j \<in> set rest. sn_off b (ind_sn pc2) < sn_off b (sq j)"
proof -
  let ?o = "\<lambda>j. sn_off b (sq j)"
  obtain j l where l: "reord_list pc = j # l" using ne by (auto simp: neq_Nil_conv)
  have w: "sorted_wrt (<) (map ?o (j # l))" "\<forall>i \<in> set (j # l). sn_ok (sq i) \<and> 1 \<le> ?o i \<and> ?o i \<le> 63"
    "wsize_b pc = AICWF_REORDER_WINSIZE" using inv l by (auto simp: window_inv_def b_def)
  obtain hole' n where scan: "process_scan sq (sq j) (j # l) = (hole', n)" by fastforce
  have pc2: "pc2 = pc\<lparr>ind_sn := n\<rparr>" "hole = hole'" using prc scan by (simp_all add: reord_rxframes_process_def l)
  have lok: "\<forall>i \<in> set (j # l). sn_ok (sq i) \<and> 0 \<le> ?o i \<and> ?o i < 0 + 2047" using w(2) by auto
  from scan_spec [OF w(1) lok, of "sq j"] w(2) scan
  have sc: "sn_ok n" "?o j \<le> sn_off b n" "sn_off b n < 2048"
    "\<forall>i \<in> set (j # l). ?o i \<noteq> sn_off b n" "hole' = (\<exists>i \<in> set (j # l). sn_off b n < ?o i)" by simp_all
  have near: "\<forall>i \<in> set (j # l). sn_ok (sq i) \<and> \<bar>sn_off b n - ?o i\<bar> < 2048 \<and> ?o i \<noteq> sn_off b n"
    using w(2) sc by auto
  note del = deliver_prefix [OF w(1) near]
  show "reord_list pc2 = reord_list pc" "enable pc2 = enable pc" "reord_timer pc2 = reord_timer pc" using pc2 by simp_all
  show gt: "\<forall>j \<in> set rest. sn_off b (ind_sn pc2) < ?o j" using del(3) by (simp add: rest_def pc2 l)
  show lt: "\<forall>j \<in> set out. ?o j < sn_off b (ind_sn pc2)" using del(1) by (auto simp: out_def pc2 l dest: set_takeWhileD)
  show "sorted_wrt (<) (map ?o out)" using w(1) by (simp only: out_def l sorted_wrt_takeWhile)
  have "?o j < sn_off b n" using sc(2,4) by force
  then show "out \<noteq> []" using del(1) by (simp add: out_def pc2 l)
  have "j # l = out @ rest" by (simp add: out_def rest_def l)
  then have "(\<exists>i \<in> set (j # l). sn_off b n < ?o i) \<longleftrightarrow> rest \<noteq> []" using gt lt pc2 by (cases rest) auto
  then show "hole \<longleftrightarrow> rest \<noteq> []" using sc(5) pc2 by simp
  have "set rest \<subseteq> set (j # l)" unfolding rest_def l by (auto dest: set_dropWhileD)
  then have "\<forall>i \<in> set rest. sn_ok (sq i) \<and> sn_off b n < ?o i \<and> ?o i \<le> sn_off b n + 63"
    using w(2) gt sn_off_range [of b n] by (force simp: pc2)
  then have "window_inv sq (pc\<lparr>ind_sn := n, reord_list := rest, reord_timer := t\<rparr>)"
    using w sc(1) sn_off_range by (intro window_rest) (auto simp: rest_def l sorted_wrt_dropWhile simp del: list.map dropWhile.simps)
  then show "window_inv sq (pc2\<lparr>reord_list := rest, reord_timer := t\<rparr>)" by (simp add: pc2)
qed

section \<open>Delivery and the pool\<close>

lemma single_ind_simps [simp]:
  "seq_of (snd (reord_single_frame_ind j s)) = seq_of s"
  "stas_reord_list (snd (reord_single_frame_ind j s)) = stas_reord_list s"
  "forward (recv_frames (snd (reord_single_frame_ind j s)) i) = forward (recv_frames s i)"
  "is_amsdu (recv_frames (snd (reord_single_frame_ind j s)) i) = is_amsdu (recv_frames s i)"
  "i \<noteq> j \<Longrightarrow> recv_frames (snd (reord_single_frame_ind j s)) i = recv_frames s i"
  by (auto simp: reord_single_frame_ind_def Let_def reord_rxframe_free_def split: option.splits)

text \<open>\<open>deliver js\<close> hands up the entries \<open>js\<close> in order.\<close>

definition deliver :: "nat list \<Rightarrow> aicwf_rx_priv \<Rightarrow> aicwf_rx_priv" where
  "deliver js s = fold (\<lambda>j t. snd (reord_single_frame_ind j t)) js s"

lemma deliver_simps [simp]:
  "deliver [] s = s"
  "deliver (j # js) s = deliver js (snd (reord_single_frame_ind j s))"
  by (simp_all add: deliver_def)

lemma deliver_keeps [simp]:
  "seq_of (deliver js s) = seq_of s" "stas_reord_list (deliver js s) = stas_reord_list s"
  by (induction js arbitrary: s) auto

lemma deliver_other: "i \<notin> set js \<Longrightarrow> recv_frames (deliver js s) i = recv_frames s i"
  by (induction js arbitrary: s) auto

lemma rxframes_ind_split:
  "reord_rxframes_ind n l s =
     (dropWhile (\<lambda>j. \<not> SN_LESS n (seq_of s j)) l, deliver (takeWhile (\<lambda>j. \<not> SN_LESS n (seq_of s j)) l) s)"
proof (induction l arbitrary: s)
  case (Cons j l)
  have "(\<lambda>i. seq_of (snd (reord_single_frame_ind j s)) i) = seq_of s" by simp
  then have "seq_of (snd (reord_single_frame_ind j s)) i = seq_of s i" for i by metis
  with Cons show ?case by simp
qed simp

text \<open>What \<open>deliver\<close> does with entries that hold a packet: each goes up or is dropped by its forward
  flag, in order, and its entry returns to the pool.\<close>

definition up_of :: "aicwf_rx_priv \<Rightarrow> nat list \<Rightarrow> (u8 list \<times> bool) list" where
  "up_of s js = map (\<lambda>j. (the (pkt (recv_frames s j)), is_amsdu (recv_frames s j)))
     (filter (\<lambda>j. forward (recv_frames s j)) js)"

definition freed_of :: "aicwf_rx_priv \<Rightarrow> nat list \<Rightarrow> u8 list list" where
  "freed_of s js = map (\<lambda>j. the (pkt (recv_frames s j))) (filter (\<lambda>j. \<not> forward (recv_frames s j)) js)"

lemma deliver_effect:
  assumes "distinct js" "\<forall>j \<in> set js. pkt (recv_frames s j) \<noteq> None"
  shows "rx_up (deliver js s) = rx_up s @ up_of s js \<and>
    rx_freed (deliver js s) = rx_freed s @ freed_of s js \<and>
    rxframes_freequeue (deliver js s) = rev js @ rxframes_freequeue s \<and>
    (\<forall>j \<in> set js. pkt (recv_frames (deliver js s) j) = None)"
  using assms
proof (induction js arbitrary: s)
  case (Cons j js)
  obtain skb where skb: "pkt (recv_frames s j) = Some skb" using Cons.prems by auto
  let ?t = "snd (reord_single_frame_ind j s)"
  have t: "rx_up ?t = rx_up s @ up_of s [j]" "rx_freed ?t = rx_freed s @ freed_of s [j]"
    "rxframes_freequeue ?t = j # rxframes_freequeue s" "pkt (recv_frames ?t j) = None"
    using skb by (simp_all add: reord_single_frame_ind_def Let_def reord_rxframe_free_def up_of_def freed_of_def)
  have same: "recv_frames ?t i = recv_frames s i" if "i \<in> set js" for i
    using Cons.prems that by (intro single_ind_simps(5)) auto
  then have "up_of ?t js = up_of s js" "freed_of ?t js = freed_of s js"
    by (auto simp: up_of_def freed_of_def cong: filter_cong map_cong)
  moreover have "\<forall>i \<in> set js. pkt (recv_frames ?t i) \<noteq> None" using Cons.prems same by auto
  moreover have "up_of s (j # js) = up_of s [j] @ up_of s js" "freed_of s (j # js) = freed_of s [j] @ freed_of s js"
    by (simp_all add: up_of_def freed_of_def)
  moreover have "pkt (recv_frames (deliver js ?t) j) = None"
    using Cons.prems t(4) deliver_other [of j js ?t] by simp
  ultimately show ?case using Cons.IH [of ?t] Cons.prems t by simp
qed (simp_all add: up_of_def freed_of_def)

section \<open>The state invariant\<close>

text \<open>
  \<open>pool s\<close> counts, for every entry, how often it is in the free queue or pending in a window.  In a
  good state each entry is there at most once; an entry that is nowhere has been lost.
\<close>

definition ctrl_pending :: "(nat \<Rightarrow> reord_ctrl) \<Rightarrow> nat multiset" where
  "ctrl_pending f = sum_list (map (\<lambda>t. mset (reord_list (f t))) [0..<8])"

definition pending :: "aicwf_rx_priv \<Rightarrow> nat multiset" where
  "pending s = sum_list (map (\<lambda>x. ctrl_pending (snd x)) (stas_reord_list s))"

definition rx_pool :: "aicwf_rx_priv \<Rightarrow> nat multiset" where
  "rx_pool s = mset (rxframes_freequeue s) + pending s"

definition ctrl_inv :: "aicwf_rx_priv \<Rightarrow> reord_ctrl \<Rightarrow> bool" where
  "ctrl_inv s pc \<longleftrightarrow> window_inv (seq_of s) pc \<and> (\<forall>i \<in> set (reord_list pc). pkt (recv_frames s i) \<noteq> None) \<and>
     (enable pc \<or> reord_list pc = [])"

definition reord_inv :: "aicwf_rx_priv \<Rightarrow> bool" where
  "reord_inv s \<longleftrightarrow> (\<forall>i. count (rx_pool s) i \<le> 1) \<and> (\<forall>i \<in># rx_pool s. i < MAX_REORD_RXFRAME) \<and>
     (\<forall>k < length (stas_reord_list s). \<forall>t < 8. ctrl_inv s (get_ctrl k t s)) \<and>
     distinct (map fst (stas_reord_list s))"

lemma sum_upt_upd:
  fixes f :: "nat \<Rightarrow> 'a multiset"
  shows "t < n \<Longrightarrow> sum_list (map (f(t := v)) [0..<n]) + f t = sum_list (map f [0..<n]) + v"
proof (induction n)
  case (Suc n)
  show ?case
  proof (cases "t = n")
    case True
    have "map (f(n := v)) [0..<n] = map f [0..<n]" by simp
    with True show ?thesis by (simp del: fun_upd_apply add: fun_upd_same ac_simps)
  next
    case False
    with Suc show ?thesis by (simp add: ac_simps del: map_fun_upd)
  qed
qed simp

lemma sum_list_upd:
  fixes xs :: "'a multiset list"
  shows "k < length xs \<Longrightarrow> sum_list (xs[k := v]) + xs ! k = sum_list xs + v"
  by (induction xs arbitrary: k) (auto simp: less_Suc_eq_0_disj ac_simps)

lemma multiset_exchange:
  fixes P :: "'a multiset"
  assumes "P + F = S + G" "G + L = F + M"
  shows "P + L = S + M"
proof -
  have "P + L + F = P + F + L" by (simp only: ac_simps)
  also have "\<dots> = S + (G + L)" by (simp only: assms(1) add.assoc)
  also have "\<dots> = S + M + F" by (simp only: assms(2) ac_simps)
  finally show ?thesis by (rule add_right_imp_eq)
qed

lemma ctrl_pending_upd:
  "t < 8 \<Longrightarrow> ctrl_pending (f(t := pc)) + mset (reord_list (f t)) = ctrl_pending f + mset (reord_list pc)"
  using sum_upt_upd [of t 8 "\<lambda>t. mset (reord_list (f t))" "mset (reord_list pc)"]
  by (simp add: ctrl_pending_def fun_upd_def if_distrib cong: if_cong del: upt.simps)

lemma set_ctrl_simps [simp]:
  "rxframes_freequeue (set_ctrl k t pc s) = rxframes_freequeue s"
  "recv_frames (set_ctrl k t pc s) = recv_frames s"
  "rx_up (set_ctrl k t pc s) = rx_up s" "rx_freed (set_ctrl k t pc s) = rx_freed s"
  "length (stas_reord_list (set_ctrl k t pc s)) = length (stas_reord_list s)"
  "k < length (stas_reord_list s) \<Longrightarrow> map fst (stas_reord_list (set_ctrl k t pc s)) = map fst (stas_reord_list s)"
  by (simp_all add: set_ctrl_def map_update list_update_same_conv)

lemma get_set_ctrl:
  "k < length (stas_reord_list s) \<Longrightarrow>
   get_ctrl k' t' (set_ctrl k t pc s) = (if k' = k \<and> t' = t then pc else get_ctrl k' t' s)"
  by (auto simp: get_ctrl_def set_ctrl_def nth_list_update)

lemma pending_set_ctrl:
  assumes "k < length (stas_reord_list s)" "t < 8"
  shows "pending (set_ctrl k t pc s) + mset (reord_list (get_ctrl k t s)) = pending s + mset (reord_list pc)"
proof -
  let ?xs = "map (\<lambda>x. ctrl_pending (snd x)) (stas_reord_list s)"
  let ?f = "snd (stas_reord_list s ! k)"
  have "pending (set_ctrl k t pc s) = sum_list (?xs[k := ctrl_pending (?f(t := pc))])"
    by (simp add: pending_def set_ctrl_def map_update)
  moreover have "sum_list (?xs[k := ctrl_pending (?f(t := pc))]) + ctrl_pending ?f = sum_list ?xs + ctrl_pending (?f(t := pc))"
    using sum_list_upd [of k ?xs] assms(1) by simp
  ultimately have a: "pending (set_ctrl k t pc s) + ctrl_pending ?f = pending s + ctrl_pending (?f(t := pc))"
    by (simp only: pending_def)
  have b: "ctrl_pending (?f(t := pc)) + mset (reord_list (?f t)) = ctrl_pending ?f + mset (reord_list pc)"
    by (rule ctrl_pending_upd [OF assms(2)])
  show ?thesis unfolding get_ctrl_def by (rule multiset_exchange [OF a b])
qed

lemma window_in_pending:
  assumes "k < length (stas_reord_list s)" "t < 8"
  shows "mset (reord_list (get_ctrl k t s)) \<subseteq># pending s"
proof -
  have "pending (set_ctrl k t ((get_ctrl k t s)\<lparr>reord_list := []\<rparr>) s) + mset (reord_list (get_ctrl k t s)) = pending s"
    using pending_set_ctrl [OF assms, of "(get_ctrl k t s)\<lparr>reord_list := []\<rparr>"] by simp
  then show ?thesis by (metis mset_subset_eq_add_right)
qed

text \<open>Two windows share no entry.\<close>

lemma windows_disjoint:
  assumes inv: "\<forall>i. count (rx_pool s) i \<le> 1" and kt: "k < length (stas_reord_list s)" "t < 8"
    and kt': "k' < length (stas_reord_list s)" "t' < 8" and ne: "(k', t') \<noteq> (k, t)"
    and i: "i \<in> set (reord_list (get_ctrl k t s))"
  shows "i \<notin> set (reord_list (get_ctrl k' t' s))"
proof
  assume i': "i \<in> set (reord_list (get_ctrl k' t' s))"
  let ?s = "set_ctrl k t ((get_ctrl k t s)\<lparr>reord_list := []\<rparr>) s"
  have e: "pending ?s + mset (reord_list (get_ctrl k t s)) = pending s"
    using pending_set_ctrl [OF kt, of "(get_ctrl k t s)\<lparr>reord_list := []\<rparr>"] by simp
  have "mset (reord_list (get_ctrl k' t' ?s)) \<subseteq># pending ?s" using window_in_pending [of k' ?s t'] kt' by simp
  then have "i \<in># pending ?s" using i' ne kt get_set_ctrl [OF kt(1)] by (auto dest: mset_subset_eqD)
  then have "1 \<le> count (pending ?s) i" by (simp add: Suc_le_eq)
  moreover have "1 \<le> count (mset (reord_list (get_ctrl k t s))) i" using i by (simp add: Suc_le_eq)
  moreover have "count (pending s) i = count (pending ?s) i + count (mset (reord_list (get_ctrl k t s))) i"
    unfolding e [symmetric] by simp
  ultimately have "2 \<le> count (pending s) i" by linarith
  moreover have "count (pending s) i \<le> count (rx_pool s) i" by (simp add: rx_pool_def)
  moreover have "count (rx_pool s) i \<le> 1" using inv by blast
  ultimately show False by linarith
qed

lemma ctrl_inv_cong:
  "seq_of s' = seq_of s \<Longrightarrow> (\<And>j. j \<in> set (reord_list pc) \<Longrightarrow> recv_frames s' j = recv_frames s j) \<Longrightarrow>
   ctrl_inv s pc \<Longrightarrow> ctrl_inv s' pc"
  by (auto simp: ctrl_inv_def)

text \<open>Changing one window and entries that belong to it or to nobody.\<close>

lemma update_window:
  assumes inv: "reord_inv s" and kt: "k < length (stas_reord_list s)" "t < 8"
    and s': "seq_of s' = seq_of s" "stas_reord_list s' = stas_reord_list s"
    and D: "\<And>j. j \<notin> D \<Longrightarrow> recv_frames s' j = recv_frames s j"
      "\<And>j. j \<in> D \<Longrightarrow> j \<in> set (reord_list (get_ctrl k t s)) \<or> j \<notin># rx_pool s"
    and pc: "ctrl_inv s' pc"
    and pool: "\<forall>i. count (rx_pool (set_ctrl k t pc s')) i \<le> 1" "\<forall>i \<in># rx_pool (set_ctrl k t pc s'). i < MAX_REORD_RXFRAME"
  shows "reord_inv (set_ctrl k t pc s')"
proof -
  let ?u = "set_ctrl k t pc s'"
  have k': "k < length (stas_reord_list s')" using kt s' by simp
  have get: "get_ctrl k' t' s' = get_ctrl k' t' s" for k' t' by (simp add: get_ctrl_def s')
  have "ctrl_inv ?u (get_ctrl k' t' ?u)" if k't': "k' < length (stas_reord_list ?u)" "t' < 8" for k' t'
  proof (cases "(k', t') = (k, t)")
    case True
    then show ?thesis using pc get_set_ctrl [OF k'] by (auto simp: ctrl_inv_def)
  next
    case False
    let ?pc = "get_ctrl k' t' s"
    have k'': "k' < length (stas_reord_list s)" using k't'(1) s' by simp
    have c: "ctrl_inv s ?pc" using inv k'' k't'(2) by (simp add: reord_inv_def)
    have "j \<notin> D" if j: "j \<in> set (reord_list ?pc)" for j
    proof
      assume "j \<in> D"
      moreover have "j \<in># rx_pool s"
        using mset_subset_eqD [OF window_in_pending [OF k'' k't'(2)]] j by (simp add: rx_pool_def)
      ultimately have "j \<in> set (reord_list (get_ctrl k t s))" using D(2) by blast
      then show False
        using windows_disjoint [of s k t k' t' j] inv kt k'' k't'(2) False j by (simp add: reord_inv_def)
    qed
    then have "ctrl_inv ?u ?pc" using D(1) s'(1) by (intro ctrl_inv_cong [OF _ _ c]) auto
    moreover have "get_ctrl k' t' ?u = ?pc" using False get_set_ctrl [OF k'] get by auto
    ultimately show ?thesis by simp
  qed
  moreover have "distinct (map fst (stas_reord_list ?u))" using inv k' s' by (simp add: reord_inv_def)
  ultimately show ?thesis using pool by (simp add: reord_inv_def)
qed

lemma rx_pool_set_ctrl:
  assumes "k < length (stas_reord_list s)" "t < 8"
  shows "rx_pool (set_ctrl k t pc s) + mset (reord_list (get_ctrl k t s)) = rx_pool s + mset (reord_list pc)"
  using pending_set_ctrl [OF assms, of pc] by (simp add: rx_pool_def add.assoc)

text \<open>An entry in hand: taken from the pool and filled, not yet in a window.\<close>

definition in_hand :: "nat \<Rightarrow> aicwf_rx_priv \<Rightarrow> bool" where
  "in_hand i s \<longleftrightarrow> i \<notin># rx_pool s \<and> i < MAX_REORD_RXFRAME \<and> pkt (recv_frames s i) \<noteq> None \<and> sn_ok (seq_of s i)"

lemma pool_add_ok:
  assumes "reord_inv s" "in_hand i s"
  shows "\<forall>j. count (add_mset i (rx_pool s)) j \<le> 1" "\<forall>j \<in># add_mset i (rx_pool s). j < MAX_REORD_RXFRAME"
  using assms by (auto simp: reord_inv_def in_hand_def not_in_iff)

lemma drop_frame_simps [simp]:
  "seq_of (drop_frame i s) = seq_of s" "stas_reord_list (drop_frame i s) = stas_reord_list s"
  "rxframes_freequeue (drop_frame i s) = i # rxframes_freequeue s"
  "j \<noteq> i \<Longrightarrow> recv_frames (drop_frame i s) j = recv_frames s j" "rx_up (drop_frame i s) = rx_up s"
  by (auto simp: drop_frame_def reord_rxframe_free_def kfree_skb_def split: option.splits)

text \<open>Leaving a window as it is and giving the entry back.\<close>

lemma give_back:
  assumes inv: "reord_inv s" and hand: "in_hand i s" and kt: "k < length (stas_reord_list s)" "t < (8 :: nat)"
    and s': "seq_of s' = seq_of s" "stas_reord_list s' = stas_reord_list s"
      "rxframes_freequeue s' = i # rxframes_freequeue s" "\<And>j. j \<noteq> i \<Longrightarrow> recv_frames s' j = recv_frames s j"
  shows "reord_inv s' \<and> rx_pool s' = add_mset i (rx_pool s)"
proof -
  have get: "get_ctrl k t s' = get_ctrl k t s" by (simp add: get_ctrl_def s')
  have id: "set_ctrl k t (get_ctrl k t s) s' = s'" by (simp add: set_ctrl_def get_ctrl_def s')
  have pool: "rx_pool s' = add_mset i (rx_pool s)" by (simp add: rx_pool_def pending_def s')
  have c: "ctrl_inv s (get_ctrl k t s)" using inv kt by (simp add: reord_inv_def)
  have "i \<notin> set (reord_list (get_ctrl k t s))"
    using hand mset_subset_eqD [OF window_in_pending [OF kt], of i] by (auto simp: in_hand_def rx_pool_def)
  then have "recv_frames s' j = recv_frames s j" if "j \<in> set (reord_list (get_ctrl k t s))" for j
    using that by (intro s'(4)) auto
  then have "ctrl_inv s' (get_ctrl k t s)" by (rule ctrl_inv_cong [OF s'(1) _ c])
  from update_window [OF inv kt s'(1,2) _ _ this, of "{i}"]
  have "reord_inv s'" unfolding id using s'(4) hand pool_add_ok [OF inv hand] pool by (auto simp: in_hand_def)
  with pool show ?thesis by simp
qed

lemma return_entry:
  assumes inv: "reord_inv s" and hand: "in_hand i s"
    and s': "seq_of s' = seq_of s" "stas_reord_list s' = stas_reord_list s"
      "rxframes_freequeue s' = i # rxframes_freequeue s" "\<And>j. j \<noteq> i \<Longrightarrow> recv_frames s' j = recv_frames s j"
  shows "reord_inv s' \<and> rx_pool s' = add_mset i (rx_pool s)"
proof (cases "stas_reord_list s")
  case Nil
  then have "rx_pool s' = add_mset i (rx_pool s)" by (simp add: rx_pool_def pending_def s')
  with inv pool_add_ok [OF inv hand] Nil s' show ?thesis by (simp add: reord_inv_def)
next
  case (Cons x xs)
  then show ?thesis using give_back [OF inv hand, of 0 0 s'] s' by auto
qed

text \<open>Late and duplicate frames leave the window as it is.\<close>

lemma need_check_late_same:
  assumes "window_inv sq pc" "reord_need_check pc sn = (True, pc1)"
  shows "pc1 = pc"
proof (cases "ind_sn pc = 0xFFFF")
  case True
  then have "sn_off (window_base pc sn) sn = 0" by (simp add: window_base_def)
  then have "\<not> fst (reord_need_check pc sn)" using need_check_late [of pc sn] by simp
  with assms show ?thesis by simp
next
  case False
  with assms(2) show ?thesis by (auto simp: reord_need_check_def Let_def split: if_splits)
qed

lemma duplicate_same:
  assumes inv: "window_inv sq pc" and x: "sn_ok (sq x)" and chk: "reord_need_check pc (sq x) = (False, pc1)"
    and dup: "reord_rxframe_enqueue sq x (reord_list pc1) = None"
  shows "pc1 = pc"
proof -
  let ?b = "window_base pc (sq x)"
  note adv = need_check_advance [OF inv x chk]
  note old = window_offsets [OF inv x]
  have o: "0 \<le> sn_off ?b (sq x)" "sn_off ?b (sq x) < 2048" using need_check_late [of pc "sq x"] chk sn_off_range by simp_all
  have "\<forall>i \<in> set (reord_list pc). sn_ok (sq i) \<and> 0 \<le> sn_off ?b (sq i) \<and> sn_off ?b (sq i) < 0 + 2048" using old(2) by auto
  from enqueue_spec [OF old(1) this x] o dup adv obtain i where i: "i \<in> set (reord_list pc)" "sq i = sq x" by auto
  then have near: "1 \<le> sn_off ?b (sq x)" "sn_off ?b (sq x) \<le> 63" using old(2) by force+
  have nf: "ind_sn pc \<noteq> 0xFFFF" using inv i by (auto simp: window_inv_def)
  then have "sn_off ?b (ind_sn pc1) = sn_off ?b (ind_sn pc)" using adv near by (simp add: advance_def window_base_def)
  then have "ind_sn pc1 = ind_sn pc"
    using SN_EQUAL_off [of "ind_sn pc1" "ind_sn pc" ?b] adv inv nf by (simp add: SN_EQUAL_def window_inv_def)
  with adv show ?thesis by (intro reord_ctrl.equality) auto
qed

lemma set_get_ctrl [simp]: "set_ctrl k t (get_ctrl k t s) s = s"
  by (simp add: set_ctrl_def get_ctrl_def)

lemma window_entries:
  assumes "reord_inv s" "k < length (stas_reord_list s)" "t < 8"
  shows "distinct (reord_list (get_ctrl k t s))" "i \<in> set (reord_list (get_ctrl k t s)) \<Longrightarrow> i \<in># rx_pool s"
proof -
  let ?l = "reord_list (get_ctrl k t s)"
  have sub: "mset ?l \<subseteq># rx_pool s"
    using window_in_pending [OF assms(2,3)] by (simp add: rx_pool_def subset_mset.add_increasing)
  have le: "count (mset ?l) j \<le> 1" for j
  proof -
    have "count (rx_pool s) j \<le> 1" using assms(1) by (simp add: reord_inv_def)
    with mset_subset_eq_count [OF sub, of j] show ?thesis by linarith
  qed
  have "count (mset ?l) j = (if j \<in> set ?l then 1 else 0)" for j
  proof (cases "j \<in> set ?l")
    case True
    then have "0 < count (mset ?l) j" by simp
    with le [of j] have "count (mset ?l) j = 1" by linarith
    with True show ?thesis by simp
  qed (simp add: count_mset_0_iff)
  then show "distinct ?l" by (simp add: distinct_count_atmost_1)
  show "i \<in> set ?l \<Longrightarrow> i \<in># rx_pool s" using mset_subset_eqD [OF sub] by simp
qed

lemma window_unit_accept:
  assumes inv: "reord_inv s" and hand: "in_hand i s" and kt: "k < length (stas_reord_list s)" "t < 8"
    and en: "enable (get_ctrl k t s)"
    and chk: "reord_need_check (get_ctrl k t s) (seq_of s i) = (False, pc1)"
    and enq: "reord_rxframe_enqueue (seq_of s) i (reord_list pc1) = Some l"
    and prc: "reord_rxframes_process (seq_of s) False (pc1\<lparr>reord_list := l\<rparr>) = (hole, pc2)"
  defines "out \<equiv> takeWhile (\<lambda>j. \<not> SN_LESS (ind_sn pc2) (seq_of s j)) l"
    and "rest \<equiv> dropWhile (\<lambda>j. \<not> SN_LESS (ind_sn pc2) (seq_of s j)) l"
  defines "u \<equiv> set_ctrl k t (pc2\<lparr>reord_list := rest, reord_timer := hole\<rparr>) (deliver out s)"
  shows "reord_inv u \<and> rx_pool u = add_mset i (rx_pool s)"
    and "rx_up u = rx_up s @ up_of s out" "rx_freed u = rx_freed s @ freed_of s out"
proof -
  let ?pc = "get_ctrl k t s"
  have c: "ctrl_inv s ?pc" using inv kt by (simp add: reord_inv_def)
  then have w: "window_inv (seq_of s) ?pc" by (simp add: ctrl_inv_def)
  have sn: "sn_ok (seq_of s i)" using hand by (simp add: in_hand_def)
  note ins = window_insert [OF w sn chk enq prc] and acc = window_accept [OF w sn chk enq prc, folded out_def rest_def]
  have l: "l = out @ rest" by (simp add: out_def rest_def)
  have i: "i \<notin> set (reord_list ?pc)" using window_entries(2) [OF inv kt, of i] hand by (auto simp: in_hand_def)
  have d: "distinct l" using window_entries(1) [OF inv kt] i ins(3) by (metis distinct.simps(2) mset.simps(2) mset_eq_imp_distinct_iff)
  have pk: "\<forall>j \<in> set l. pkt (recv_frames s j) \<noteq> None" using ins(2) c hand by (auto simp: ctrl_inv_def in_hand_def)
  have dis: "distinct out" "\<forall>j \<in> set out. pkt (recv_frames s j) \<noteq> None" "set out \<inter> set rest = {}"
    using d pk l by auto
  note del = deliver_effect [OF dis(1,2)]
  show "rx_up u = rx_up s @ up_of s out" "rx_freed u = rx_freed s @ freed_of s out" using del by (simp_all add: u_def)
  have "rx_pool u + mset (reord_list ?pc) = rx_pool (deliver out s) + mset rest"
    using rx_pool_set_ctrl [of k "deliver out s" t "pc2\<lparr>reord_list := rest, reord_timer := hole\<rparr>"] kt
    by (simp add: u_def get_ctrl_def)
  also have "\<dots> = rx_pool s + mset l" using del l by (simp add: rx_pool_def pending_def ac_simps)
  also have "\<dots> = add_mset i (rx_pool s) + mset (reord_list ?pc)" using ins(3) by simp
  finally have pool: "rx_pool u = add_mset i (rx_pool s)" by simp
  have "recv_frames (deliver out s) j = recv_frames s j" if "j \<in> set rest" for j
    using dis(3) that by (intro deliver_other) auto
  then have "ctrl_inv (deliver out s) (pc2\<lparr>reord_list := rest, reord_timer := hole\<rparr>)"
    using acc(1) pk l ins(5) en by (auto simp: ctrl_inv_def)
  moreover have "j \<in> set (reord_list ?pc) \<or> j \<notin># rx_pool s" if "j \<in> set out" for j
    using that l ins(2) hand by (auto simp: in_hand_def)
  ultimately have "reord_inv u"
    unfolding u_def using pool_add_ok [OF inv hand] pool
    by (intro update_window [OF inv kt, of _ "set out"]) (auto simp: u_def deliver_other)
  with pool show "reord_inv u \<and> rx_pool u = add_mset i (rx_pool s)" by simp
qed

lemma window_unit_keeps:
  assumes inv: "reord_inv s" and hand: "in_hand i s" and kt: "k < length (stas_reord_list s)" "t < 8"
    and en: "enable (get_ctrl k t s)" and res: "reord_window_unit k t i s = Inr (r, s')"
  shows "reord_inv s' \<and> rx_pool s' = add_mset i (rx_pool s) \<and> r = 0"
proof -
  let ?pc = "get_ctrl k t s"
  have w: "window_inv (seq_of s) ?pc" using inv kt by (simp add: reord_inv_def ctrl_inv_def)
  have sn: "sn_ok (seq_of s i)" using hand by (simp add: in_hand_def)
  obtain skb where skb: "pkt (recv_frames s i) = Some skb" using hand by (auto simp: in_hand_def)
  obtain lt pc1 where chk: "reord_need_check ?pc (seq_of s i) = (lt, pc1)" by fastforce
  have bk: "reord_inv (drop_frame i s) \<and> rx_pool (drop_frame i s) = add_mset i (rx_pool s)"
    by (rule give_back [OF inv hand kt]) simp_all
  show ?thesis
  proof (cases lt)
    case True
    then have "pc1 = ?pc" using need_check_late_same [OF w] chk by simp
    moreover have "reord_inv (snd (reord_single_frame_ind i s)) \<and>
        rx_pool (snd (reord_single_frame_ind i s)) = add_mset i (rx_pool s)"
      using skb by (intro give_back [OF inv hand kt])
        (auto simp: reord_single_frame_ind_def Let_def reord_rxframe_free_def)
    ultimately show ?thesis
      using True res chk skb bk en by (auto simp: reord_window_unit_def Let_def split: if_splits)
  next
    case nl: False
    show ?thesis
    proof (cases "reord_rxframe_enqueue (seq_of s) i (reord_list pc1)")
      case None
      then have "pc1 = ?pc" using duplicate_same [OF w sn] nl chk by simp
      with None nl res chk bk en show ?thesis by (auto simp: reord_window_unit_def Let_def)
    next
      case (Some l)
      obtain hole pc2 where prc: "reord_rxframes_process (seq_of s) False (pc1\<lparr>reord_list := l\<rparr>) = (hole, pc2)" by fastforce
      have chk': "reord_need_check ?pc (seq_of s i) = (False, pc1)" using chk nl by simp
      have "reord_list pc2 = l" using window_insert(1) [OF w sn chk' Some prc] .
      with window_unit_accept(1) [OF inv hand kt en chk' Some prc] res en chk' Some prc show ?thesis
        by (auto simp: reord_window_unit_def Let_def rxframes_ind_split)
    qed
  qed
qed

section \<open>The calls\<close>

lemma sta_index_Some: "sta_index mac xs = Some k \<Longrightarrow> k < length xs \<and> fst (xs ! k) = mac"
  by (induction xs arbitrary: k) (auto split: if_splits)

lemma sta_index_None: "sta_index mac xs = None \<Longrightarrow> mac \<notin> fst ` set xs"
proof (induction xs)
  case (Cons x xs)
  then show ?case by (cases x) (simp split: if_splits)
qed simp

lemma get_ctrl_stas: "stas_reord_list s' = stas_reord_list s \<Longrightarrow> get_ctrl k t s' = get_ctrl k t s"
  by (simp add: get_ctrl_def)

lemma ctrl_inv_entries:
  assumes same: "\<And>j. j \<in> set (reord_list pc) \<Longrightarrow> recv_frames s' j = recv_frames s j" and c: "ctrl_inv s pc"
  shows "ctrl_inv s' pc"
proof -
  have m: "map (\<lambda>i. sn_off b (seq_of s' i)) (reord_list pc) = map (\<lambda>i. sn_off b (seq_of s i)) (reord_list pc)" for b
    using same by simp
  have "window_inv (seq_of s') pc"
    using c same unfolding ctrl_inv_def window_inv_def m by simp
  then show ?thesis using c same by (simp add: ctrl_inv_def)
qed

lemma alloc_fill:
  assumes inv: "reord_inv s" and a: "reord_rxframe_alloc s = (Some i, s0)"
    and m: "pkt m \<noteq> None" "sn_ok (seq_num m)"
  defines "s1 \<equiv> s0\<lparr>recv_frames := (recv_frames s0)(i := m)\<rparr>"
  shows "reord_inv s1 \<and> in_hand i s1 \<and> rx_pool s = add_mset i (rx_pool s1) \<and> stas_reord_list s1 = stas_reord_list s"
proof -
  obtain q where q: "rxframes_freequeue s = i # q" and s0: "s0 = s\<lparr>rxframes_freequeue := q\<rparr>"
    using a by (auto simp: reord_rxframe_alloc_def split: list.splits)
  have pool: "rx_pool s = add_mset i (rx_pool s1)" by (simp add: rx_pool_def pending_def q s0 s1_def)
  then have cnt: "\<forall>j. count (rx_pool s1) j \<le> 1" and i: "i \<notin># rx_pool s1"
  proof -
    show "\<forall>j. count (rx_pool s1) j \<le> 1"
    proof
      fix j
      have "count (rx_pool s) j \<le> 1" using inv by (simp add: reord_inv_def)
      with pool show "count (rx_pool s1) j \<le> 1" by (simp split: if_splits)
    qed
    have "count (rx_pool s) i \<le> 1" using inv by (simp add: reord_inv_def)
    with pool show "i \<notin># rx_pool s1" by (simp add: not_in_iff)
  qed
  have st: "stas_reord_list s1 = stas_reord_list s" by (simp add: s0 s1_def)
  have "ctrl_inv s1 (get_ctrl k t s1)" if kt: "k < length (stas_reord_list s1)" "t < 8" for k t
  proof -
    have c: "ctrl_inv s (get_ctrl k t s1)" using inv kt by (simp add: reord_inv_def get_ctrl_stas [OF st] st)
    have "j \<noteq> i" if "j \<in> set (reord_list (get_ctrl k t s1))" for j
      using i mset_subset_eqD [OF window_in_pending [OF kt], of j] that by (auto simp: rx_pool_def)
    then have "recv_frames s1 j = recv_frames s j" if "j \<in> set (reord_list (get_ctrl k t s1))" for j
      using that by (simp add: s0 s1_def)
    then show ?thesis using c by (rule ctrl_inv_entries)
  qed
  moreover have "\<forall>j \<in># rx_pool s1. j < MAX_REORD_RXFRAME" "i < MAX_REORD_RXFRAME" using inv pool by (auto simp: reord_inv_def)
  ultimately show ?thesis
    using inv cnt pool i m st by (auto simp: reord_inv_def in_hand_def s1_def)
qed

lemma add_station:
  assumes inv: "reord_inv s" and mac: "sta_index mac (stas_reord_list s) = None"
  defines "s1 \<equiv> s\<lparr>stas_reord_list := stas_reord_list s @ [(mac, \<lambda>_. reord_ctrl_init)]\<rparr>"
  shows "reord_inv s1" "rx_pool s1 = rx_pool s" "enable (get_ctrl (length (stas_reord_list s)) t s1)"
proof -
  have "ctrl_pending (\<lambda>_. reord_ctrl_init) = {#}" by (simp add: ctrl_pending_def reord_ctrl_init_def)
  then show pool: "rx_pool s1 = rx_pool s" by (simp add: rx_pool_def pending_def s1_def)
  show "enable (get_ctrl (length (stas_reord_list s)) t s1)" by (simp add: get_ctrl_def s1_def reord_ctrl_init_def)
  have "ctrl_inv s1 (get_ctrl k t s1)" if kt: "k < length (stas_reord_list s1)" "t < 8" for k t
  proof (cases "k = length (stas_reord_list s)")
    case True
    then show ?thesis by (simp add: get_ctrl_def s1_def ctrl_inv_def window_inv_def reord_ctrl_init_def)
  next
    case False
    then have "k < length (stas_reord_list s)" "get_ctrl k t s1 = get_ctrl k t s"
      using kt by (simp_all add: s1_def get_ctrl_def nth_append)
    then have "ctrl_inv s (get_ctrl k t s1)" using inv kt(2) by (simp add: reord_inv_def)
    then show ?thesis by (simp add: ctrl_inv_def s1_def)
  qed
  moreover have "distinct (map fst (stas_reord_list s1))"
    using inv sta_index_None [OF mac] by (simp add: reord_inv_def s1_def)
  ultimately show "reord_inv s1" using inv pool by (simp add: reord_inv_def)
qed

lemma enable_window:
  assumes inv: "reord_inv s" and kt: "k < length (stas_reord_list s)" "t < 8"
  defines "pc \<equiv> (if \<not> enable (get_ctrl k t s) then (get_ctrl k t s)\<lparr>enable := True, ind_sn := 0xffff,
      wsize_b := AICWF_REORDER_WINSIZE\<rparr> else get_ctrl k t s)"
  shows "reord_inv (set_ctrl k t pc s)" "rx_pool (set_ctrl k t pc s) = rx_pool s" "enable (get_ctrl k t (set_ctrl k t pc s))"
proof -
  have c: "ctrl_inv s (get_ctrl k t s)" using inv kt by (simp add: reord_inv_def)
  then have l: "reord_list pc = reord_list (get_ctrl k t s)" "enable pc" "ctrl_inv s pc"
    by (auto simp: pc_def ctrl_inv_def window_inv_def)
  then show pool: "rx_pool (set_ctrl k t pc s) = rx_pool s" using rx_pool_set_ctrl [OF kt, of pc] by simp
  show "enable (get_ctrl k t (set_ctrl k t pc s))" using l kt by (simp add: get_set_ctrl)
  show "reord_inv (set_ctrl k t pc s)"
    using l inv pool by (intro update_window [OF inv kt, of s "{}"]) (auto simp: reord_inv_def)
qed

lemma in_hand_cong:
  "rx_pool s' = rx_pool s \<Longrightarrow> recv_frames s' = recv_frames s \<Longrightarrow> in_hand i s \<Longrightarrow> in_hand i s'"
  by (simp add: in_hand_def)

lemma kfree_skb_inv [simp]:
  "reord_inv (kfree_skb skb s) = reord_inv s" "rx_pool (kfree_skb skb s) = rx_pool s"
  by (simp_all add: kfree_skb_def reord_inv_def rx_pool_def pending_def ctrl_inv_def get_ctrl_def)

lemma station_unit_keeps:
  assumes inv: "reord_inv s" and hand: "in_hand i s"
    and res: "reord_station_unit vif bus_up mem skb tid i s = Inr (r, s')"
  shows "reord_inv s' \<and> (if r = 0 then rx_pool s' = add_mset i (rx_pool s) else rx_pool s' = rx_pool s)"
proof (cases "skb ! 12 = 0x88 \<and> skb ! 13 = 0x8e")
  case True
  then have u: "(r, s') = reord_single_frame_ind i s" using res by (simp add: reord_station_unit_def)
  have "seq_of s' = seq_of s" "stas_reord_list s' = stas_reord_list s" "r = 0"
    "rxframes_freequeue s' = i # rxframes_freequeue s" "\<And>j. j \<noteq> i \<Longrightarrow> recv_frames s' j = recv_frames s j"
    using u hand by (auto simp: in_hand_def reord_single_frame_ind_def Let_def reord_rxframe_free_def)
  with return_entry [OF inv hand, of s'] show ?thesis by simp
next
  case npae: False
  show ?thesis
  proof (cases "reord_mac vif skb")
    case None
    with res npae inv show ?thesis by (auto simp: reord_station_unit_def)
  next
    case mac: (Some mac)
    show ?thesis
    proof (cases "sta_index mac (stas_reord_list s)")
      case None
      note new = add_station [OF inv None]
      let ?u = "s\<lparr>stas_reord_list := stas_reord_list s @ [(mac, \<lambda>_. reord_ctrl_init)]\<rparr>"
      have "in_hand i ?u" by (rule in_hand_cong [OF new(2) _ hand]) simp
      with res npae mac None inv new window_unit_keeps [of ?u i "length (stas_reord_list s)" "unat tid" r s'] show ?thesis
        by (auto simp: reord_station_unit_def reord_init_sta_def split: if_splits)
    next
      case (Some k)
      then have k: "k < length (stas_reord_list s)" using sta_index_Some by blast
      have t: "unat tid < 8" using res npae mac Some by (auto simp: reord_station_unit_def split: if_splits)
      note en = enable_window [OF inv k t]
      note hand' = in_hand_cong [OF en(2) _ hand, simplified]
      from window_unit_keeps [OF en(1) hand' _ t en(3), of r s'] en(2) res npae mac Some k t show ?thesis
        by (simp add: reord_station_unit_def Let_def)
    qed
  qed
qed

lemma process_unit_keeps:
  assumes inv: "reord_inv s" and sn: "sn_ok sn"
    and res: "reord_process_unit vif bus_up mem skb sn tid fwd amsdu s = Inr (r, s')"
  shows "reord_inv s' \<and> rx_pool s' \<subseteq># rx_pool s \<and> (r = 0 \<longrightarrow> rx_pool s' = rx_pool s)"
proof (cases "vif = None \<or> length skb \<le> 14 \<or> rxframes_freequeue s = []")
  case True
  then have "r = -1 \<and> s' = kfree_skb skb s"
    using res by (auto simp: reord_process_unit_def reord_rxframe_alloc_def split: option.splits if_splits)
  with inv show ?thesis by simp
next
  case False
  then obtain i s0 ty where a: "reord_rxframe_alloc s = (Some i, s0)" "vif = Some ty"
    by (cases "rxframes_freequeue s") (auto simp: reord_rxframe_alloc_def)
  let ?m = "\<lparr>pkt = Some skb, rx_tid = tid, seq_num = sn, forward = fwd, is_amsdu = amsdu\<rparr>"
  let ?s = "s0\<lparr>recv_frames := (recv_frames s0)(i := ?m)\<rparr>"
  have s1: "reord_inv ?s" "in_hand i ?s" "rx_pool s = add_mset i (rx_pool ?s)"
    using alloc_fill [OF inv a(1), of ?m] sn by simp_all
  have "reord_station_unit ty bus_up mem skb tid i ?s = Inr (r, s')"
    using res False a by (simp add: reord_process_unit_def)
  from station_unit_keeps [OF s1(1,2) this] s1(3) show ?thesis by (simp split: if_splits)
qed

lemma deliver_part:
  assumes inv: "reord_inv s" and kt: "k < length (stas_reord_list s)" "t < 8"
    and l: "reord_list (get_ctrl k t s) = out @ rest" "reord_list pc = rest"
    and pc: "window_inv (seq_of s) pc" "enable pc \<or> rest = []"
  defines "u \<equiv> set_ctrl k t pc (deliver out s)"
  shows "reord_inv u" "rx_pool u = rx_pool s" "rx_up u = rx_up s @ up_of s out" "rx_freed u = rx_freed s @ freed_of s out"
proof -
  let ?l = "reord_list (get_ctrl k t s)"
  have c: "ctrl_inv s (get_ctrl k t s)" using inv kt by (simp add: reord_inv_def)
  have d: "distinct out" "\<forall>j \<in> set out. pkt (recv_frames s j) \<noteq> None" "set out \<inter> set rest = {}"
    using window_entries(1) [OF inv kt] c l by (auto simp: ctrl_inv_def)
  note del = deliver_effect [OF d(1,2)]
  show "rx_up u = rx_up s @ up_of s out" "rx_freed u = rx_freed s @ freed_of s out" using del by (simp_all add: u_def)
  have "rx_pool u + mset ?l = rx_pool (deliver out s) + mset rest"
    using rx_pool_set_ctrl [of k "deliver out s" t pc] kt l(2) by (simp add: u_def get_ctrl_def)
  also have "\<dots> = rx_pool s + mset ?l" using del l(1) by (simp add: rx_pool_def pending_def ac_simps)
  finally show pool: "rx_pool u = rx_pool s" by simp
  have "recv_frames (deliver out s) j = recv_frames s j" if "j \<in> set rest" for j
    using d(3) that by (intro deliver_other) auto
  then have "ctrl_inv (deliver out s) pc" using c l pc by (auto simp: ctrl_inv_def)
  then show "reord_inv u"
    unfolding u_def using inv pool l
    by (intro update_window [OF inv kt, of _ "set out"]) (auto simp: u_def reord_inv_def deliver_other)
qed

lemma worker_keeps:
  assumes inv: "reord_inv s" and kt: "k < length (stas_reord_list s)" "t < 8"
  defines "u \<equiv> reord_timeout_worker k t s"
  shows "reord_inv u \<and> rx_pool u = rx_pool s \<and>
    (\<exists>out rest. reord_list (get_ctrl k t s) = out @ rest \<and> reord_list (get_ctrl k t u) = rest \<and>
       rx_up u = rx_up s @ up_of s out \<and> rx_freed u = rx_freed s @ freed_of s out \<and>
       (reord_list (get_ctrl k t s) \<noteq> [] \<longrightarrow> out \<noteq> []) \<and> (rest \<noteq> [] \<longrightarrow> reord_timer (get_ctrl k t u)))"
proof -
  let ?pc = "(get_ctrl k t s)\<lparr>reord_work := False\<rparr>"
  have c: "ctrl_inv s (get_ctrl k t s)" using inv kt by (simp add: reord_inv_def)
  then have w: "window_inv (seq_of s) ?pc" by (simp add: ctrl_inv_def window_inv_def)
  obtain hole pc2 where prc: "reord_rxframes_process (seq_of s) True ?pc = (hole, pc2)" by fastforce
  show ?thesis
  proof (cases "reord_list (get_ctrl k t s) = []")
    case True
    then have "hole = False" "pc2 = ?pc" using prc by (simp_all add: reord_rxframes_process_def)
    then have u: "u = set_ctrl k t (?pc\<lparr>reord_list := []\<rparr>) (deliver [] s)"
      using True prc by (simp add: u_def reord_timeout_worker_def)
    have "window_inv (seq_of s) (?pc\<lparr>reord_list := []\<rparr>)" using w True by (simp add: window_inv_def split: if_splits)
    from deliver_part [OF inv kt, of "[]" "[]" "?pc\<lparr>reord_list := []\<rparr>"] this True kt show ?thesis
      unfolding u by (simp add: get_set_ctrl)
  next
    case False
    then have ne: "reord_list ?pc \<noteq> []" by simp
    define out where "out = takeWhile (\<lambda>j. \<not> SN_LESS (ind_sn pc2) (seq_of s j)) (reord_list ?pc)"
    define rest where "rest = dropWhile (\<lambda>j. \<not> SN_LESS (ind_sn pc2) (seq_of s j)) (reord_list ?pc)"
    note f = window_forced [OF w ne prc, folded out_def rest_def]
    have u: "u = set_ctrl k t (pc2\<lparr>reord_list := rest, reord_timer := hole \<or> reord_timer pc2\<rparr>) (deliver out s)"
      using prc f(3) by (simp add: u_def reord_timeout_worker_def rxframes_ind_split out_def rest_def)
    have l: "reord_list (get_ctrl k t s) = out @ rest" by (simp add: out_def rest_def)
    let ?pc' = "pc2\<lparr>reord_list := rest, reord_timer := hole \<or> reord_timer pc2\<rparr>"
    have "enable ?pc' \<or> rest = []" using c False f(5) by (simp add: ctrl_inv_def)
    from deliver_part [OF inv kt l _ f(1) this] l kt f(2,4) show ?thesis
      unfolding u by (intro conjI exI [of _ out] exI [of _ rest]) (auto simp: get_set_ctrl)
  qed
qed

lemma flush_keeps:
  assumes inv: "reord_inv s" and res: "reord_flush_tid vif skb tid s = Inr (0, u)"
    and k: "reord_mac vif skb = Some mac" "sta_index mac (stas_reord_list s) = Some k"
  shows "reord_inv u \<and> rx_pool u = rx_pool s \<and> reord_list (get_ctrl k (unat tid) u) = [] \<and>
    \<not> enable (get_ctrl k (unat tid) u) \<and>
    rx_up u = rx_up s @ up_of s (reord_list (get_ctrl k (unat tid) s))"
proof -
  have kt: "k < length (stas_reord_list s)" "unat tid < 8"
    using res k sta_index_Some by (auto simp: reord_flush_tid_def split: if_splits)
  let ?pc = "get_ctrl k (unat tid) s"
  have c: "ctrl_inv s ?pc" using inv kt by (simp add: reord_inv_def)
  show ?thesis
  proof (cases "enable ?pc")
    case False
    then have "u = s" using res k kt by (simp add: reord_flush_tid_def)
    with False inv c show ?thesis by (simp add: ctrl_inv_def up_of_def)
  next
    case True
    let ?pc' = "?pc\<lparr>reord_list := [], enable := False, reord_timer := False, reord_work := False\<rparr>"
    have u: "u = set_ctrl k (unat tid) ?pc' (deliver (reord_list ?pc) s)"
      using res k kt True by (simp add: reord_flush_tid_def deliver_def Let_def)
    have "window_inv (seq_of s) ?pc'" using c by (auto simp: ctrl_inv_def window_inv_def)
    from deliver_part [OF inv kt, of "reord_list ?pc" "[]" ?pc'] this kt show ?thesis
      unfolding u by (simp add: get_set_ctrl)
  qed
qed

lemma drop_frames_simps:
  "stas_reord_list (fold drop_frame js s) = stas_reord_list s"
  "rxframes_freequeue (fold drop_frame js s) = rev js @ rxframes_freequeue s"
  "j \<notin> set js \<Longrightarrow> recv_frames (fold drop_frame js s) j = recv_frames s j"
  by (induction js arbitrary: s) auto

lemma deinit_windows:
  "fold (\<lambda>t u. reord_deinit_ctrl (f t) u) ts s = fold drop_frame (concat (map (\<lambda>t. reord_list (f t)) ts)) s"
  by (induction ts arbitrary: s) (simp_all add: reord_deinit_ctrl_def)

lemma mset_concat_windows: "mset (concat (map (\<lambda>t. reord_list (f t)) ts)) = sum_list (map (\<lambda>t. mset (reord_list (f t))) ts)"
  by (induction ts) simp_all

lemma sum_list_remove_nth:
  fixes xs :: "'a multiset list"
  shows "k < length xs \<Longrightarrow> sum_list xs = xs ! k + sum_list (take k xs @ drop (Suc k) xs)"
  by (subst id_take_nth_drop [of k xs]) (simp_all add: ac_simps del: sum_list_append add: sum_list_append)

lemma deinit_keeps:
  assumes inv: "reord_inv s" and k: "k < length (stas_reord_list s)"
  defines "u \<equiv> reord_deinit_sta k s"
  shows "reord_inv u \<and> rx_pool u = rx_pool s \<and> length (stas_reord_list u) = length (stas_reord_list s) - 1"
proof -
  let ?f = "snd (stas_reord_list s ! k)"
  define js where "js = concat (map (\<lambda>t. reord_list (?f t)) [0..<8])"
  let ?v = "fold drop_frame js s"
  let ?st = "take k (stas_reord_list s) @ drop (Suc k) (stas_reord_list s)"
  have u: "u = ?v\<lparr>stas_reord_list := ?st\<rparr>"
  proof -
    have "fold (\<lambda>t u. reord_deinit_ctrl (get_ctrl k t s) u) [0..<8] s = ?v"
      unfolding deinit_windows js_def get_ctrl_def by (rule refl)
    then show ?thesis unfolding u_def reord_deinit_sta_def Let_def by (simp add: drop_frames_simps)
  qed
  have js: "mset js = ctrl_pending ?f" by (simp add: js_def mset_concat_windows ctrl_pending_def del: upt.simps)
  have "pending s = ctrl_pending ?f + sum_list (map (\<lambda>x. ctrl_pending (snd x)) ?st)"
    using sum_list_remove_nth [of k "map (\<lambda>x. ctrl_pending (snd x)) (stas_reord_list s)"] k
    by (simp add: pending_def take_map drop_map)
  then have pool: "rx_pool u = rx_pool s"
    using js by (simp add: rx_pool_def u pending_def drop_frames_simps)
  have "ctrl_inv u (get_ctrl k' t u)" if kt: "k' < length ?st" "t < 8" for k' t
  proof -
    define m where "m = (if k' < k then k' else Suc k')"
    have m: "m < length (stas_reord_list s)" "m \<noteq> k" and g: "get_ctrl k' t u = get_ctrl m t s"
      using kt k by (auto simp: m_def u get_ctrl_def nth_append)
    have "recv_frames u j = recv_frames s j" if j: "j \<in> set (reord_list (get_ctrl m t s))" for j
    proof -
      have "j \<notin> set (reord_list (get_ctrl k t' s))" if "t' < 8" for t'
        using windows_disjoint [of s m t k t' j] inv m k kt(2) that j by (simp add: reord_inv_def)
      then have "j \<notin> set js" by (auto simp: js_def get_ctrl_def)
      then show ?thesis by (simp add: u drop_frames_simps)
    qed
    moreover have "ctrl_inv s (get_ctrl m t s)" using inv m kt(2) by (simp add: reord_inv_def)
    ultimately show ?thesis unfolding g by (rule ctrl_inv_entries)
  qed
  moreover have "distinct (map fst ?st)"
    using inv k unfolding reord_inv_def by (subst (asm) id_take_nth_drop [OF k]) simp
  ultimately have "reord_inv u" using inv pool by (simp add: reord_inv_def u)
  with pool k show ?thesis by (simp add: u)
qed

lemma rx_init_inv: "reord_inv aicwf_rx_init" "rx_pool aicwf_rx_init = mset [0..<MAX_REORD_RXFRAME]"
proof -
  have q: "aicwf_rxframe_queue_init n = rev [0..<n]" for n
    by (simp add: aicwf_rxframe_queue_init_def fold_Cons_rev)
  then show p: "rx_pool aicwf_rx_init = mset [0..<MAX_REORD_RXFRAME]"
    by (simp add: rx_pool_def pending_def aicwf_rx_init_def)
  have "count (mset [0..<MAX_REORD_RXFRAME]) i \<le> 1" for i
    using distinct_count_atmost_1 [of "[0..<MAX_REORD_RXFRAME]"] by auto
  then show "reord_inv aicwf_rx_init" unfolding reord_inv_def p by (simp add: aicwf_rx_init_def)
qed

definition taken_frames :: "aicwf_rx_priv \<Rightarrow> nat set" where
  "taken_frames s = {0..<MAX_REORD_RXFRAME} - set (rxframes_freequeue s)"

definition freequeue_wf :: "aicwf_rx_priv \<Rightarrow> bool" where
  "freequeue_wf s \<longleftrightarrow> distinct (rxframes_freequeue s) \<and> set (rxframes_freequeue s) \<subseteq> {0..<MAX_REORD_RXFRAME}"

interpretation rx_frames: pool reord_rxframe_alloc reord_rxframe_free taken_frames "{0..<MAX_REORD_RXFRAME}" freequeue_wf
  by unfold_locales
    (auto simp: reord_rxframe_alloc_def reord_rxframe_free_def taken_frames_def freequeue_wf_def split: list.splits)

section \<open>Properties\<close>

text \<open>
  A short history for the witnesses: a station is seen with sequence number 5, then 7 arrives and
  waits for 6.
\<close>

definition w_skb :: "u8 list" where
  "w_skb = [2, 0, 0, 0, 0, 1] @ [2, 0, 0, 0, 0, 9] @ [8, 0] @ replicate 40 1"

definition w_rx0 :: aicwf_rx_priv where
  "w_rx0 = aicwf_rx_init\<lparr>rxframes_freequeue := [0, 1, 2, 3]\<rparr>"

definition w_recv :: "u16 \<Rightarrow> u8 \<Rightarrow> aicwf_rx_priv \<Rightarrow> int \<times> aicwf_rx_priv" where
  "w_recv sn tid s = (case reord_process_unit (Some NL80211_IFTYPE_STATION) True True w_skb sn tid True False s of
     Inr x \<Rightarrow> x | Inl _ \<Rightarrow> (-2, s))"

definition w_rx1 :: aicwf_rx_priv where "w_rx1 = snd (w_recv 5 0 w_rx0)"
definition w_rx2 :: aicwf_rx_priv where "w_rx2 = snd (w_recv 7 0 w_rx1)"

lemma w_recv_ok:
  "fst (w_recv 5 0 w_rx0) = 0" "fst (w_recv 7 0 w_rx1) = 0"
  "length (stas_reord_list w_rx2) = 1" "reord_list (get_ctrl 0 0 w_rx2) = [0]" "ind_sn (get_ctrl 0 0 w_rx2) = 6"
  "length (rx_up w_rx2) = 1"
  by code_simp+

lemma w_recv_unit: "fst (w_recv sn tid s) = 0 \<Longrightarrow>
  reord_process_unit (Some NL80211_IFTYPE_STATION) True True w_skb sn tid True False s = Inr (0, snd (w_recv sn tid s))"
  by (auto simp: w_recv_def split: sum.splits)

lemma w_rx0_inv: "reord_inv w_rx0"
  by (auto simp: reord_inv_def rx_pool_def pending_def w_rx0_def aicwf_rx_init_def MAX_REORD_RXFRAME_def)

lemma w_rx2_inv: "reord_inv w_rx2"
proof -
  have "reord_inv w_rx1"
    using process_unit_keeps [OF w_rx0_inv _ w_recv_unit [OF w_recv_ok(1)]] by (simp add: w_rx1_def sn_ok_def)
  then show ?thesis
    using process_unit_keeps [OF _ _ w_recv_unit [OF w_recv_ok(2)]] by (simp add: w_rx2_def sn_ok_def)
qed

text \<open>
  C8: receiving a frame keeps the reorder state good: every window stays sorted within 63 numbers
  of its head, no entry is in two places, and a call that returns 0 loses none of the 250 entries.
\<close>

theorem reord_process_unit_safe:
  assumes "reord_inv s" "sn_ok sn"
    and "reord_process_unit vif bus_up mem skb sn tid fwd amsdu s = Inr (r, s')"
  shows "reord_inv s' \<and> (r = 0 \<longrightarrow> rx_pool s' = rx_pool s)"
  using process_unit_keeps [OF assms] by blast

theorem reord_process_unit_safe_witness: "reord_inv (snd (w_recv 6 0 w_rx2)) \<and> fst (w_recv 6 0 w_rx2) = 0"
proof -
  have z: "fst (w_recv 6 0 w_rx2) = 0" by code_simp
  have "sn_ok 6" by (simp add: sn_ok_def)
  with reord_process_unit_safe [OF w_rx2_inv _ w_recv_unit [OF z]] z show ?thesis by blast
qed

text \<open>
  C7: frames leave a window in sequence order.  When a frame that is neither old nor a duplicate
  is put into a window, the frames handed up together with those left behind are the old content
  and the new frame, in ascending order; every frame handed up is older than the new head of the
  window, every frame left behind is newer, and the timer runs exactly when some are left behind.
\<close>

theorem reord_in_order:
  assumes inv: "reord_inv s" and hand: "in_hand i s" and kt: "k < length (stas_reord_list s)" "t < 8"
    and en: "enable (get_ctrl k t s)" and res: "reord_window_unit k t i s = Inr (r, s')"
    and new: "sn_off (window_base (get_ctrl k t s) (seq_of s i)) (seq_of s i) < 2048"
    and dup: "seq_of s i \<notin> seq_of s ` set (reord_list (get_ctrl k t s))"
  shows "\<exists>out rest. let off = (\<lambda>sn. sn_off (window_base (get_ctrl k t s) (seq_of s i)) sn); pc' = get_ctrl k t s' in
    mset (out @ rest) = add_mset i (mset (reord_list (get_ctrl k t s))) \<and>
    rx_up s' = rx_up s @ up_of s out \<and> reord_list pc' = rest \<and>
    sorted_wrt (<) (map (\<lambda>j. off (seq_of s j)) (out @ rest)) \<and>
    (\<forall>j \<in> set out. off (seq_of s j) < off (ind_sn pc')) \<and> (\<forall>j \<in> set rest. off (ind_sn pc') < off (seq_of s j)) \<and>
    (reord_timer pc' \<longleftrightarrow> rest \<noteq> [])"
proof -
  let ?pc = "get_ctrl k t s" and ?off = "\<lambda>sn. sn_off (window_base (get_ctrl k t s) (seq_of s i)) sn"
  have w: "window_inv (seq_of s) ?pc" using inv kt by (simp add: reord_inv_def ctrl_inv_def)
  have sn: "sn_ok (seq_of s i)" using hand by (simp add: in_hand_def)
  obtain pc1 where chk: "reord_need_check ?pc (seq_of s i) = (False, pc1)"
    using need_check_late [of ?pc "seq_of s i"] new by (cases "reord_need_check ?pc (seq_of s i)") auto
  have l1: "reord_list pc1 = reord_list ?pc" using need_check_advance [OF w sn chk] by simp
  note old = window_offsets [OF w sn]
  have "\<forall>j \<in> set (reord_list ?pc). sn_ok (seq_of s j) \<and> 0 \<le> ?off (seq_of s j) \<and> ?off (seq_of s j) < 0 + 2048"
    using old(2) by auto
  from enqueue_spec [OF old(1) this sn] new dup sn_off_range obtain l where
    enq: "reord_rxframe_enqueue (seq_of s) i (reord_list pc1) = Some l"
    unfolding l1 by (cases "reord_rxframe_enqueue (seq_of s) i (reord_list ?pc)") (auto simp: image_iff)
  obtain hole pc2 where prc: "reord_rxframes_process (seq_of s) False (pc1\<lparr>reord_list := l\<rparr>) = (hole, pc2)" by fastforce
  define out where "out = takeWhile (\<lambda>j. \<not> SN_LESS (ind_sn pc2) (seq_of s j)) l"
  define rest where "rest = dropWhile (\<lambda>j. \<not> SN_LESS (ind_sn pc2) (seq_of s j)) l"
  note ins = window_insert [OF w sn chk enq prc] and acc = window_accept [OF w sn chk enq prc, folded out_def rest_def]
  have s': "s' = set_ctrl k t (pc2\<lparr>reord_list := rest, reord_timer := hole\<rparr>) (deliver out s)"
    using res chk enq prc ins(1) en by (simp add: reord_window_unit_def Let_def rxframes_ind_split out_def rest_def)
  have g: "get_ctrl k t s' = pc2\<lparr>reord_list := rest, reord_timer := hole\<rparr>" using kt by (simp add: s' get_set_ctrl)
  have up: "rx_up s' = rx_up s @ up_of s out"
    using window_unit_accept(2) [OF inv hand kt en chk enq prc] by (simp add: s' out_def)
  have l: "out @ rest = l" by (simp add: out_def rest_def)
  show ?thesis
    using ins(3,7) acc up g l by (intro exI [of _ out] exI [of _ rest]) (simp add: Let_def)
qed

text \<open>For the witness: the missing frame 6 arrives, in an entry taken from the pool.\<close>

definition w_rx3 :: aicwf_rx_priv where
  "w_rx3 = (case reord_rxframe_alloc w_rx2 of (_, s) \<Rightarrow>
     s\<lparr>recv_frames := (recv_frames s)(1 := \<lparr>pkt = Some w_skb, rx_tid = 0, seq_num = 6, forward = True, is_amsdu = False\<rparr>)\<rparr>)"

definition w_rx4 :: aicwf_rx_priv where
  "w_rx4 = (case reord_window_unit 0 0 1 w_rx3 of Inr x \<Rightarrow> snd x | Inl _ \<Rightarrow> w_rx3)"

lemma w_rx3_facts:
  "reord_inv w_rx3" "in_hand 1 w_rx3" "0 < length (stas_reord_list w_rx3)" "enable (get_ctrl 0 0 w_rx3)"
  "reord_window_unit 0 0 1 w_rx3 = Inr (0, w_rx4)"
proof -
  have "map_option (\<lambda>x. x) (fst (reord_rxframe_alloc w_rx2)) = Some 1" by code_simp
  then have a: "reord_rxframe_alloc w_rx2 = (Some 1, snd (reord_rxframe_alloc w_rx2))" by (simp add: prod_eq_iff)
  have "w_rx3 = (snd (reord_rxframe_alloc w_rx2))\<lparr>recv_frames := (recv_frames (snd (reord_rxframe_alloc w_rx2)))
      (1 := \<lparr>pkt = Some w_skb, rx_tid = 0, seq_num = 6, forward = True, is_amsdu = False\<rparr>)\<rparr>"
    by (simp add: w_rx3_def case_prod_unfold)
  with alloc_fill [OF w_rx2_inv a, of "\<lparr>pkt = Some w_skb, rx_tid = 0, seq_num = 6, forward = True, is_amsdu = False\<rparr>"]
  show "reord_inv w_rx3" "in_hand 1 w_rx3" by (simp_all add: sn_ok_def)
  show "0 < length (stas_reord_list w_rx3)" by code_simp
  show "enable (get_ctrl 0 0 w_rx3)" by code_simp
  have "case reord_window_unit 0 0 1 w_rx3 of Inr x \<Rightarrow> fst x = 0 | Inl _ \<Rightarrow> False" by code_simp
  then show "reord_window_unit 0 0 1 w_rx3 = Inr (0, w_rx4)" by (auto simp: w_rx4_def split: sum.splits)
qed

theorem reord_in_order_witness:
  "\<exists>out rest. mset (out @ rest) = {#1, 0#} \<and> rx_up w_rx4 = rx_up w_rx3 @ up_of w_rx3 out \<and>
     reord_list (get_ctrl 0 0 w_rx4) = rest"
proof -
  have "sn_off (window_base (get_ctrl 0 0 w_rx3) (seq_of w_rx3 1)) (seq_of w_rx3 1) < 2048" by code_simp
  moreover have "reord_list (get_ctrl 0 0 w_rx3) = [0]" by code_simp
  moreover have "seq_of w_rx3 0 \<noteq> seq_of w_rx3 1" by code_simp
  ultimately show ?thesis
    using reord_in_order [OF w_rx3_facts(1-3) _ w_rx3_facts(4,5)] by (fastforce simp: Let_def)
qed

text \<open>
  C9: a missing frame cannot hold back the others for ever.  When the timer of a window that holds
  frames has fired, its work item hands up at least the oldest of them, in order, and if some are
  left the timer is armed again; no entry is lost.
\<close>

theorem reord_timeout_progress:
  assumes "reord_inv s" "k < length (stas_reord_list s)" "t < 8" "reord_list (get_ctrl k t s) \<noteq> []"
  shows "\<exists>out rest. let u = reord_timeout_worker k t (reord_timeout_handler k t s) in
    out \<noteq> [] \<and> reord_list (get_ctrl k t s) = out @ rest \<and> reord_list (get_ctrl k t u) = rest \<and>
    rx_up u = rx_up s @ up_of s out \<and> (rest \<noteq> [] \<longrightarrow> reord_timer (get_ctrl k t u)) \<and>
    reord_inv u \<and> rx_pool u = rx_pool s"
proof -
  let ?h = "reord_timeout_handler k t s"
  have c: "ctrl_inv s (get_ctrl k t s)" using assms by (simp add: reord_inv_def)
  have h: "?h = set_ctrl k t ((get_ctrl k t s)\<lparr>reord_timer := False, reord_work := True\<rparr>) s"
    by (simp add: reord_timeout_handler_def)
  have w: "window_inv (seq_of s) ((get_ctrl k t s)\<lparr>reord_timer := False, reord_work := True\<rparr>)"
    using c by (simp add: ctrl_inv_def window_inv_def)
  have inv: "reord_inv ?h" "rx_pool ?h = rx_pool s" "rx_up ?h = rx_up s"
    using deliver_part [OF assms(1-3), of "[]" "reord_list (get_ctrl k t s)"
        "(get_ctrl k t s)\<lparr>reord_timer := False, reord_work := True\<rparr>"] w c
    by (auto simp: h ctrl_inv_def up_of_def)
  have l: "length (stas_reord_list ?h) = length (stas_reord_list s)"
    "reord_list (get_ctrl k t ?h) = reord_list (get_ctrl k t s)" "up_of ?h = up_of s"
    using assms(2,3) by (simp_all add: h get_set_ctrl up_of_def fun_eq_iff)
  show ?thesis
    using worker_keeps [OF inv(1), of k t] assms(2-4) unfolding inv l Let_def by blast
qed

theorem reord_timeout_progress_witness:
  "\<exists>rest. reord_list (get_ctrl 0 0 (reord_timeout_worker 0 0 (reord_timeout_handler 0 0 w_rx2))) = rest \<and> [0] \<noteq> rest"
proof -
  have "0 < length (stas_reord_list w_rx2)" "reord_list (get_ctrl 0 0 w_rx2) \<noteq> []" using w_recv_ok by simp_all
  from reord_timeout_progress [OF w_rx2_inv this(1) _ this(2)] show ?thesis
    by (auto simp: Let_def w_recv_ok)
qed

text \<open>
  Flushing a window (a frame arrives outside of a block-ack session) hands up every frame it
  holds, oldest first, leaves it empty and disabled, and returns every entry to the pool.
\<close>

theorem reord_flush_in_order:
  assumes "reord_inv s" "reord_flush_tid vif skb tid s = Inr (0, u)"
    and "reord_mac vif skb = Some mac" "sta_index mac (stas_reord_list s) = Some k"
  shows "reord_inv u \<and> rx_pool u = rx_pool s \<and> reord_list (get_ctrl k (unat tid) u) = [] \<and>
    \<not> enable (get_ctrl k (unat tid) u) \<and>
    rx_up u = rx_up s @ up_of s (reord_list (get_ctrl k (unat tid) s)) \<and>
    sorted_wrt (<) (map (\<lambda>j. sn_off (ind_sn (get_ctrl k (unat tid) s)) (seq_of s j)) (reord_list (get_ctrl k (unat tid) s)))"
proof -
  have "k < length (stas_reord_list s)" "unat tid < 8"
    using assms sta_index_Some by (auto simp: reord_flush_tid_def split: if_splits)
  then have "window_inv (seq_of s) (get_ctrl k (unat tid) s)" using assms(1) by (simp add: reord_inv_def ctrl_inv_def)
  then have "sorted_wrt (<) (map (\<lambda>j. sn_off (ind_sn (get_ctrl k (unat tid) s)) (seq_of s j)) (reord_list (get_ctrl k (unat tid) s)))"
    by (auto simp: window_inv_def split: if_splits)
  with flush_keeps [OF assms] show ?thesis by blast
qed

theorem reord_flush_in_order_witness:
  "\<exists>u. reord_flush_tid NL80211_IFTYPE_STATION w_skb 0 w_rx2 = Inr (0, u) \<and>
     length (rx_up u) = 2 \<and> reord_list (get_ctrl 0 0 u) = []"
proof -
  have "case reord_flush_tid NL80211_IFTYPE_STATION w_skb 0 w_rx2 of Inr x \<Rightarrow> fst x = 0 | Inl _ \<Rightarrow> False" by code_simp
  then obtain u where u: "reord_flush_tid NL80211_IFTYPE_STATION w_skb 0 w_rx2 = Inr (0, u)"
    by (auto split: sum.splits)
  have k: "reord_mac NL80211_IFTYPE_STATION w_skb = Some (take 6 w_skb)" by (simp add: reord_mac_def)
  have "sta_index (take 6 w_skb) (stas_reord_list w_rx2) = Some 0" by code_simp
  from reord_flush_in_order [OF w_rx2_inv u k this] w_recv_ok
  have "reord_list (get_ctrl 0 0 u) = []" "rx_up u = rx_up w_rx2 @ up_of w_rx2 [0]" by simp_all
  moreover have "length (up_of w_rx2 [0]) = 1" by code_simp
  ultimately show ?thesis using u w_recv_ok by (metis length_append one_add_one)
qed

text \<open>
  Removing a station returns all the entries its eight windows hold to the pool and keeps the
  windows of every other station good.
\<close>

theorem reord_deinit_returns_all:
  assumes "reord_inv s" "k < length (stas_reord_list s)"
  shows "reord_inv (reord_deinit_sta k s) \<and> rx_pool (reord_deinit_sta k s) = rx_pool s \<and>
    length (stas_reord_list (reord_deinit_sta k s)) = length (stas_reord_list s) - 1"
  using deinit_keeps [OF assms] by simp

theorem reord_deinit_returns_all_witness:
  "reord_inv (reord_deinit_sta 0 w_rx2) \<and> stas_reord_list (reord_deinit_sta 0 w_rx2) = []"
  using reord_deinit_returns_all [OF w_rx2_inv, of 0] w_recv_ok by simp



text \<open>
  A traffic identifier of 8 or more from the frame header indexes past the eight windows of a
  known station.
\<close>

theorem reord_tid_out_of_bounds:
  assumes "rxframes_freequeue s \<noteq> []" "length skb > 14" "\<not> (skb ! 12 = 0x88 \<and> skb ! 13 = 0x8e)"
    and "reord_mac ty skb = Some mac" "sta_index mac (stas_reord_list s) = Some k" "8 \<le> unat tid"
  shows "reord_process_unit (Some ty) bus_up mem skb sn tid fwd amsdu s = Inl Out_Of_Bounds"
  using assms by (auto simp: reord_process_unit_def reord_rxframe_alloc_def reord_station_unit_def neq_Nil_conv)

theorem reord_tid_out_of_bounds_witness:
  "reord_process_unit (Some NL80211_IFTYPE_STATION) True True w_skb 8 15 True False w_rx2 = Inl Out_Of_Bounds"
proof (rule reord_tid_out_of_bounds)
  show "rxframes_freequeue w_rx2 \<noteq> []" by code_simp
  show "length w_skb > 14" "\<not> (w_skb ! 12 = 0x88 \<and> w_skb ! 13 = 0x8e)" by code_simp+
  show "reord_mac NL80211_IFTYPE_STATION w_skb = Some (take 6 w_skb)" by (simp add: reord_mac_def)
  show "sta_index (take 6 w_skb) (stas_reord_list w_rx2) = Some 0" by code_simp
qed simp

end
