(* ===== verification/Tcp_Ack.thy ===== *)
theory Tcp_Ack
  imports Aic_Prelude
begin

text \<open>
  The filter for TCP acknowledgements, aicwf\_tcp\_ack.c and aicwf\_tcp\_ack.h, with the code of
  rwnx\_start\_xmit and intf\_tx (rwnx\_tx.c) that calls it.  The filter keeps one slot per TCP flow.
  A pure acknowledgement of a known flow is held back in its slot for at most five milliseconds; a
  newer acknowledgement of the flow replaces it, and the older one is freed.  The state has the
  slots, the clock, the allocated message buffers with their packets, and logs of the packets
  taken from the network stack, passed on for transmission and freed.  A packet is the list of its
  bytes and a read past its end is \<open>Out_Of_Bounds\<close>.
\<close>

section \<open>Data\<close>

definition TCP_ACK_NUM :: nat where "TCP_ACK_NUM = 32"
definition TCP_ACK_DROP_CNT :: int where [simp]: "TCP_ACK_DROP_CNT = 10"
definition ACK_OLD_TIME :: int where [simp]: "ACK_OLD_TIME = 4000"
definition MAX_TCP_ACK :: int where [simp]: "MAX_TCP_ACK = 200"
definition MIN_WIN :: u32 where [simp]: "MIN_WIN = 256"
definition SIZE_KB :: u32 where [simp]: "SIZE_KB = 1024"

text \<open>\<open>U32_BEFORE\<close>: the signed 32-bit difference is not positive.\<close>

definition U32_BEFORE :: "u32 \<Rightarrow> u32 \<Rightarrow> bool" where
  "U32_BEFORE a b \<longleftrightarrow> sint (a - b) \<le> 0"

text \<open>
  The kernel's clock: the tick rates one can configure, \<open>msecs_to_jiffies\<close>, which rounds up, and
  \<open>time_after\<close>.
\<close>

datatype config_hz = HZ_100 | HZ_250 | HZ_300 | HZ_1000

primrec hz_of :: "config_hz \<Rightarrow> int" where
  "hz_of HZ_100 = 100" | "hz_of HZ_250 = 250" | "hz_of HZ_300 = 300" | "hz_of HZ_1000 = 1000"

definition msecs_to_jiffies :: "config_hz \<Rightarrow> int \<Rightarrow> u64" where
  "msecs_to_jiffies hz m = word_of_int ((m * hz_of hz + 999) div 1000)"

definition time_after :: "u64 \<Rightarrow> u64 \<Rightarrow> bool" where
  "time_after a b \<longleftrightarrow> sint (b - a) < 0"

record tcp_ack_msg =
  source :: u16
  dest :: u16
  saddr :: u32
  daddr :: u32
  seq :: u32
  win :: u16

text \<open>
  \<open>struct tcp_ack_info\<close>, a slot.  \<open>timer\<close> is the time the pending timer expires, None when it is
  not pending.  \<open>msgbuf\<close> and \<open>in_send_msg\<close> are message buffers by number.  The index
  \<open>ack_info_num\<close> is the slot's position in the list of slots.
\<close>

record tcp_ack_info =
  busy :: bool
  drop_cnt :: int
  psh_flag :: bool
  psh_seq :: u32
  win_scale :: u16
  last_time :: u64
  timeout :: u64
  timer :: "u64 option"
  msgbuf :: "nat option"
  in_send_msg :: "nat option"
  ack_msg :: tcp_ack_msg

record tcp_ack_manage =
  enable :: bool
  max_num :: int
  free_index :: int
  m_last_time :: u64
  m_timeout :: u64
  max_drop_cnt :: int
  ack_info :: "tcp_ack_info list"
  ack_winsize :: u32

record ack_sys =
  ack_m :: tcp_ack_manage
  jiffies :: u64
  msgs :: "nat \<Rightarrow> u8 list option"
  given :: "u8 list list"
  sent :: "u8 list list"
  dropped :: "u8 list list"

abbreviation slot :: "ack_sys \<Rightarrow> nat \<Rightarrow> tcp_ack_info" where
  "slot s k \<equiv> ack_info (ack_m s) ! k"

definition set_slot :: "nat \<Rightarrow> tcp_ack_info \<Rightarrow> ack_sys \<Rightarrow> ack_sys" where
  "set_slot k i s = s\<lparr>ack_m := (ack_m s)\<lparr>ack_info := (ack_info (ack_m s))[k := i]\<rparr>\<rparr>"

section \<open>Message buffers\<close>

text \<open>\<open>intf_tcp_alloc_msg\<close>, for a fresh buffer \<open>m\<close>; when no memory is left the code clears a NULL pointer.\<close>

definition intf_tcp_alloc_msg :: "bool \<Rightarrow> nat \<Rightarrow> u8 list \<Rightarrow> ack_sys \<Rightarrow> ack_sys outcome" where
  "intf_tcp_alloc_msg mem m skb s = (if \<not> mem then Inl Null_Deref else Inr (s\<lparr>msgs := (msgs s)(m \<mapsto> skb)\<rparr>))"

text \<open>\<open>intf_tcp_drop_msg\<close>: the packet and the buffer are freed.\<close>

definition intf_tcp_drop_msg :: "nat \<Rightarrow> ack_sys \<Rightarrow> ack_sys outcome" where
  "intf_tcp_drop_msg m s =
     (case msgs s m of None \<Rightarrow> Inl Bad_Free
      | Some skb \<Rightarrow> Inr (s\<lparr>msgs := (msgs s)(m := None), dropped := dropped s @ [skb]\<rparr>))"

text \<open>The buffer alone is freed and the packet goes on to the transmit queues.\<close>

definition send_msg :: "nat \<Rightarrow> ack_sys \<Rightarrow> ack_sys outcome" where
  "send_msg m s =
     (case msgs s m of None \<Rightarrow> Inl Bad_Free
      | Some skb \<Rightarrow> Inr (s\<lparr>msgs := (msgs s)(m := None), sent := sent s @ [skb]\<rparr>))"

definition move_tcpack_msg :: "nat \<Rightarrow> ack_sys \<Rightarrow> ack_sys" where
  "move_tcpack_msg m s =
     (if \<not> enable (ack_m s) then s
      else fold (\<lambda>k t. if busy (slot t k) \<and> in_send_msg (slot t k) = Some m
                       then set_slot k ((slot t k)\<lparr>in_send_msg := None\<rparr>) t else t) [0..<TCP_ACK_NUM] s)"

text \<open>The part of \<open>intf_tx\<close> that ends the life of the message buffer.\<close>

definition intf_tx :: "nat \<Rightarrow> ack_sys \<Rightarrow> ack_sys outcome" where
  "intf_tx m s = send_msg m (move_tcpack_msg m s)"

section \<open>Timer, initialisation and shutdown\<close>

text \<open>\<open>tcp_ack_timeout\<close>: the timer of slot \<open>k\<close> has fired and is no longer pending.\<close>

definition tcp_ack_timeout :: "nat \<Rightarrow> ack_sys \<Rightarrow> ack_sys outcome" where
  "tcp_ack_timeout k s =
     (let i = (slot s k)\<lparr>timer := None\<rparr>
      in case msgbuf i of
           None \<Rightarrow> Inr (set_slot k i s)
         | Some m \<Rightarrow>
             if busy i \<and> in_send_msg i = None
             then intf_tx m (set_slot k (i\<lparr>msgbuf := None, drop_cnt := 0, in_send_msg := Some m\<rparr>) s)
             else Inr (set_slot k i s))"

definition zero_ack_msg :: tcp_ack_msg where
  "zero_ack_msg = \<lparr>source = 0, dest = 0, saddr = 0, daddr = 0, seq = 0, win = 0\<rparr>"

definition tcp_ack_init :: "config_hz \<Rightarrow> u64 \<Rightarrow> tcp_ack_manage" where
  "tcp_ack_init hz now =
     \<lparr>enable = True, max_num = 0, free_index = 0, m_last_time = now, m_timeout = msecs_to_jiffies hz ACK_OLD_TIME,
      max_drop_cnt = TCP_ACK_DROP_CNT,
      ack_info = map (\<lambda>_. \<lparr>busy = False, drop_cnt = 0, psh_flag = False, psh_seq = 0, win_scale = 0, last_time = now,
        timeout = msecs_to_jiffies hz ACK_OLD_TIME, timer = None, msgbuf = None, in_send_msg = None,
        ack_msg = zero_ack_msg\<rparr>) [0..<TCP_ACK_NUM],
      ack_winsize = MIN_WIN\<rparr>"

text \<open>One slot of \<open>tcp_ack_deinit\<close>, then the function.\<close>

definition deinit_slot :: "nat \<Rightarrow> ack_sys \<Rightarrow> ack_sys outcome" where
  "deinit_slot k s =
     (let t = set_slot k ((slot s k)\<lparr>timer := None, msgbuf := None\<rparr>) s
      in case msgbuf (slot s k) of None \<Rightarrow> Inr t | Some m \<Rightarrow> intf_tcp_drop_msg m t)"

definition tcp_ack_deinit :: "ack_sys \<Rightarrow> ack_sys outcome" where
  "tcp_ack_deinit s =
     fold (\<lambda>k r. case r of Inl f \<Rightarrow> Inl f | Inr t \<Rightarrow> deinit_slot k t) [0..<TCP_ACK_NUM]
       (Inr (s\<lparr>ack_m := (ack_m s)\<lparr>enable := False\<rparr>\<rparr>))"

section \<open>Looking into a packet\<close>

definition be16 :: "u8 list \<Rightarrow> nat \<Rightarrow> u16" where
  "be16 b i = push_bit 8 (ucast (b ! i)) OR ucast (b ! (i + 1))"

definition be32 :: "u8 list \<Rightarrow> nat \<Rightarrow> u32" where
  "be32 b i = push_bit 16 (ucast (be16 b i)) OR ucast (be16 b (i + 2))"

text \<open>
  The common start of \<open>tcp_check_quick_ack\<close> and \<open>tcp_check_ack\<close>: the offset of the TCP header of an
  IPv4 TCP packet with the ACK flag, None for any other packet.
\<close>

definition tcp_ack_offset :: "u8 list \<Rightarrow> nat option outcome" where
  "tcp_ack_offset buf =
     (if length buf < 14 then Inl Out_Of_Bounds
      else if \<not> (buf ! 12 = 0x08 \<and> buf ! 13 = 0x00) then Inr None
      else if length buf < 15 then Inl Out_Of_Bounds
      else if drop_bit 4 (buf ! 14) \<noteq> 4 then Inr None
      else if length buf < 24 then Inl Out_Of_Bounds
      else if buf ! 23 \<noteq> 6 then Inr None
      else let off = 14 + unat (buf ! 14 AND 0x0F) * 4
           in if length buf < off + 14 then Inl Out_Of_Bounds
              else if \<not> has (buf ! (off + 13)) 0x10 then Inr None else Inr (Some off))"

text \<open>\<open>tcp_check_quick_ack\<close>: None for the result 0.  The field \<open>win\<close> is not set by the code, and not read.\<close>

definition tcp_check_quick_ack :: "u8 list \<Rightarrow> tcp_ack_msg option outcome" where
  "tcp_check_quick_ack buf =
     (case tcp_ack_offset buf of
        Inl f \<Rightarrow> Inl f
      | Inr None \<Rightarrow> Inr None
      | Inr (Some off) \<Rightarrow>
          if \<not> has (buf ! (off + 13)) 0x08 then Inr None
          else if length buf < 34 then Inl Out_Of_Bounds
          else Inr (Some \<lparr>source = be16 buf (off + 2), dest = be16 buf off, saddr = be32 buf 30, daddr = be32 buf 26,
                      seq = be32 buf (off + 4), win = 0\<rparr>))"

text \<open>
  The loop of \<open>is_drop_tcp_ack\<close> over the TCP options: \<open>len\<close> and \<open>p\<close>, the bytes from the pointer on,
  are its variables.  A \<open>break\<close> on the end-of-options code, on a size below two and on a size above
  what is left leaves the switch only, so that the loop goes on with \<open>len\<close> as it was.
\<close>

definition TCPOPT_EOL :: u8 where [simp]: "TCPOPT_EOL = 0"
definition TCPOPT_NOP :: u8 where [simp]: "TCPOPT_NOP = 1"
definition TCPOPT_WINDOW :: u8 where [simp]: "TCPOPT_WINDOW = 3"
definition TCPOPT_TIMESTAMP :: u8 where [simp]: "TCPOPT_TIMESTAMP = 8"

fun tcp_options :: "int \<Rightarrow> u8 list \<Rightarrow> int \<Rightarrow> u16 \<Rightarrow> (int \<times> u16) outcome" where
  "tcp_options len [] dr ws = (if \<not> (len > 0 \<and> dr \<noteq> 0) then Inr (dr, ws) else Inl Out_Of_Bounds)"
| "tcp_options len (opcode # p) dr ws =
     (if \<not> (len > 0 \<and> dr \<noteq> 0) then Inr (dr, ws)
      else if opcode = TCPOPT_EOL then tcp_options len p dr ws
      else if opcode = TCPOPT_NOP then tcp_options (len - 1) p dr ws
      else case p of
        [] \<Rightarrow> Inl Out_Of_Bounds
      | opsize # q \<Rightarrow>
          if uint opsize < 2 \<or> uint opsize > len then tcp_options len q dr ws
          else if opcode = TCPOPT_WINDOW then
            (case q of
               [] \<Rightarrow> Inl Out_Of_Bounds
             | v # _ \<Rightarrow> tcp_options (len - uint opsize) (drop (unat opsize - 2) q) dr
                          (if v < 15 then push_bit (unat v) 1 else ws))
          else tcp_options (len - uint opsize) (drop (unat opsize - 2) q)
                 (if opcode = TCPOPT_TIMESTAMP then dr else 2) ws)"

text \<open>\<open>is_drop_tcp_ack\<close>: \<open>off\<close> is the offset of the TCP header; the result and \<open>win_scale\<close>.\<close>

definition is_drop_tcp_ack :: "u8 list \<Rightarrow> nat \<Rightarrow> int \<Rightarrow> u16 \<Rightarrow> (int \<times> u16) outcome" where
  "is_drop_tcp_ack buf off tcp_tot_len ws =
     (let len = uint (drop_bit 4 (buf ! (off + 12))) * 4
      in if tcp_tot_len > len then Inr (0, ws)
         else tcp_options (len - 20) (drop (off + 20) buf) 1 ws)"

text \<open>\<open>tcp_check_ack\<close>: the result, the message, which is set when the result is positive, and \<open>win_scale\<close>.\<close>

definition tcp_check_ack :: "u8 list \<Rightarrow> u16 \<Rightarrow> (int \<times> tcp_ack_msg option \<times> u16) outcome" where
  "tcp_check_ack buf ws =
     (case tcp_ack_offset buf of
        Inl f \<Rightarrow> Inl f
      | Inr None \<Rightarrow> Inr (0, None, ws)
      | Inr (Some off) \<Rightarrow>
          (case is_drop_tcp_ack buf off (uint (be16 buf 16) - (int off - 14)) ws of
             Inl f \<Rightarrow> Inl f
           | Inr (ret, ws') \<Rightarrow>
               if \<not> ret > 0 then Inr (ret, None, ws')
               else if length buf < 34 \<or> length buf < off + 16 then Inl Out_Of_Bounds
               else Inr (ret, Some \<lparr>source = be16 buf off, dest = be16 buf (off + 2), saddr = be32 buf 26,
                      daddr = be32 buf 30, seq = be32 buf (off + 8), win = be16 buf (off + 14)\<rparr>, ws')))"

section \<open>Slots\<close>

definition same_flow :: "tcp_ack_msg \<Rightarrow> tcp_ack_msg \<Rightarrow> bool" where
  "same_flow a b \<longleftrightarrow> dest a = dest b \<and> source a = source b \<and> saddr a = saddr b \<and> daddr a = daddr b"

text \<open>The first index of a list with a property, and \<open>tcp_ack_match\<close>, with None for -1.\<close>

definition first_index :: "('a \<Rightarrow> bool) \<Rightarrow> 'a list \<Rightarrow> nat option" where
  "first_index P xs = List.find (\<lambda>k. P (xs ! k)) [0..<length xs]"

definition tcp_ack_match :: "tcp_ack_manage \<Rightarrow> tcp_ack_msg \<Rightarrow> nat option" where
  "tcp_ack_match am msg = first_index (\<lambda>i. busy i \<and> same_flow (ack_msg i) msg) (ack_info am)"

text \<open>One slot of \<open>tcp_ack_update\<close>, then the function.\<close>

definition age_slot :: "u64 \<Rightarrow> nat \<Rightarrow> tcp_ack_manage \<Rightarrow> tcp_ack_manage" where
  "age_slot now k am =
     (let i = ack_info am ! k
      in if busy i \<and> time_after now (last_time i + timeout i)
         then am\<lparr>free_index := int k, max_num := max_num am - 1, ack_info := (ack_info am)[k := i\<lparr>busy := False\<rparr>]\<rparr>
         else am)"

definition tcp_ack_update :: "u64 \<Rightarrow> tcp_ack_manage \<Rightarrow> tcp_ack_manage" where
  "tcp_ack_update now am =
     (if time_after now (m_last_time am + m_timeout am)
      then fold (age_slot now) (rev [0..<TCP_ACK_NUM]) (am\<lparr>m_last_time := now\<rparr>) else am)"

definition tcp_ack_alloc_index :: "tcp_ack_manage \<Rightarrow> nat option \<times> tcp_ack_manage" where
  "tcp_ack_alloc_index am =
     (if max_num am = int TCP_ACK_NUM then (None, am)
      else if free_index am \<ge> 0
      then (Some (nat (free_index am)), am\<lparr>free_index := -1, max_num := max_num am + 1\<rparr>)
      else case first_index (\<lambda>i. \<not> busy i) (ack_info am) of
             None \<Rightarrow> (None, am)
           | Some k \<Rightarrow> (Some k, am\<lparr>free_index := -1, max_num := max_num am + 1\<rparr>))"

section \<open>Holding back and sending\<close>

text \<open>
  \<open>tcp_ack_handle_new\<close> under the lock of the slot: whether the packet is taken from the caller, the
  slot, and the message to drop.
\<close>

definition handle_new_locked ::
  "config_hz \<Rightarrow> u64 \<Rightarrow> int \<Rightarrow> nat \<Rightarrow> tcp_ack_info \<Rightarrow> tcp_ack_msg \<Rightarrow> bool \<times> tcp_ack_info \<times> nat option" where
  "handle_new_locked hz now max_drop new i msg =
     (let i1 = i\<lparr>last_time := now\<rparr>
      in if U32_BEFORE (seq (ack_msg i1)) (seq msg)
         then let quick_ack = psh_flag i1 \<and> \<not> U32_BEFORE (seq msg) (psh_seq i1);
                  i2 = i1\<lparr>msgbuf := None, psh_flag := (if quick_ack then False else psh_flag i1),
                          drop_cnt := (if quick_ack then drop_cnt i1 else drop_cnt i1 + 1),
                          ack_msg := (ack_msg i1)\<lparr>seq := seq msg\<rparr>\<rparr>
              in if quick_ack \<or> (in_send_msg i2 = None \<and> drop_cnt i2 \<ge> max_drop)
                 then (False, i2\<lparr>drop_cnt := 0, in_send_msg := Some new, timer := None\<rparr>, msgbuf i1)
                 else (True, i2\<lparr>msgbuf := Some new,
                         timer := (if timer i2 = None then Some (now + msecs_to_jiffies hz 5) else timer i2)\<rparr>, msgbuf i1)
         else (True, i1, Some new))"

definition drop_opt :: "nat option \<Rightarrow> ack_sys \<Rightarrow> ack_sys outcome" where
  "drop_opt d s = (case d of None \<Rightarrow> Inr s | Some m \<Rightarrow> intf_tcp_drop_msg m s)"

definition tcp_ack_handle_new ::
  "config_hz \<Rightarrow> nat \<Rightarrow> nat \<Rightarrow> tcp_ack_msg \<Rightarrow> int \<Rightarrow> ack_sys \<Rightarrow> (bool \<times> ack_sys) outcome" where
  "tcp_ack_handle_new hz new k msg ty s =
     (case handle_new_locked hz (jiffies s) (max_drop_cnt (ack_m s)) new (slot s k) msg of
        (ret, i, d) \<Rightarrow> (case drop_opt d (set_slot k i s) of Inl f \<Rightarrow> Inl f | Inr t \<Rightarrow> Inr (ret, t)))"

text \<open>
  \<open>tcp_ack_handle\<close>, the routine \<open>tcp_ack_handle_new\<close> has replaced: it sends an acknowledgement with
  further options (type 2) at once.
\<close>

definition handle_locked ::
  "config_hz \<Rightarrow> u64 \<Rightarrow> int \<Rightarrow> nat \<Rightarrow> tcp_ack_info \<Rightarrow> tcp_ack_msg \<Rightarrow> int \<Rightarrow> bool \<times> tcp_ack_info \<times> nat option" where
  "handle_locked hz now max_drop new i msg ty =
     (let i1 = i\<lparr>last_time := now\<rparr>
      in if ty = 2
         then if U32_BEFORE (seq (ack_msg i1)) (seq msg)
              then let i2 = i1\<lparr>ack_msg := (ack_msg i1)\<lparr>seq := seq msg\<rparr>,
                              psh_flag := (if psh_flag i1 \<and> \<not> U32_BEFORE (seq msg) (psh_seq i1) then False else psh_flag i1)\<rparr>
                   in (False, i2\<lparr>msgbuf := None, timer := (if msgbuf i2 = None then timer i2 else None),
                        in_send_msg := None, drop_cnt := max_drop\<rparr>, msgbuf i2)
              else (True, i1, Some new)
         else if U32_BEFORE (seq (ack_msg i1)) (seq msg)
         then let d = msgbuf i1;
                  i2 = (if msgbuf i1 = None then i1 else i1\<lparr>msgbuf := None\<rparr>);
                  quick_ack = psh_flag i2 \<and> \<not> U32_BEFORE (seq msg) (psh_seq i2);
                  i3 = (if quick_ack then i2\<lparr>psh_flag := False\<rparr> else i2\<lparr>drop_cnt := drop_cnt i2 + 1\<rparr>);
                  i4 = i3\<lparr>ack_msg := (ack_msg i3)\<lparr>seq := seq msg\<rparr>\<rparr>
              in if quick_ack \<or> (in_send_msg i4 = None \<and> drop_cnt i4 \<ge> max_drop)
                 then (False, i4\<lparr>drop_cnt := 0, in_send_msg := Some new, timer := None\<rparr>, d)
                 else let i5 = i4\<lparr>msgbuf := Some new\<rparr>
                      in (True, if timer i5 = None then i5\<lparr>timer := Some (now + msecs_to_jiffies hz 5)\<rparr> else i5, d)
         else (True, i1, Some new))"

definition tcp_ack_handle ::
  "config_hz \<Rightarrow> nat \<Rightarrow> nat \<Rightarrow> tcp_ack_msg \<Rightarrow> int \<Rightarrow> ack_sys \<Rightarrow> (bool \<times> ack_sys) outcome" where
  "tcp_ack_handle hz new k msg ty s =
     (case handle_locked hz (jiffies s) (max_drop_cnt (ack_m s)) new (slot s k) msg ty of
        (ret, i, d) \<Rightarrow> (case drop_opt d (set_slot k i s) of Inl f \<Rightarrow> Inl f | Inr t \<Rightarrow> Inr (ret, t)))"

section \<open>The filter\<close>

definition filter_rx_tcp_ack :: "u8 list \<Rightarrow> int \<Rightarrow> ack_sys \<Rightarrow> ack_sys outcome" where
  "filter_rx_tcp_ack buf plen s =
     (if \<not> enable (ack_m s) \<or> plen > MAX_TCP_ACK then Inr s
      else case tcp_check_quick_ack buf of
        Inl f \<Rightarrow> Inl f
      | Inr None \<Rightarrow> Inr s
      | Inr (Some msg) \<Rightarrow>
          (case tcp_ack_match (ack_m s) msg of
             None \<Rightarrow> Inr s
           | Some k \<Rightarrow> Inr (set_slot k ((slot s k)\<lparr>psh_flag := True, psh_seq := seq msg\<rparr>) s)))"

text \<open>The slot \<open>filter_send_tcp_ack\<close> sets up for a new flow; \<open>msgbuf\<close> and \<open>in_send_msg\<close> stay as they are.\<close>

definition new_flow :: "u64 \<Rightarrow> int \<Rightarrow> u16 \<Rightarrow> tcp_ack_msg \<Rightarrow> tcp_ack_info \<Rightarrow> tcp_ack_info" where
  "new_flow now max_drop ws msg i =
     i\<lparr>busy := True, psh_flag := False, last_time := now, drop_cnt := max_drop,
       win_scale := (if ws \<noteq> 0 then ws else 1),
       ack_msg := (ack_msg i)\<lparr>dest := dest msg, source := source msg, saddr := saddr msg, daddr := daddr msg, seq := seq msg\<rparr>\<rparr>"

text \<open>
  The two halves of \<open>filter_send_tcp_ack\<close>: a packet of a flow that has slot \<open>k\<close>, and one of a flow
  that has none.
\<close>

definition filter_known_flow ::
  "config_hz \<Rightarrow> nat \<Rightarrow> nat \<Rightarrow> tcp_ack_msg \<Rightarrow> int \<Rightarrow> u16 \<Rightarrow> ack_sys \<Rightarrow> (bool \<times> ack_sys) outcome" where
  "filter_known_flow hz new k msg dr ws s =
     (let s1 = (if ws \<noteq> 0 \<and> win_scale (slot s k) \<noteq> ws then set_slot k ((slot s k)\<lparr>win_scale := ws\<rparr>) s else s)
      in if dr > 0 \<and> enable (ack_m s1)
         then let w = ucast (win_scale (slot s1 k)) * ucast (win msg) :: u32;
                  ty = (if ws \<noteq> 0 \<and> w < ack_winsize (ack_m s1) * SIZE_KB then 2 else dr)
              in tcp_ack_handle_new hz new k msg ty s1
         else Inr (False, s1))"

definition filter_new_flow :: "tcp_ack_msg \<Rightarrow> u16 \<Rightarrow> ack_sys \<Rightarrow> ack_sys" where
  "filter_new_flow msg ws s =
     (case tcp_ack_alloc_index (ack_m s) of
        (None, am) \<Rightarrow> s\<lparr>ack_m := am\<rparr>
      | (Some k, am) \<Rightarrow>
          let s1 = s\<lparr>ack_m := am\<rparr>
          in set_slot k (new_flow (jiffies s) (max_drop_cnt am) ws msg (slot s1 k)) s1)"

text \<open>
  \<open>filter_send_tcp_ack\<close>; the result says whether the filter has taken the packet.  The local
  \<open>ack_msg\<close> is set only when \<open>tcp_check_ack\<close> gives a positive result, so that a use before is the
  fault \<open>Null_Deref\<close>.
\<close>

definition filter_send_tcp_ack :: "config_hz \<Rightarrow> nat \<Rightarrow> u8 list \<Rightarrow> int \<Rightarrow> ack_sys \<Rightarrow> (bool \<times> ack_sys) outcome" where
  "filter_send_tcp_ack hz new buf plen s0 =
     (if plen > MAX_TCP_ACK then Inr (False, s0)
      else let s = s0\<lparr>ack_m := tcp_ack_update (jiffies s0) (ack_m s0)\<rparr>
      in case tcp_check_ack buf 0 of
           Inl f \<Rightarrow> Inl f
         | Inr (dr, omsg, ws) \<Rightarrow>
             if dr = 0 \<and> ws = 0 then Inr (False, s)
             else (case omsg of
               None \<Rightarrow> Inl Null_Deref
             | Some msg \<Rightarrow>
                 (case tcp_ack_match (ack_m s) msg of
                    Some k \<Rightarrow> filter_known_flow hz new k msg dr ws s
                  | None \<Rightarrow> Inr (False, filter_new_flow msg ws s))))"

text \<open>
  The part of \<open>rwnx_start_xmit\<close> that calls the filter, for a packet of the network stack; \<open>m\<close> is the
  address of the new message buffer and \<open>mem\<close> whether its allocation succeeds.  A packet that the
  filter does not take goes on to the transmit queues.
\<close>

definition xmit_ack :: "config_hz \<Rightarrow> bool \<Rightarrow> nat \<Rightarrow> u8 list \<Rightarrow> ack_sys \<Rightarrow> ack_sys outcome" where
  "xmit_ack hz mem m skb s0 =
     (let plen = uint (word_of_nat (length skb) :: u16); s = s0\<lparr>given := given s0 @ [skb]\<rparr>
      in if plen > MAX_TCP_ACK then Inr (s\<lparr>sent := sent s @ [skb]\<rparr>)
         else case intf_tcp_alloc_msg mem m skb s of
           Inl f \<Rightarrow> Inl f
         | Inr s1 \<Rightarrow>
             (case filter_send_tcp_ack hz m skb plen s1 of
                Inl f \<Rightarrow> Inl f
              | Inr (True, t) \<Rightarrow> Inr t
              | Inr (False, t) \<Rightarrow> send_msg m (move_tcpack_msg m t)))"

section \<open>Steps\<close>

text \<open>
  The filter's events: a packet from the stack, a received packet, the expiry of a slot's timer, a
  tick of the clock, which does not pass a timer that has to fire, and the shutdown.
\<close>

inductive tcp_step :: "config_hz \<Rightarrow> ack_sys \<Rightarrow> ack_sys \<Rightarrow> bool" for hz where
  st_xmit: "msgs s m = None \<Longrightarrow> xmit_ack hz True m skb s = Inr t \<Longrightarrow> tcp_step hz s t"
| st_recv: "filter_rx_tcp_ack buf plen s = Inr t \<Longrightarrow> tcp_step hz s t"
| st_timer: "k < TCP_ACK_NUM \<Longrightarrow> timer (slot s k) = Some (jiffies s) \<Longrightarrow> tcp_ack_timeout k s = Inr t \<Longrightarrow> tcp_step hz s t"
| st_tick: "\<forall>k < TCP_ACK_NUM. timer (slot s k) \<noteq> Some (jiffies s) \<Longrightarrow> tcp_step hz s (s\<lparr>jiffies := jiffies s + 1\<rparr>)"
| st_deinit: "tcp_ack_deinit s = Inr t \<Longrightarrow> tcp_step hz s t"

definition tcp_boot :: "config_hz \<Rightarrow> u64 \<Rightarrow> ack_sys" where
  "tcp_boot hz now = \<lparr>ack_m = tcp_ack_init hz now, jiffies = now, msgs = Map.empty, given = [], sent = [], dropped = []\<rparr>"

section \<open>Invariant\<close>

definition opt_mset :: "'a option \<Rightarrow> 'a multiset" where
  "opt_mset x = (case x of None \<Rightarrow> {#} | Some m \<Rightarrow> {#m#})"

lemma opt_mset_simps [simp]: "opt_mset None = {#}" "opt_mset (Some m) = {#m#}"
  by (simp_all add: opt_mset_def)

text \<open>The message buffers the slots hold, together with those (\<open>X\<close>) a running function still owns.\<close>

definition owned :: "nat multiset \<Rightarrow> ack_sys \<Rightarrow> nat multiset" where
  "owned X s = sum_list (map (\<lambda>i. opt_mset (msgbuf i)) (ack_info (ack_m s))) + X"

text \<open>
  A good slot: it holds a message exactly when its timer is pending; then it is in use, fewer than
  ten acknowledgements have been dropped in a row, and the timer expires within five milliseconds of the
  slot's last use.  \<open>en\<close> says whether the filter is enabled, and \<open>y\<close> is the message on its way to
  the transmit queues that \<open>in_send_msg\<close> may name.
\<close>

definition slot_ok :: "config_hz \<Rightarrow> u64 \<Rightarrow> bool \<Rightarrow> nat option \<Rightarrow> tcp_ack_info \<Rightarrow> bool" where
  "slot_ok hz now en y i \<longleftrightarrow>
     timeout i = msecs_to_jiffies hz ACK_OLD_TIME \<and> (timer i = None \<longleftrightarrow> msgbuf i = None) \<and>
     (\<forall>e. timer i = Some e \<longrightarrow> busy i \<and> en \<and> drop_cnt i < TCP_ACK_DROP_CNT \<and>
        unat (now - last_time i) + unat (e - now) \<le> unat (msecs_to_jiffies hz 5)) \<and>
     (in_send_msg i = None \<or> en \<and> busy i \<and> in_send_msg i = y)"

definition am_ok :: "tcp_ack_manage \<Rightarrow> bool" where
  "am_ok am \<longleftrightarrow> length (ack_info am) = TCP_ACK_NUM \<and> max_num am = sum_list (map (\<lambda>i. of_bool (busy i)) (ack_info am)) \<and>
     -1 \<le> free_index am \<and> free_index am < int TCP_ACK_NUM \<and>
     (0 \<le> free_index am \<longrightarrow> \<not> busy (ack_info am ! nat (free_index am))) \<and> max_drop_cnt am = TCP_ACK_DROP_CNT"

definition msgs_ok :: "nat multiset \<Rightarrow> ack_sys \<Rightarrow> bool" where
  "msgs_ok X s \<longleftrightarrow> (\<forall>m. m \<in># owned X s \<longleftrightarrow> msgs s m \<noteq> None) \<and> (\<forall>m. count (owned X s) m \<le> 1) \<and>
     mset (given s) = mset (sent s) + mset (dropped s) + image_mset (\<lambda>m. the (msgs s m)) (owned X s)"

definition tcp_inv :: "config_hz \<Rightarrow> bool \<Rightarrow> nat multiset \<Rightarrow> nat option \<Rightarrow> ack_sys \<Rightarrow> bool" where
  "tcp_inv hz en X y s \<longleftrightarrow> am_ok (ack_m s) \<and> (\<forall>i \<in> set (ack_info (ack_m s)). slot_ok hz (jiffies s) en y i) \<and> msgs_ok X s"

abbreviation tcp_good :: "config_hz \<Rightarrow> ack_sys \<Rightarrow> bool" where
  "tcp_good hz s \<equiv> tcp_inv hz (enable (ack_m s)) {#} None s"

section \<open>Lemmas on time\<close>

lemma jiffies_bounds:
  "0 < unat (msecs_to_jiffies hz 5)" "unat (msecs_to_jiffies hz 5) \<le> unat (msecs_to_jiffies hz ACK_OLD_TIME)"
  "unat (msecs_to_jiffies hz ACK_OLD_TIME) \<le> 4000"
  by (cases hz; simp add: msecs_to_jiffies_def)+

lemma not_time_after:
  assumes "unat (now - l) \<le> unat d" "unat d \<le> 4000"
  shows "\<not> time_after now (l + d)"
proof -
  have e: "l + d - now = d - (now - l)" by simp
  have "unat (d - (now - l)) = unat d - unat (now - l)" using assms(1) by (simp add: unat_sub word_le_nat_alt)
  then have "unat (l + d - now) \<le> 4000" using assms(2) unfolding e by linarith
  then have "unat (l + d - now) < 2 ^ (LENGTH(64) - 1)" by (rule order_le_less_trans) simp
  then have "0 \<le> sint (l + d - now)" by (simp add: sint_lower_half)
  then show ?thesis by (simp add: time_after_def)
qed

lemma slot_not_aged:
  assumes "slot_ok hz now en y i" "timer i \<noteq> None"
  shows "\<not> time_after now (last_time i + timeout i)"
proof -
  obtain e where "timer i = Some e" using assms(2) by auto
  then have "unat (now - last_time i) \<le> unat (msecs_to_jiffies hz 5)" "timeout i = msecs_to_jiffies hz ACK_OLD_TIME"
    using assms(1) by (auto simp: slot_ok_def)
  with jiffies_bounds [of hz] show ?thesis by (metis not_time_after order_trans)
qed

lemma slot_tick:
  assumes "slot_ok hz now en y i" "timer i \<noteq> Some now"
  shows "slot_ok hz (now + 1) en y i"
proof -
  have "unat (now + 1 - last_time i) + unat (e - (now + 1)) \<le> unat (msecs_to_jiffies hz 5)" if e: "timer i = Some e" for e
  proof -
    have s: "unat (now - last_time i) + unat (e - now) \<le> unat (msecs_to_jiffies hz 5)"
      using assms(1) e by (simp add: slot_ok_def)
    have ne: "e - now \<noteq> 0" using assms(2) e by simp
    have w: "e - (now + 1) = e - now - 1" "now + 1 - last_time i = now - last_time i + 1" by simp_all
    have "unat (e - now - 1) = unat (e - now) - 1" using ne by (rule unat_minus_one)
    moreover have "unat (now - last_time i + 1) \<le> unat (now - last_time i) + 1"
      by (simp add: unat_word_ariths(1))
    moreover have "0 < unat (e - now)" using ne unat_gt_0 by blast
    ultimately show ?thesis using s unfolding w by linarith
  qed
  then show ?thesis using assms(1) by (simp add: slot_ok_def)
qed

section \<open>Slots and messages\<close>

lemma set_slot_simps [simp]:
  "jiffies (set_slot k i s) = jiffies s" "msgs (set_slot k i s) = msgs s" "given (set_slot k i s) = given s"
  "sent (set_slot k i s) = sent s" "dropped (set_slot k i s) = dropped s"
  "enable (ack_m (set_slot k i s)) = enable (ack_m s)" "max_num (ack_m (set_slot k i s)) = max_num (ack_m s)"
  "free_index (ack_m (set_slot k i s)) = free_index (ack_m s)"
  "max_drop_cnt (ack_m (set_slot k i s)) = max_drop_cnt (ack_m s)"
  "ack_info (ack_m (set_slot k i s)) = (ack_info (ack_m s))[k := i]"
  by (simp_all add: set_slot_def)

lemma slot_ok_mono: "slot_ok hz now en y i \<Longrightarrow> y = None \<or> y = y' \<Longrightarrow> slot_ok hz now en y' i"
  by (auto simp: slot_ok_def)

lemma slot_ok_en: "slot_ok hz now en y i \<Longrightarrow> slot_ok hz now True y i"
  by (auto simp: slot_ok_def)

lemma inv_slot: "tcp_inv hz en X y s \<Longrightarrow> k < TCP_ACK_NUM \<Longrightarrow> slot_ok hz (jiffies s) en y (slot s k)"
  by (simp add: tcp_inv_def am_ok_def)

lemma mem_sum_list: "x \<in> set xs \<Longrightarrow> m \<in># f x \<Longrightarrow> m \<in># sum_list (map f xs)"
  by (induction xs) auto

lemma owned_set_slot:
  assumes "k < length (ack_info (ack_m s))" "opt_mset (msgbuf i) + X' = opt_mset (msgbuf (slot s k)) + X"
  shows "owned X' (set_slot k i s) = owned X s"
proof -
  let ?f = "\<lambda>i. opt_mset (msgbuf i)" and ?l = "ack_info (ack_m s)"
  have "sum_list (map ?f (?l[k := i])) + X' + ?f (?l ! k) = sum_list (map ?f ?l) + X + ?f (?l ! k)"
    using sum_list_map_update [OF assms(1), of ?f i] assms(2) by (simp add: ac_simps)
  then show ?thesis by (simp add: owned_def)
qed

lemma busy_set_slot: "k < length xs \<Longrightarrow> busy i = busy (xs ! k) \<Longrightarrow> map busy (xs[k := i]) = map busy xs"
  by (auto simp: map_update list_update_same_conv)

lemma am_ok_set_slot:
  assumes "am_ok (ack_m s)" "k < TCP_ACK_NUM" "busy i = busy (slot s k)"
  shows "am_ok (ack_m (set_slot k i s))"
proof -
  have l: "k < length (ack_info (ack_m s))" using assms by (simp add: am_ok_def)
  have b: "sum_list (map (\<lambda>i. of_bool (busy i)) xs) = sum_list (map of_bool (map busy xs))" for xs
    by (simp add: o_def)
  have "busy ((ack_info (ack_m s))[k := i] ! j) = busy (slot s j)" for j
    using assms(3) l by (cases "j = k") simp_all
  then show ?thesis using assms l unfolding am_ok_def b by (simp add: busy_set_slot del: map_map)
qed

lemma inv_set_slot:
  assumes inv: "tcp_inv hz en X y s" and k: "k < TCP_ACK_NUM" and y: "y = None \<or> y = y'"
    and i: "slot_ok hz (jiffies s) en y' i" "busy i = busy (slot s k)"
    and X: "opt_mset (msgbuf i) + X' = opt_mset (msgbuf (slot s k)) + X"
  shows "tcp_inv hz en X' y' (set_slot k i s)"
proof -
  have l: "k < length (ack_info (ack_m s))" using inv k by (simp add: tcp_inv_def am_ok_def)
  have "slot_ok hz (jiffies s) en y' j" if "j \<in> set ((ack_info (ack_m s))[k := i])" for j
    using that i(1) inv y set_update_subset_insert [of "ack_info (ack_m s)" k i]
    by (auto simp: tcp_inv_def intro: slot_ok_mono)
  then show ?thesis
    using inv am_ok_set_slot [OF _ k i(2)] owned_set_slot [OF l X] by (simp add: tcp_inv_def msgs_ok_def)
qed

text \<open>A message that a running function owns is freed or sent.\<close>

lemma msgs_ok_remove:
  assumes ok: "msgs_ok (add_mset m X) s"
  obtains skb where "msgs s m = Some skb"
    and "\<And>t. ack_m t = ack_m s \<Longrightarrow> msgs t = (msgs s)(m := None) \<Longrightarrow> given t = given s \<Longrightarrow>
          mset (sent t) + mset (dropped t) = add_mset skb (mset (sent s) + mset (dropped s)) \<Longrightarrow> msgs_ok X t"
proof -
  have o: "owned (add_mset m X) s = add_mset m (owned X s)" by (simp add: owned_def)
  then have "msgs s m \<noteq> None" using ok unfolding msgs_ok_def by (metis union_single_eq_member)
  then obtain skb where skb: "msgs s m = Some skb" by auto
  have c: "count (add_mset m (owned X s)) k \<le> 1" for k using ok unfolding msgs_ok_def o by blast
  then have m: "m \<notin># owned X s" using c [of m] by (simp add: not_in_iff)
  have "msgs_ok X t" if t: "ack_m t = ack_m s" "msgs t = (msgs s)(m := None)" "given t = given s"
    "mset (sent t) + mset (dropped t) = add_mset skb (mset (sent s) + mset (dropped s))" for t
  proof -
    have ot: "owned X t = owned X s" by (simp add: owned_def t)
    have "image_mset (\<lambda>k. the (msgs t k)) (owned X s) = image_mset (\<lambda>k. the (msgs s k)) (owned X s)"
      using m by (intro image_mset_cong) (auto simp: t)
    moreover have "count (owned X s) k \<le> 1" for k
      using c [of k] by (cases "k = m") auto
    moreover have "k \<in># owned X s \<longleftrightarrow> msgs t k \<noteq> None" for k
      using ok m by (auto simp: msgs_ok_def o t)
    ultimately show ?thesis using ok t(3,4) skb by (simp add: msgs_ok_def ot o)
  qed
  with skb that show ?thesis by blast
qed

lemma drop_msg_ok:
  assumes "tcp_inv hz en (add_mset m X) y s"
  shows "\<exists>t. intf_tcp_drop_msg m s = Inr t \<and> tcp_inv hz en X y t \<and> ack_m t = ack_m s \<and> jiffies t = jiffies s \<and> sent t = sent s"
proof -
  from assms have "msgs_ok (add_mset m X) s" by (simp add: tcp_inv_def)
  then obtain skb where "msgs s m = Some skb" "msgs_ok X (s\<lparr>msgs := (msgs s)(m := None), dropped := dropped s @ [skb]\<rparr>)"
    by (rule msgs_ok_remove) simp
  with assms show ?thesis by (simp add: intf_tcp_drop_msg_def tcp_inv_def)
qed

lemma send_msg_ok:
  assumes "tcp_inv hz en (add_mset m X) y s"
  shows "\<exists>t skb. msgs s m = Some skb \<and> send_msg m s = Inr t \<and> tcp_inv hz en X y t \<and> ack_m t = ack_m s \<and>
    jiffies t = jiffies s \<and> sent t = sent s @ [skb]"
proof -
  from assms have "msgs_ok (add_mset m X) s" by (simp add: tcp_inv_def)
  then obtain skb where "msgs s m = Some skb" "msgs_ok X (s\<lparr>msgs := (msgs s)(m := None), sent := sent s @ [skb]\<rparr>)"
    by (rule msgs_ok_remove) simp
  with assms show ?thesis by (simp add: send_msg_def tcp_inv_def)
qed

text \<open>\<open>move_tcpack_msg\<close> works on every slot alike.\<close>

lemma fold_update_map:
  "n \<le> length xs \<Longrightarrow> fold (\<lambda>k xs. xs[k := g (xs ! k)]) [0..<n] xs = map g (take n xs) @ drop n xs"
proof (induction n)
  case (Suc n)
  then have "fold (\<lambda>k xs. xs[k := g (xs ! k)]) [0..<Suc n] xs =
      (map g (take n xs) @ drop n xs)[n := g ((map g (take n xs) @ drop n xs) ! n)]" by simp
  with Suc.prems show ?case
    by (simp add: nth_append list_update_append take_Suc_conv_app_nth Cons_nth_drop_Suc [symmetric])
qed simp

definition map_slots :: "(tcp_ack_info \<Rightarrow> tcp_ack_info) \<Rightarrow> ack_sys \<Rightarrow> ack_sys" where
  "map_slots g s = s\<lparr>ack_m := (ack_m s)\<lparr>ack_info := map g (ack_info (ack_m s))\<rparr>\<rparr>"

lemma fold_set_slot:
  "fold (\<lambda>k t. set_slot k (g (slot t k)) t) ks s =
     s\<lparr>ack_m := (ack_m s)\<lparr>ack_info := fold (\<lambda>k xs. xs[k := g (xs ! k)]) ks (ack_info (ack_m s))\<rparr>\<rparr>"
  by (induction ks arbitrary: s) (simp_all add: set_slot_def)

lemma move_map:
  assumes "length (ack_info (ack_m s)) = TCP_ACK_NUM" "enable (ack_m s)"
  shows "move_tcpack_msg m s = map_slots (\<lambda>i. if busy i \<and> in_send_msg i = Some m then i\<lparr>in_send_msg := None\<rparr> else i) s"
proof -
  let ?g = "\<lambda>i. if busy i \<and> in_send_msg i = Some m then i\<lparr>in_send_msg := None\<rparr> else i"
  have "(if busy (slot t k) \<and> in_send_msg (slot t k) = Some m then set_slot k ((slot t k)\<lparr>in_send_msg := None\<rparr>) t else t) =
      set_slot k (?g (slot t k)) t" for t k
    by (simp add: set_slot_def)
  then have "move_tcpack_msg m s = fold (\<lambda>k t. set_slot k (?g (slot t k)) t) [0..<TCP_ACK_NUM] s"
    using assms(2) by (simp add: move_tcpack_msg_def)
  also have "\<dots> = map_slots ?g s"
    unfolding fold_set_slot [where g = ?g] map_slots_def by (simp add: fold_update_map [where g = ?g] assms(1))
  finally show ?thesis .
qed

lemma move_ok:
  assumes inv: "tcp_inv hz en X y s" and y: "y = None \<or> y = Some m" and en: "en = enable (ack_m s)"
  shows "tcp_inv hz en X None (move_tcpack_msg m s)" "enable (ack_m (move_tcpack_msg m s)) = enable (ack_m s)"
    "msgs (move_tcpack_msg m s) = msgs s" "jiffies (move_tcpack_msg m s) = jiffies s" "sent (move_tcpack_msg m s) = sent s"
proof -
  let ?g = "\<lambda>i. if busy i \<and> in_send_msg i = Some m then i\<lparr>in_send_msg := None\<rparr> else i"
  have l: "length (ack_info (ack_m s)) = TCP_ACK_NUM" using inv by (simp add: tcp_inv_def am_ok_def)
  have mv: "move_tcpack_msg m s = (if en then map_slots ?g s else s)"
    using move_map [OF l, of m] en by (simp add: move_tcpack_msg_def)
  then show "enable (ack_m (move_tcpack_msg m s)) = enable (ack_m s)" "msgs (move_tcpack_msg m s) = msgs s"
    "jiffies (move_tcpack_msg m s) = jiffies s" "sent (move_tcpack_msg m s) = sent s"
    by (simp_all add: map_slots_def)
  have g: "busy (?g i) = busy i" "msgbuf (?g i) = msgbuf i" for i by simp_all
  show "tcp_inv hz en X None (move_tcpack_msg m s)"
  proof (cases en)
    case False
    with inv have "\<forall>i \<in> set (ack_info (ack_m s)). slot_ok hz (jiffies s) en None i" by (auto simp: tcp_inv_def slot_ok_def)
    with inv mv False show ?thesis by (simp add: tcp_inv_def)
  next
    case True
    have "slot_ok hz (jiffies s) en None (?g i)" if "i \<in> set (ack_info (ack_m s))" for i
      using inv that y by (auto simp: tcp_inv_def slot_ok_def)
    moreover have "am_ok (ack_m (map_slots ?g s))"
      using inv by (auto simp: tcp_inv_def am_ok_def map_slots_def o_def g cong: map_cong)
    moreover have "msgs_ok X (map_slots ?g s)"
      using inv by (simp add: tcp_inv_def msgs_ok_def owned_def map_slots_def o_def g)
    moreover have "ack_info (ack_m (map_slots ?g s)) = map ?g (ack_info (ack_m s))" "jiffies (map_slots ?g s) = jiffies s"
      by (simp_all add: map_slots_def)
    ultimately show ?thesis unfolding mv tcp_inv_def using True by (simp only: if_True set_map ball_simps) simp
  qed
qed

section \<open>Every operation keeps the invariant\<close>

lemma age_slot_ok:
  assumes inv: "tcp_inv hz en X None (s\<lparr>ack_m := am\<rparr>)" and k: "k < TCP_ACK_NUM"
  shows "tcp_inv hz en X None (s\<lparr>ack_m := age_slot (jiffies s) k am\<rparr>)"
proof (cases "busy (ack_info am ! k) \<and> time_after (jiffies s) (last_time (ack_info am ! k) + timeout (ack_info am ! k))")
  case False
  then have "age_slot (jiffies s) k am = am" by (auto simp: age_slot_def Let_def)
  with inv show ?thesis by simp
next
  case True
  let ?xs = "ack_info am" and ?i = "(ack_info am ! k)\<lparr>busy := False\<rparr>"
  have l: "k < length ?xs" "length ?xs = TCP_ACK_NUM" using inv k by (simp_all add: tcp_inv_def am_ok_def)
  have ok: "slot_ok hz (jiffies s) en None (?xs ! k)" using inv l(1) by (simp add: tcp_inv_def)
  then have t: "timer (?xs ! k) = None" using True slot_not_aged by blast
  then have i: "slot_ok hz (jiffies s) en None ?i" "msgbuf (?xs ! k) = None" using ok by (auto simp: slot_ok_def)
  have a: "age_slot (jiffies s) k am = am\<lparr>free_index := int k, max_num := max_num am - 1, ack_info := ?xs[k := ?i]\<rparr>"
    using True by (simp add: age_slot_def)
  have n: "sum_list (map (\<lambda>i. of_bool (busy i)) (?xs[k := ?i])) + (1::int) = sum_list (map (\<lambda>i. of_bool (busy i)) ?xs)"
    using sum_list_map_update [OF l(1), of "\<lambda>i. of_bool (busy i) :: int" ?i] True by simp
  have "am_ok (age_slot (jiffies s) k am)" using inv n l k by (auto simp: a tcp_inv_def am_ok_def)
  moreover have "slot_ok hz (jiffies s) en None j" if "j \<in> set (?xs[k := ?i])" for j
    using that i(1) inv set_update_subset_insert [of ?xs k ?i] by (auto simp: tcp_inv_def)
  moreover have "owned X (s\<lparr>ack_m := age_slot (jiffies s) k am\<rparr>) = owned X (s\<lparr>ack_m := am\<rparr>)"
    using sum_list_map_update [OF l(1), of "\<lambda>i. opt_mset (msgbuf i)" ?i] i(2) by (simp add: a owned_def)
  ultimately show ?thesis using inv by (auto simp: tcp_inv_def msgs_ok_def a)
qed

lemma age_slot_enable [simp]: "enable (age_slot now k am) = enable am"
  by (simp add: age_slot_def Let_def)

lemma update_ok:
  assumes inv: "tcp_inv hz en X None s"
  shows "tcp_inv hz en X None (s\<lparr>ack_m := tcp_ack_update (jiffies s) (ack_m s)\<rparr>)"
    and "enable (tcp_ack_update (jiffies s) (ack_m s)) = enable (ack_m s)"
proof -
  let ?am = "(ack_m s)\<lparr>m_last_time := jiffies s\<rparr>"
  have "tcp_inv hz en X None (s\<lparr>ack_m := ?am\<rparr>)" using inv by (simp add: tcp_inv_def am_ok_def msgs_ok_def owned_def)
  then have "tcp_inv hz en X None (s\<lparr>ack_m := fold (age_slot (jiffies s)) (rev [0..<TCP_ACK_NUM]) ?am\<rparr>)"
    by (intro fold_invariant [where Q = "\<lambda>k. k < TCP_ACK_NUM" and P = "\<lambda>am. tcp_inv hz en X None (s\<lparr>ack_m := am\<rparr>)"])
      (auto intro: age_slot_ok)
  with inv show "tcp_inv hz en X None (s\<lparr>ack_m := tcp_ack_update (jiffies s) (ack_m s)\<rparr>)"
    by (simp add: tcp_ack_update_def)
  have "enable (fold (age_slot (jiffies s)) (rev [0..<TCP_ACK_NUM]) ?am) = enable (ack_m s)"
    by (rule fold_invariant [where Q = "\<lambda>_. True" and P = "\<lambda>am. enable am = enable (ack_m s)"]) simp_all
  then show "enable (tcp_ack_update (jiffies s) (ack_m s)) = enable (ack_m s)" by (simp add: tcp_ack_update_def)
qed

lemma first_index_Some: "first_index P xs = Some k \<Longrightarrow> k < length xs \<and> P (xs ! k)"
  by (auto simp: first_index_def find_Some_iff)

lemma match_Some:
  "tcp_ack_match am msg = Some k \<Longrightarrow> k < length (ack_info am) \<and> busy (ack_info am ! k) \<and> same_flow (ack_msg (ack_info am ! k)) msg"
  by (auto simp: tcp_ack_match_def dest: first_index_Some)

text \<open>A new flow gets a slot that is not in use.\<close>

lemma alloc_index_Some:
  assumes "am_ok am" "tcp_ack_alloc_index am = (Some k, am')"
  shows "k < TCP_ACK_NUM \<and> \<not> busy (ack_info am ! k) \<and> am' = am\<lparr>free_index := -1, max_num := max_num am + 1\<rparr>"
  using assms by (auto simp: tcp_ack_alloc_index_def am_ok_def split: if_splits option.splits dest: first_index_Some)

lemma new_flow_ok:
  assumes inv: "tcp_inv hz en X None s" and al: "tcp_ack_alloc_index (ack_m s) = (Some k, am)"
  defines "t \<equiv> s\<lparr>ack_m := am\<rparr>"
  shows "tcp_inv hz en X None (set_slot k (new_flow (jiffies s) (max_drop_cnt am) ws msg (slot t k)) t)"
proof -
  let ?xs = "ack_info (ack_m s)" and ?i = "new_flow (jiffies s) (max_drop_cnt am) ws msg (slot t k)"
  have a: "k < TCP_ACK_NUM" "\<not> busy (?xs ! k)" "am = (ack_m s)\<lparr>free_index := -1, max_num := max_num (ack_m s) + 1\<rparr>"
    using alloc_index_Some [OF _ al] inv by (simp_all add: tcp_inv_def)
  have l: "k < length ?xs" "length ?xs = TCP_ACK_NUM" using inv a(1) by (simp_all add: tcp_inv_def am_ok_def)
  have "slot_ok hz (jiffies s) en None (?xs ! k)" using inv l by (simp add: tcp_inv_def)
  then have i: "slot_ok hz (jiffies s) en None ?i" "msgbuf ?i = msgbuf (?xs ! k)"
    using a(2) by (auto simp: slot_ok_def new_flow_def t_def a(3))
  have n: "sum_list (map (\<lambda>i. of_bool (busy i)) (?xs[k := ?i])) = (1::int) + sum_list (map (\<lambda>i. of_bool (busy i)) ?xs)"
    using sum_list_map_update [OF l(1), of "\<lambda>i. of_bool (busy i) :: int" ?i] a(2) by (simp add: new_flow_def)
  have "am_ok (ack_m (set_slot k ?i t))" using inv n l by (auto simp: tcp_inv_def am_ok_def t_def a(3) set_slot_def)
  moreover have "slot_ok hz (jiffies s) en None j" if "j \<in> set (?xs[k := ?i])" for j
    using that i(1) inv set_update_subset_insert [of ?xs k ?i] by (auto simp: tcp_inv_def)
  moreover have "owned X (set_slot k ?i t) = owned X t" using l by (intro owned_set_slot) (simp_all add: new_flow_def t_def a(3))
  moreover have "owned X t = owned X s" by (simp add: owned_def t_def a(3))
  ultimately show ?thesis using inv by (auto simp: tcp_inv_def msgs_ok_def t_def a(3))
qed

lemma tcp_options_pos: "tcp_options len p dr ws = Inr (d, w) \<Longrightarrow> 0 < dr \<Longrightarrow> 0 < d"
proof (induction len p dr ws rule: tcp_options.induct)
  case (2 len opcode p dr ws)
  from 2(6-) 2(1-5) show ?case
    by (subst (asm) tcp_options.simps(2)) (auto simp del: tcp_options.simps split: if_splits list.splits)
qed (simp split: if_splits)

lemma tcp_options_fault: "tcp_options len p dr ws = Inl f \<Longrightarrow> f = Out_Of_Bounds"
proof (induction len p dr ws rule: tcp_options.induct)
  case (2 len opcode p dr ws)
  from 2(6-) 2(1-5) show ?case
    by (subst (asm) tcp_options.simps(2)) (auto simp del: tcp_options.simps split: if_splits list.splits)
qed (simp split: if_splits)

lemma tcp_ack_offset_fault: "tcp_ack_offset buf = Inl f \<Longrightarrow> f = Out_Of_Bounds"
  by (auto simp: tcp_ack_offset_def Let_def split: if_splits)

lemma tcp_check_ack_cases:
  "tcp_check_ack buf 0 = Inr (dr, om, ws) \<Longrightarrow> dr = 0 \<and> ws = 0 \<or> dr > 0 \<and> om \<noteq> None"
  by (auto simp: tcp_check_ack_def is_drop_tcp_ack_def Let_def split: sum.splits option.splits if_splits dest: tcp_options_pos)

lemma tcp_check_ack_fault: "tcp_check_ack buf ws = Inl f \<Longrightarrow> f = Out_Of_Bounds"
  by (auto simp: tcp_check_ack_def is_drop_tcp_ack_def Let_def split: sum.splits option.splits if_splits
      dest: tcp_options_fault tcp_ack_offset_fault)

lemma handle_new_locked_ok:
  assumes "handle_new_locked hz now TCP_ACK_DROP_CNT new j msg = (r, i, d)" "slot_ok hz now True None j" "busy j"
  shows "slot_ok hz now True (if r then None else Some new) i \<and> busy i \<and>
    opt_mset (msgbuf i) + (opt_mset d + (if r then {#} else {#new#})) = opt_mset (msgbuf j) + {#new#}"
proof -
  let ?q = "psh_flag j \<and> \<not> U32_BEFORE (seq msg) (psh_seq j)"
  have j: "in_send_msg j = None" "timeout j = msecs_to_jiffies hz ACK_OLD_TIME" "timer j = None \<longleftrightarrow> msgbuf j = None"
    using assms(2) by (auto simp: slot_ok_def)
  have e: "unat (e - now) \<le> unat (msecs_to_jiffies hz 5)" "drop_cnt j < 10" if "timer j = Some e" for e
    using assms(2) that by (auto simp: slot_ok_def)
  consider (old) "\<not> U32_BEFORE (seq (ack_msg j)) (seq msg)"
    | (send) "U32_BEFORE (seq (ack_msg j)) (seq msg)" "?q \<or> drop_cnt j + 1 \<ge> 10"
    | (hold) "U32_BEFORE (seq (ack_msg j)) (seq msg)" "\<not> ?q" "drop_cnt j + 1 < 10" by linarith
  then show ?thesis
  proof cases
    case old
    then have "r \<and> i = j\<lparr>last_time := now\<rparr> \<and> d = Some new" using assms(1) by (auto simp: handle_new_locked_def)
    with j e assms(3) show ?thesis by (auto simp: slot_ok_def)
  next
    case send
    then have "\<not> r \<and> timer i = None \<and> msgbuf i = None \<and> in_send_msg i = Some new \<and> busy i = busy j \<and> timeout i = timeout j \<and> d = msgbuf j"
      using assms(1) j(1) by (auto simp: handle_new_locked_def Let_def split: if_splits)
    with j assms(3) show ?thesis by (auto simp: slot_ok_def)
  next
    case hold
    then have i: "r \<and> timer i = (if timer j = None then Some (now + msecs_to_jiffies hz 5) else timer j) \<and> msgbuf i = Some new \<and>
        in_send_msg i = None \<and> busy i = busy j \<and> timeout i = timeout j \<and> d = msgbuf j \<and> last_time i = now \<and> drop_cnt i < 10"
      using assms(1) j(1) by (auto simp: handle_new_locked_def Let_def split: if_splits)
    with j e assms(3) show ?thesis by (auto simp: slot_ok_def)
  qed
qed

lemma drop_opt_ok:
  assumes "tcp_inv hz en (opt_mset d + X) y s"
  shows "\<exists>t. drop_opt d s = Inr t \<and> tcp_inv hz en X y t \<and> ack_m t = ack_m s \<and> jiffies t = jiffies s \<and> sent t = sent s"
  using assms drop_msg_ok by (cases d) (auto simp: drop_opt_def)

lemma handle_new_ok:
  assumes inv: "tcp_inv hz True {#new#} None s" and k: "k < TCP_ACK_NUM" "busy (slot s k)"
  shows "\<exists>r t. tcp_ack_handle_new hz new k msg ty s = Inr (r, t) \<and>
    tcp_inv hz True (if r then {#} else {#new#}) (if r then None else Some new) t \<and>
    enable (ack_m t) = enable (ack_m s) \<and> jiffies t = jiffies s \<and> sent t = sent s"
proof -
  obtain r i d where h: "handle_new_locked hz (jiffies s) TCP_ACK_DROP_CNT new (slot s k) msg = (r, i, d)"
    by (metis prod_cases3)
  note ok = handle_new_locked_ok [OF h inv_slot [OF inv k(1)] k(2)]
  have "tcp_inv hz True (opt_mset d + (if r then {#} else {#new#})) (if r then None else Some new) (set_slot k i s)"
    using ok k(2) by (intro inv_set_slot [OF inv k(1)]) simp_all
  from drop_opt_ok [OF this] obtain t where "drop_opt d (set_slot k i s) = Inr t"
    "tcp_inv hz True (if r then {#} else {#new#}) (if r then None else Some new) t"
    "ack_m t = ack_m (set_slot k i s)" "jiffies t = jiffies s" "sent t = sent s" by auto
  moreover have "max_drop_cnt (ack_m s) = TCP_ACK_DROP_CNT" using inv by (simp add: tcp_inv_def am_ok_def)
  ultimately show ?thesis using h by (simp add: tcp_ack_handle_new_def)
qed

lemma inv_mono: "tcp_inv hz en X None s \<Longrightarrow> tcp_inv hz en X y s"
  by (auto simp: tcp_inv_def intro: slot_ok_mono)

lemma set_win_scale_ok:
  assumes "tcp_inv hz en X None s" "k < TCP_ACK_NUM"
  shows "tcp_inv hz en X None (set_slot k ((slot s k)\<lparr>win_scale := ws\<rparr>) s)"
  using inv_slot [OF assms] by (intro inv_set_slot [OF assms]) (simp_all add: slot_ok_def)

lemma known_flow_ok:
  assumes inv: "tcp_inv hz en {#new#} None s" "en = enable (ack_m s)" and k: "k < TCP_ACK_NUM" "busy (slot s k)" and dr: "dr > 0"
  shows "\<exists>r t. filter_known_flow hz new k msg dr ws s = Inr (r, t) \<and>
    tcp_inv hz en (if r then {#} else {#new#}) (if r then None else Some new) t \<and>
    enable (ack_m t) = en \<and> jiffies t = jiffies s \<and> sent t = sent s"
proof -
  define s1 where "s1 = (if ws \<noteq> 0 \<and> win_scale (slot s k) \<noteq> ws then set_slot k ((slot s k)\<lparr>win_scale := ws\<rparr>) s else s)"
  have l: "length (ack_info (ack_m s)) = TCP_ACK_NUM" using inv by (simp add: tcp_inv_def am_ok_def)
  have s1: "tcp_inv hz en {#new#} None s1" using inv(1) set_win_scale_ok [OF inv(1) k(1)] by (simp add: s1_def)
  have b: "busy (slot s1 k)" "enable (ack_m s1) = en" "jiffies s1 = jiffies s" "sent s1 = sent s"
    using k l inv(2) by (simp_all add: s1_def)
  show ?thesis
  proof (cases en)
    case True
    with handle_new_ok [of hz new s1 k msg] s1 k(1) b dr show ?thesis
      by (fastforce simp: filter_known_flow_def s1_def [symmetric] Let_def)
  next
    case False
    with s1 b show ?thesis by (auto simp: filter_known_flow_def s1_def [symmetric] Let_def inv_mono)
  qed
qed

lemma filter_new_flow_ok:
  assumes inv: "tcp_inv hz en X None s"
  shows "tcp_inv hz en X None (filter_new_flow msg ws s)" "enable (ack_m (filter_new_flow msg ws s)) = enable (ack_m s)"
    "jiffies (filter_new_flow msg ws s) = jiffies s" "sent (filter_new_flow msg ws s) = sent s"
proof -
  obtain ok am where al: "tcp_ack_alloc_index (ack_m s) = (ok, am)" by fastforce
  then have "ok = None \<Longrightarrow> am = ack_m s" "enable am = enable (ack_m s)"
    by (auto simp: tcp_ack_alloc_index_def split: if_splits option.splits)
  with inv new_flow_ok [OF inv, of _ am ws msg] al
  show "tcp_inv hz en X None (filter_new_flow msg ws s)" "enable (ack_m (filter_new_flow msg ws s)) = enable (ack_m s)"
    "jiffies (filter_new_flow msg ws s) = jiffies s" "sent (filter_new_flow msg ws s) = sent s"
    by (auto simp: filter_new_flow_def Let_def split: option.splits)
qed

text \<open>What \<open>filter_send_tcp_ack\<close> promises for the message buffer \<open>new\<close> its caller owns.\<close>

lemma filter_send_ok:
  assumes inv: "tcp_inv hz (enable (ack_m s)) {#new#} None s"
  shows "case filter_send_tcp_ack hz new buf plen s of
    Inl f \<Rightarrow> f = Out_Of_Bounds
  | Inr (r, t) \<Rightarrow> tcp_inv hz (enable (ack_m s)) (if r then {#} else {#new#}) (if r then None else Some new) t \<and>
      enable (ack_m t) = enable (ack_m s) \<and> jiffies t = jiffies s \<and> sent t = sent s"
proof (cases "plen > MAX_TCP_ACK \<or> (\<exists>f. tcp_check_ack buf 0 = Inl f)")
  case True
  with inv show ?thesis by (auto simp: filter_send_tcp_ack_def inv_mono tcp_check_ack_fault)
next
  case False
  let ?s = "s\<lparr>ack_m := tcp_ack_update (jiffies s) (ack_m s)\<rparr>"
  note up = update_ok [OF inv]
  obtain dr om ws where chk: "tcp_check_ack buf 0 = Inr (dr, om, ws)"
    using False by (metis obj_sumE prod_cases3)
  show ?thesis
  proof (cases "dr = 0 \<and> ws = 0")
    case True
    with False chk up show ?thesis by (simp add: filter_send_tcp_ack_def Let_def inv_mono)
  next
    case pos: False
    with tcp_check_ack_cases [OF chk] obtain msg where dr: "dr > 0" "om = Some msg" by auto
    show ?thesis
    proof (cases "tcp_ack_match (ack_m ?s) msg")
      case None
      with False chk pos dr filter_new_flow_ok [OF up(1), of msg ws] up(2) show ?thesis
        by (simp add: filter_send_tcp_ack_def Let_def inv_mono)
    next
      case (Some k)
      then have "k < TCP_ACK_NUM" "busy (slot ?s k)"
        using match_Some [OF Some] up(1) by (simp_all add: tcp_inv_def am_ok_def)
      from known_flow_ok [OF up(1) _ this dr(1), of msg ws] up(2) False chk pos dr Some show ?thesis
        by (auto simp: filter_send_tcp_ack_def Let_def)
    qed
  qed
qed

lemma finish_send_ok:
  assumes "tcp_inv hz (enable (ack_m s)) {#m#} (Some m) s"
  shows "\<exists>t skb. msgs s m = Some skb \<and> send_msg m (move_tcpack_msg m s) = Inr t \<and>
    tcp_inv hz (enable (ack_m s)) {#} None t \<and> enable (ack_m t) = enable (ack_m s) \<and> jiffies t = jiffies s \<and> sent t = sent s @ [skb]"
proof -
  note mv = move_ok [OF assms, of m]
  from send_msg_ok [OF mv(1)] mv show ?thesis by auto
qed

lemma alloc_ok:
  assumes inv: "tcp_good hz s" and m: "msgs s m = None"
  shows "tcp_inv hz (enable (ack_m s)) {#m#} None (s\<lparr>given := given s @ [skb], msgs := (msgs s)(m \<mapsto> skb)\<rparr>)"
proof -
  let ?s = "s\<lparr>given := given s @ [skb], msgs := (msgs s)(m \<mapsto> skb)\<rparr>"
  have o: "owned {#m#} ?s = add_mset m (owned {#} s)" by (simp add: owned_def)
  have nm: "m \<notin># owned {#} s" using inv m by (simp add: tcp_inv_def msgs_ok_def)
  have "image_mset (\<lambda>k. the (msgs ?s k)) (owned {#} s) = image_mset (\<lambda>k. the (msgs s k)) (owned {#} s)"
    using nm by (intro image_mset_cong) auto
  moreover have "count (owned {#} s) k \<le> 1" for k using inv by (simp add: tcp_inv_def msgs_ok_def)
  moreover have "count (add_mset m (owned {#} s)) k \<le> 1" for k
    using nm \<open>count (owned {#} s) k \<le> 1\<close> by (cases "k = m") (simp_all add: not_in_iff)
  ultimately have "msgs_ok {#m#} ?s" using inv nm unfolding msgs_ok_def o by (auto simp: tcp_inv_def msgs_ok_def)
  then show ?thesis using inv by (simp add: tcp_inv_def)
qed

lemma xmit_ok:
  assumes inv: "tcp_good hz s" and m: "msgs s m = None"
  shows "case xmit_ack hz True m skb s of Inl f \<Rightarrow> f = Out_Of_Bounds | Inr t \<Rightarrow> tcp_good hz t"
proof (cases "uint (word_of_nat (length skb) :: u16) > MAX_TCP_ACK")
  case True
  with inv show ?thesis
    by (simp add: xmit_ack_def Let_def tcp_inv_def msgs_ok_def owned_def)
next
  case False
  let ?plen = "uint (word_of_nat (length skb) :: u16)"
  let ?s = "s\<lparr>given := given s @ [skb], msgs := (msgs s)(m \<mapsto> skb)\<rparr>"
  have i: "tcp_inv hz (enable (ack_m ?s)) {#m#} None ?s" using alloc_ok [OF assms] by simp
  show ?thesis
  proof (cases "filter_send_tcp_ack hz m skb ?plen ?s")
    case (Inl f)
    with filter_send_ok [OF i, of skb ?plen] False show ?thesis
      by (simp add: xmit_ack_def Let_def intf_tcp_alloc_msg_def)
  next
    case (Inr x)
    obtain r t where x: "x = (r, t)" by fastforce
    note f = filter_send_ok [OF i, of skb ?plen, unfolded Inr x, simplified]
    show ?thesis
    proof (cases r)
      case True
      with f Inr x False show ?thesis by (simp add: xmit_ack_def Let_def intf_tcp_alloc_msg_def)
    next
      case nr: False
      with f have "tcp_inv hz (enable (ack_m t)) {#m#} (Some m) t" by simp
      from finish_send_ok [OF this] Inr x False nr f show ?thesis
        by (auto simp: xmit_ack_def Let_def intf_tcp_alloc_msg_def)
    qed
  qed
qed

lemma recv_ok: "tcp_good hz s \<Longrightarrow> filter_rx_tcp_ack buf plen s = Inr t \<Longrightarrow> tcp_good hz t"
proof -
  assume inv: "tcp_good hz s" and res: "filter_rx_tcp_ack buf plen s = Inr t"
  show ?thesis
  proof (cases "t = s")
    case False
    then obtain msg k where k: "tcp_ack_match (ack_m s) msg = Some k"
      and t: "t = set_slot k ((slot s k)\<lparr>psh_flag := True, psh_seq := seq msg\<rparr>) s"
      using res by (auto simp: filter_rx_tcp_ack_def split: if_splits sum.splits option.splits)
    have k': "k < TCP_ACK_NUM" using match_Some [OF k] inv by (simp add: tcp_inv_def am_ok_def)
    have "slot_ok hz (jiffies s) (enable (ack_m s)) None ((slot s k)\<lparr>psh_flag := True, psh_seq := seq msg\<rparr>)"
      using inv_slot [OF inv k'] by (simp add: slot_ok_def)
    then have "tcp_inv hz (enable (ack_m s)) {#} None t"
      unfolding t by (intro inv_set_slot [OF inv k']) simp_all
    then show ?thesis by (simp add: t)
  qed (use inv in simp)
qed

text \<open>The expiry of a timer sends the message the slot holds.\<close>

lemma timeout_ok:
  assumes inv: "tcp_good hz s" and k: "k < TCP_ACK_NUM" "timer (slot s k) = Some e"
  shows "\<exists>m skb t. msgbuf (slot s k) = Some m \<and> msgs s m = Some skb \<and> tcp_ack_timeout k s = Inr t \<and>
    tcp_good hz t \<and> sent t = sent s @ [skb]"
proof -
  let ?i = "slot s k"
  note ok = inv_slot [OF inv k(1)]
  obtain m where m: "msgbuf ?i = Some m" using ok k(2) by (auto simp: slot_ok_def)
  have b: "busy ?i" "in_send_msg ?i = None" and en: "enable (ack_m s)" using ok k(2) by (auto simp: slot_ok_def)
  let ?j = "?i\<lparr>timer := None, msgbuf := None, drop_cnt := 0, in_send_msg := Some m\<rparr>"
  have t: "tcp_ack_timeout k s = send_msg m (move_tcpack_msg m (set_slot k ?j s))"
    using m b by (simp add: tcp_ack_timeout_def intf_tx_def)
  have "tcp_inv hz (enable (ack_m s)) {#m#} (Some m) (set_slot k ?j s)"
    using ok b en m by (intro inv_set_slot [OF inv k(1)]) (auto simp: slot_ok_def)
  then have "tcp_inv hz (enable (ack_m (set_slot k ?j s))) {#m#} (Some m) (set_slot k ?j s)" by simp
  from finish_send_ok [OF this] t m show ?thesis by auto
qed

lemma deinit_slot_ok:
  assumes inv: "tcp_inv hz True {#} None s" and k: "k < TCP_ACK_NUM"
  shows "\<exists>t. deinit_slot k s = Inr t \<and> tcp_inv hz True {#} None t \<and> enable (ack_m t) = enable (ack_m s) \<and>
    ack_info (ack_m t) = (ack_info (ack_m s))[k := (slot s k)\<lparr>timer := None, msgbuf := None\<rparr>]"
proof -
  let ?t = "set_slot k ((slot s k)\<lparr>timer := None, msgbuf := None\<rparr>) s"
  have "tcp_inv hz True (opt_mset (msgbuf (slot s k))) None ?t"
    using inv_slot [OF inv k] by (intro inv_set_slot [OF inv k]) (auto simp: slot_ok_def)
  then show ?thesis
    using drop_msg_ok [of hz True _ "{#}" None ?t] by (cases "msgbuf (slot s k)") (fastforce simp: deinit_slot_def)+
qed

lemma deinit_loop_ok:
  assumes "tcp_inv hz True {#} None s" "n \<le> TCP_ACK_NUM"
  shows "\<exists>t. fold (\<lambda>k r. case r of Inl f \<Rightarrow> Inl f | Inr t \<Rightarrow> deinit_slot k t) [0..<n] (Inr s) = Inr t \<and>
    tcp_inv hz True {#} None t \<and> enable (ack_m t) = enable (ack_m s) \<and> (\<forall>k < n. timer (slot t k) = None)"
  using assms(2)
proof (induction n)
  case 0
  with assms(1) show ?case by simp
next
  case (Suc n)
  then obtain t where t: "fold (\<lambda>k r. case r of Inl f \<Rightarrow> Inl f | Inr t \<Rightarrow> deinit_slot k t) [0..<n] (Inr s) = Inr t"
    "tcp_inv hz True {#} None t" "enable (ack_m t) = enable (ack_m s)" "\<forall>k < n. timer (slot t k) = None" by auto
  have n: "n < TCP_ACK_NUM" using Suc.prems by simp
  have l: "length (ack_info (ack_m t)) = TCP_ACK_NUM" using t(2) by (simp add: tcp_inv_def am_ok_def)
  obtain u where u: "deinit_slot n t = Inr u" "tcp_inv hz True {#} None u" "enable (ack_m u) = enable (ack_m t)"
    "ack_info (ack_m u) = (ack_info (ack_m t))[n := (slot t n)\<lparr>timer := None, msgbuf := None\<rparr>]"
    using deinit_slot_ok [OF t(2) n] by blast
  have "timer (slot u k) = None" if "k < Suc n" for k
    using that t(4) l n by (cases "k = n") (simp_all add: u(4))
  then show ?case using t(1,3) u(1-3) by simp
qed

lemma sum_list_empty: "\<forall>x \<in> set xs. f x = {#} \<Longrightarrow> sum_list (map f xs) = {#}"
  by (induction xs) simp_all

lemma deinit_ok:
  assumes inv: "tcp_good hz s"
  shows "\<exists>t. tcp_ack_deinit s = Inr t \<and> tcp_good hz t \<and> \<not> enable (ack_m t) \<and> owned {#} t = {#}"
proof -
  let ?s = "s\<lparr>ack_m := (ack_m s)\<lparr>enable := False\<rparr>\<rparr>"
  have "owned {#} ?s = owned {#} s" by (simp add: owned_def)
  then have "tcp_inv hz True {#} None ?s"
    using inv slot_ok_en by (simp add: tcp_inv_def am_ok_def msgs_ok_def) blast
  from deinit_loop_ok [OF this order_refl] obtain t where t: "tcp_ack_deinit s = Inr t" "tcp_inv hz True {#} None t"
    "\<not> enable (ack_m t)" "\<forall>k < TCP_ACK_NUM. timer (slot t k) = None" by (auto simp: tcp_ack_deinit_def)
  have l: "length (ack_info (ack_m t)) = TCP_ACK_NUM" using t(2) by (simp add: tcp_inv_def am_ok_def)
  have ok: "timer i = None" "msgbuf i = None" "slot_ok hz (jiffies t) False None i" if i: "i \<in> set (ack_info (ack_m t))" for i
  proof -
    obtain k where "k < TCP_ACK_NUM" "i = slot t k" using i l by (metis in_set_conv_nth)
    then show tm: "timer i = None" using t(4) by simp
    have "slot_ok hz (jiffies t) True None i" using t(2) i by (simp add: tcp_inv_def)
    then show "msgbuf i = None" "slot_ok hz (jiffies t) False None i" using tm by (auto simp: slot_ok_def)
  qed
  have "owned {#} t = {#}" using ok(2) by (simp add: owned_def sum_list_empty)
  with t(1-3) ok(3) show ?thesis by (simp add: tcp_inv_def)
qed

lemma tick_ok:
  assumes "tcp_good hz s" "\<forall>k < TCP_ACK_NUM. timer (slot s k) \<noteq> Some (jiffies s)"
  shows "tcp_good hz (s\<lparr>jiffies := jiffies s + 1\<rparr>)"
proof -
  have "length (ack_info (ack_m s)) = TCP_ACK_NUM" using assms(1) by (simp add: tcp_inv_def am_ok_def)
  then have "timer i \<noteq> Some (jiffies s)" if "i \<in> set (ack_info (ack_m s))" for i
    using that assms(2) by (auto simp: in_set_conv_nth)
  with assms(1) show ?thesis by (auto simp: tcp_inv_def msgs_ok_def owned_def intro: slot_tick)
qed

lemma boot_ok: "tcp_good hz (tcp_boot hz now)"
proof -
  have z: "sum_list (map (\<lambda>_. 0 :: int) xs) = 0" "sum_list (map (\<lambda>_. {#}) xs) = {#}" for xs :: "nat list"
    by (induction xs) simp_all
  show ?thesis
    by (auto simp: tcp_boot_def tcp_ack_init_def tcp_inv_def am_ok_def msgs_ok_def owned_def slot_ok_def o_def z
        TCP_ACK_NUM_def simp del: upt_rec_numeral)
qed

interpretation tcp: invariant_of "tcp_boot hz now" "tcp_step hz" "tcp_good hz" for hz now
proof
  show "tcp_good hz (tcp_boot hz now)" by (rule boot_ok)
next
  fix s t assume inv: "tcp_good hz s" and st: "tcp_step hz s t"
  from st show "tcp_good hz t"
  proof cases
    case (st_xmit m skb)
    with xmit_ok [OF inv, of m skb] show ?thesis by simp
  next
    case (st_recv buf plen)
    with recv_ok [OF inv] show ?thesis by blast
  next
    case (st_timer k)
    with timeout_ok [OF inv, of k "jiffies s"] show ?thesis by auto
  next
    case st_tick
    with tick_ok [OF inv] show ?thesis by simp
  next
    case st_deinit
    with deinit_ok [OF inv] show ?thesis by auto
  qed
qed

section \<open>Properties\<close>

text \<open>
  A history for the witnesses: three acknowledgements of one flow.  The first sets up the slot, the
  second is sent, the third is held.
\<close>

definition w_ack :: "u8 \<Rightarrow> u8 list" where
  "w_ack n = replicate 12 0 @ [0x08, 0x00] @ [0x45, 0, 0, 40, 0, 0, 0, 0, 64, 6, 0, 0, 10, 0, 0, 1, 10, 0, 0, 2]
     @ [0x10, 0x00, 0x20, 0x00] @ [0, 0, 0, 7] @ [0, 0, 0, n] @ [0x50, 0x10, 0x40, 0x00, 0, 0, 0, 0]"

definition w_xmit :: "nat \<Rightarrow> u8 list \<Rightarrow> ack_sys \<Rightarrow> ack_sys" where
  "w_xmit m skb s = (case xmit_ack HZ_100 True m skb s of Inr t \<Rightarrow> t | Inl _ \<Rightarrow> s)"

definition w_ack1 :: ack_sys where "w_ack1 = w_xmit 0 (w_ack 1) (tcp_boot HZ_100 1000)"
definition w_ack2 :: ack_sys where "w_ack2 = w_xmit 0 (w_ack 2) w_ack1"
definition w_ack3 :: ack_sys where "w_ack3 = w_xmit 0 (w_ack 3) w_ack2"

definition w_ok :: "nat \<Rightarrow> u8 list \<Rightarrow> ack_sys \<Rightarrow> bool" where
  "w_ok m skb s \<longleftrightarrow> msgs s m = None \<and> (case xmit_ack HZ_100 True m skb s of Inr _ \<Rightarrow> True | Inl _ \<Rightarrow> False)"

lemma w_xmit_reach:
  assumes "reachable b (tcp_step HZ_100) s" "w_ok m skb s"
  shows "reachable b (tcp_step HZ_100) (w_xmit m skb s)"
proof -
  have "tcp_step HZ_100 s (w_xmit m skb s)"
    using assms(2) by (intro st_xmit [of s m HZ_100 skb]) (auto simp: w_ok_def w_xmit_def split: sum.splits)
  with assms(1) show ?thesis by (rule reach_step)
qed

lemma w_ack_reach: "reachable (tcp_boot HZ_100 1000) (tcp_step HZ_100) w_ack3"
proof -
  have "reachable (tcp_boot HZ_100 1000) (tcp_step HZ_100) w_ack1" unfolding w_ack1_def
    by (rule w_xmit_reach [OF reach_init]) code_simp
  then have "reachable (tcp_boot HZ_100 1000) (tcp_step HZ_100) w_ack2" unfolding w_ack2_def
    by (rule w_xmit_reach) code_simp
  then show ?thesis unfolding w_ack3_def
    by (rule w_xmit_reach) code_simp
qed

definition w_see :: "ack_sys \<Rightarrow> bool" where
  "w_see s \<longleftrightarrow> msgbuf (slot s 0) = Some 0 \<and> enable (ack_m s) \<and> msgs s 1 = None \<and> msgs s 0 = Some (w_ack 3) \<and>
     busy (slot s 0) \<and> seq (ack_msg (slot s 0)) = 3"

lemma w_see_ack3: "w_see w_ack3"
  by code_simp

lemmas w_ack3_facts = w_see_ack3 [unfolded w_see_def]



text \<open>
  C15: the filter neither loses nor duplicates a packet.  In every reachable state each packet taken
  from the network stack has been passed on, has been freed, or is held by exactly one slot; sending
  a packet can only fail by reading past its end, and no timer and no shutdown frees a message twice.
\<close>

theorem tcp_ack_conserves:
  assumes "reachable (tcp_boot hz now) (tcp_step hz) s"
  shows "mset (given s) = mset (sent s) + mset (dropped s) + image_mset (\<lambda>m. the (msgs s m)) (owned {#} s) \<and>
    (\<forall>m. count (owned {#} s) m = (if msgs s m = None then 0 else 1)) \<and>
    (\<forall>m skb f. msgs s m = None \<and> xmit_ack hz True m skb s = Inl f \<longrightarrow> f = Out_Of_Bounds) \<and>
    (\<forall>k < TCP_ACK_NUM. timer (slot s k) \<noteq> None \<longrightarrow> (\<exists>t. tcp_ack_timeout k s = Inr t)) \<and>
    (\<exists>t. tcp_ack_deinit s = Inr t \<and> owned {#} t = {#})"
proof -
  note inv = tcp.holds [OF assms]
  then have ok: "msgs_ok {#} s" by (simp add: tcp_inv_def)
  have "count (owned {#} s) m = (if msgs s m = None then 0 else 1)" for m
  proof -
    have "count (owned {#} s) m \<le> 1" "m \<in># owned {#} s \<longleftrightarrow> msgs s m \<noteq> None" using ok by (simp_all add: msgs_ok_def)
    then show ?thesis by (cases "m \<in># owned {#} s") (auto simp: not_in_iff count_greater_zero_iff [symmetric] simp del: count_greater_zero_iff)
  qed
  moreover have "f = Out_Of_Bounds" if "msgs s m = None" "xmit_ack hz True m skb s = Inl f" for m skb f
    using xmit_ok [OF inv that(1), of skb] that(2) by simp
  ultimately show ?thesis
    using ok timeout_ok [OF inv] deinit_ok [OF inv] by (fastforce simp: msgs_ok_def)
qed

theorem tcp_ack_conserves_witness:
  "mset (given w_ack3) = mset (sent w_ack3) + mset (dropped w_ack3) + image_mset (\<lambda>m. the (msgs w_ack3 m)) (owned {#} w_ack3)"
  using tcp_ack_conserves [OF w_ack_reach] by blast


definition w_ack4 :: ack_sys where
  "w_ack4 = w_ack3\<lparr>given := given w_ack3 @ [w_ack 4], msgs := (msgs w_ack3)(1 \<mapsto> w_ack 4)\<rparr>"

definition w_msg :: tcp_ack_msg where
  "w_msg = \<lparr>source = 0x1000, dest = 0x2000, saddr = 0x0a000001, daddr = 0x0a000002, seq = 4, win = 0x4000\<rparr>"

definition w_ack5 :: ack_sys where
  "w_ack5 = (case tcp_ack_handle_new HZ_100 1 0 w_msg 1 w_ack4 of Inr x \<Rightarrow> snd x | Inl _ \<Rightarrow> w_ack4)"

lemma w_ack4_inv: "tcp_inv HZ_100 True {#1#} None w_ack4" "busy (slot w_ack4 0)"
proof -
  note w_ack3_facts
  with alloc_ok [OF tcp.holds [OF w_ack_reach], of 1 "w_ack 4"] show "tcp_inv HZ_100 True {#1#} None w_ack4"
    by (simp add: w_ack4_def)
  show "busy (slot w_ack4 0)" using w_ack3_facts by (simp add: w_ack4_def)
qed


text \<open>
  C17: for an acknowledgement without further options the new routine and the one it has replaced
  do the same.
\<close>

theorem tcp_ack_handle_equiv:
  assumes "ty \<noteq> 2"
  shows "tcp_ack_handle hz new k msg ty s = tcp_ack_handle_new hz new k msg ty s"
proof -
  have "handle_locked hz now mx new i msg ty = handle_new_locked hz now mx new i msg" for now mx i
    using assms by (cases i) (auto simp: handle_locked_def handle_new_locked_def Let_def)
  then show ?thesis by (simp add: tcp_ack_handle_def tcp_ack_handle_new_def)
qed

theorem tcp_ack_handle_equiv_witness:
  "tcp_ack_handle HZ_100 1 0 w_msg 1 w_ack4 = tcp_ack_handle_new HZ_100 1 0 w_msg 1 w_ack4"
  by (rule tcp_ack_handle_equiv) simp

text \<open>
  An acknowledgement that carries more information (type 2, for instance selective
  acknowledgement blocks) is treated like any other: where the replaced routine sends it at once,
  the new one holds it back, to be freed when the next one arrives.
\<close>

theorem tcp_ack_more_info_held:
  assumes inv: "tcp_inv hz True {#new#} None s" and k: "k < TCP_ACK_NUM" "busy (slot s k)"
    and newer: "U32_BEFORE (seq (ack_msg (slot s k))) (seq msg)" "\<not> psh_flag (slot s k)" "drop_cnt (slot s k) + 1 < TCP_ACK_DROP_CNT"
  shows "\<exists>t u. tcp_ack_handle_new hz new k msg 2 s = Inr (True, t) \<and> msgbuf (slot t k) = Some new \<and>
    tcp_ack_handle hz new k msg 2 s = Inr (False, u)"
proof -
  have l: "length (ack_info (ack_m s)) = TCP_ACK_NUM" and mx: "max_drop_cnt (ack_m s) = TCP_ACK_DROP_CNT"
    using inv by (simp_all add: tcp_inv_def am_ok_def)
  obtain r i d where h: "handle_new_locked hz (jiffies s) TCP_ACK_DROP_CNT new (slot s k) msg = (r, i, d)" by (metis prod_cases3)
  then have i: "r" "msgbuf i = Some new" "d = msgbuf (slot s k)"
    using newer by (auto simp: handle_new_locked_def Let_def)
  obtain r' i' where h': "handle_locked hz (jiffies s) TCP_ACK_DROP_CNT new (slot s k) msg 2 = (r', i', d)"
    and i': "\<not> r'" using newer i(3) by (auto simp: handle_locked_def Let_def)
  have m: "msgbuf (slot s k) = Some m \<Longrightarrow> msgs s m \<noteq> None" for m
  proof -
    assume "msgbuf (slot s k) = Some m"
    moreover have "slot s k \<in> set (ack_info (ack_m s))" using l k(1) by simp
    ultimately have "m \<in># owned {#new#} s" using mem_sum_list by (fastforce simp: owned_def)
    then show "msgs s m \<noteq> None" using inv by (simp add: tcp_inv_def msgs_ok_def)
  qed
  have "\<exists>t. drop_opt d (set_slot k j s) = Inr t \<and> ack_m t = ack_m (set_slot k j s)" for j
    using m i(3) by (cases "msgbuf (slot s k)") (fastforce simp: drop_opt_def intf_tcp_drop_msg_def)+
  then obtain t u where "drop_opt d (set_slot k i s) = Inr t" "ack_m t = ack_m (set_slot k i s)" "drop_opt d (set_slot k i' s) = Inr u"
    by metis
  then show ?thesis using h h' i i' l k(1) mx by (auto simp: tcp_ack_handle_new_def tcp_ack_handle_def)
qed

theorem tcp_ack_more_info_held_witness:
  "\<exists>t u. tcp_ack_handle_new HZ_100 1 0 w_msg 2 w_ack4 = Inr (True, t) \<and> tcp_ack_handle HZ_100 1 0 w_msg 2 w_ack4 = Inr (False, u)"
proof -
  have "drop_cnt (slot w_ack3 0) = 1 \<and> \<not> psh_flag (slot w_ack3 0)" by code_simp
  then have "U32_BEFORE (seq (ack_msg (slot w_ack4 0))) (seq w_msg)" "\<not> psh_flag (slot w_ack4 0)"
    "drop_cnt (slot w_ack4 0) + 1 < TCP_ACK_DROP_CNT"
    using w_ack3_facts by (simp_all add: w_ack4_def w_msg_def U32_BEFORE_def)
  from tcp_ack_more_info_held [OF w_ack4_inv(1) _ w_ack4_inv(2) this] show ?thesis by (auto simp: TCP_ACK_NUM_def)
qed

section \<open>TCP options\<close>

text \<open>
  The options of a TCP header and their bytes: a one-byte no-operation, or a kind, a size and data.
\<close>

datatype tcp_option = Opt_Nop | Opt u8 "u8 list"

fun opt_bytes :: "tcp_option \<Rightarrow> u8 list" where
  "opt_bytes Opt_Nop = [TCPOPT_NOP]"
| "opt_bytes (Opt k d) = k # word_of_nat (length d + 2) # d"

fun opt_wf :: "tcp_option \<Rightarrow> bool" where
  "opt_wf Opt_Nop \<longleftrightarrow> True"
| "opt_wf (Opt k d) \<longleftrightarrow> k \<noteq> TCPOPT_EOL \<and> k \<noteq> TCPOPT_NOP \<and> length d \<le> 253 \<and> (k = TCPOPT_WINDOW \<longrightarrow> d \<noteq> [])"

text \<open>What an option does to the verdict and to the window scale.\<close>

fun opt_verdict :: "tcp_option \<Rightarrow> int \<Rightarrow> int" where
  "opt_verdict Opt_Nop dr = dr"
| "opt_verdict (Opt k d) dr = (if k = TCPOPT_WINDOW \<or> k = TCPOPT_TIMESTAMP then dr else 2)"

fun opt_scale :: "tcp_option \<Rightarrow> u16 \<Rightarrow> u16" where
  "opt_scale Opt_Nop ws = ws"
| "opt_scale (Opt k d) ws = (if k = TCPOPT_WINDOW \<and> hd d < 15 then push_bit (unat (hd d)) 1 else ws)"

lemma opt_verdict_pos: "dr \<noteq> 0 \<Longrightarrow> opt_verdict x dr \<noteq> 0"
  by (cases x) auto

lemma tcp_options_one:
  assumes wf: "opt_wf x" and dr: "dr \<noteq> 0" and n: "0 \<le> n"
  shows "tcp_options (int (length (opt_bytes x)) + n) (opt_bytes x @ r) dr ws = tcp_options n r (opt_verdict x dr) (opt_scale x ws)"
proof (cases x)
  case Opt_Nop
  with dr n show ?thesis by simp
next
  case (Opt k d)
  define z where "z = (word_of_nat (length d + 2) :: u8)"
  have "unat (word_of_nat n :: u8) = n" if "n < 256" for n using that by (simp add: unat_of_nat)
  from this [of "length d + 2"] have uz: "unat z = length d + 2" using wf Opt unfolding z_def by simp
  have "uint z = int (unat z)" by simp
  with uz have iz: "uint z = int (length d) + 2" by linarith
  have b: "opt_bytes x = k # z # d" by (simp only: Opt opt_bytes.simps z_def)
  have k: "k \<noteq> 0" "k \<noteq> 1" using wf Opt by simp_all
  have l: "unat z - 2 = length d" using uz by simp
  show ?thesis
  proof (cases "k = 3")
    case True
    then obtain v vs where d: "d = v # vs" using wf Opt by (cases d) auto
    then have "drop (length d) (v # (vs @ r)) = r" by simp
    with True dr k l d n show ?thesis unfolding b
      by (simp only: append_Cons tcp_options.simps(2) [of _ _ "z # _"] list.case) (simp add: Opt iz del: tcp_options.simps)
  next
    case False
    with dr k l n show ?thesis unfolding b
      by (simp only: append_Cons tcp_options.simps(2) [of _ _ "z # _"] list.case) (simp add: Opt iz del: tcp_options.simps)
  qed
qed

lemma tcp_options_all:
  assumes "\<forall>x \<in> set os. opt_wf x" "dr \<noteq> 0" "0 \<le> n"
  shows "tcp_options (int (length (concat (map opt_bytes os))) + n) (concat (map opt_bytes os) @ r) dr ws =
    tcp_options n r (fold opt_verdict os dr) (fold opt_scale os ws)"
  using assms
proof (induction os arbitrary: dr ws)
  case (Cons x os)
  have "int (length (concat (map opt_bytes (x # os)))) + n =
      int (length (opt_bytes x)) + (int (length (concat (map opt_bytes os))) + n)" by simp
  with Cons tcp_options_one [of x dr "int (length (concat (map opt_bytes os))) + n" "concat (map opt_bytes os) @ r" ws]
  show ?case by (simp add: opt_verdict_pos add.assoc del: length_concat)
qed simp

lemma tcp_options_zeros: "0 < len \<Longrightarrow> dr \<noteq> 0 \<Longrightarrow> tcp_options len (replicate n 0) dr ws = Inl Out_Of_Bounds"
  by (induction n) simp_all

text \<open>
  C18: on a header whose options are well formed and fill it, the option loop returns: the verdict is 1,
  may be dropped, when every option is a no-operation, a window scale or a time stamp, and 2
  otherwise, and the window scale is that of the last valid window-scale option.
\<close>

theorem tcp_options_classify:
  assumes "\<forall>x \<in> set os. opt_wf x"
  shows "tcp_options (int (length (concat (map opt_bytes os)))) (concat (map opt_bytes os) @ r) 1 ws =
    Inr (if \<forall>k d. Opt k d \<in> set os \<longrightarrow> k = TCPOPT_WINDOW \<or> k = TCPOPT_TIMESTAMP then 1 else 2, fold opt_scale os ws)"
proof -
  have v: "fold opt_verdict os dr = (if \<forall>k d. Opt k d \<in> set os \<longrightarrow> k = TCPOPT_WINDOW \<or> k = TCPOPT_TIMESTAMP then dr else 2)" for dr
  proof (induction os arbitrary: dr)
    case (Cons x os)
    then show ?case by (cases x) auto
  qed simp
  have e: "tcp_options 0 r dr ws' = Inr (dr, ws')" for dr ws' by (cases r) simp_all
  show ?thesis using tcp_options_all [OF assms, of 1 0 r ws] by (simp add: v e)
qed

theorem tcp_options_classify_witness:
  "tcp_options 7 (concat (map opt_bytes [Opt 3 [7], Opt 4 [], Opt 5 []]) @ []) 1 0 = Inr (2, 128)"
proof -
  let ?os = "[Opt 3 [7], Opt 4 [], Opt 5 []]"
  have l: "int (length (concat (map opt_bytes ?os))) = 7" and f: "fold opt_scale ?os 0 = 128" by simp_all
  have "(4 :: u8) \<noteq> TCPOPT_WINDOW" "(4 :: u8) \<noteq> TCPOPT_TIMESTAMP" "Opt 4 [] \<in> set ?os" by simp_all
  then have n: "\<not> (\<forall>k d. Opt k d \<in> set ?os \<longrightarrow> k = TCPOPT_WINDOW \<or> k = TCPOPT_TIMESTAMP)" by blast
  have "\<forall>x \<in> set ?os. opt_wf x" by simp
  from tcp_options_classify [OF this, of "[]" 0] show ?thesis unfolding l f if_not_P [OF n] .
qed

text \<open>
  A header whose options end with an end-of-options byte makes the loop read past the packet:
  the loop does not stop at that byte, and at the zero bytes that fill the header it does not count down.
\<close>

theorem tcp_options_eol_overruns:
  assumes "\<forall>x \<in> set os. opt_wf x" "0 < n" "len = int (length (concat (map opt_bytes os))) + int n"
  shows "tcp_options len (concat (map opt_bytes os) @ replicate n TCPOPT_EOL) 1 ws = Inl Out_Of_Bounds"
proof -
  have "fold opt_verdict os 1 \<noteq> 0"
    by (rule fold_invariant [where Q = "\<lambda>_. True" and P = "\<lambda>d. d \<noteq> 0"]) (simp_all add: opt_verdict_pos)
  with tcp_options_all [OF assms(1), of 1 "int n"] assms(2,3) show ?thesis by (simp add: tcp_options_zeros)
qed

theorem tcp_options_eol_overruns_witness: "tcp_options 4 (opt_bytes (Opt 4 []) @ [0, 0]) 1 0 = Inl Out_Of_Bounds"
proof -
  have "replicate 2 TCPOPT_EOL = [0, 0]" "concat (map opt_bytes [Opt 4 []]) = opt_bytes (Opt 4 [])"
    by (simp_all add: numeral_eq_Suc)
  moreover have "\<forall>x \<in> set [Opt 4 []]. opt_wf x" "(4 :: int) = int (length (concat (map opt_bytes [Opt 4 []]))) + int 2" by simp_all
  ultimately show ?thesis using tcp_options_eol_overruns [of "[Opt 4 []]" 2 4 0] by (simp only: zero_less_numeral simp_thms)
qed

end
