(* ===== verification/Txq.thy ===== *)
theory Txq
  imports Cmd_Frame
begin

text \<open>
  The transmit queues of rwnx\_txq.c and rwnx\_txq.h, with the functions of rwnx\_tx.c and sdio\_host.c
  that push, confirm and retry frames.  Every station has nine queues and every interface two; a
  queue that may send is linked into the list of its hardware queue, and \<open>rwnx_hwq_process\<close> takes
  frames from the linked queues to the bus.  A frame (\<open>sk_buff\<close>) is a number; \<open>hdrs\<close> gives its software
  header.  Queues, hardware queues and stations are indices into the tables of \<open>rwnx_hw\<close>.  The logs
  record what is handed to the bus, freed, told to the network stack and told to the firmware.
  The MU-MIMO code is compiled out in the configuration that is built, as are A-MSDUs; there is
  one user per queue.
\<close>

section \<open>Queue numbers\<close>

definition NX_REMOTE_STA_MAX :: nat where [simp]: "NX_REMOTE_STA_MAX = 32"
definition NX_REMOTE_STA_MAX_FOR_OLD_IC :: nat where [simp]: "NX_REMOTE_STA_MAX_FOR_OLD_IC = 10"
definition NX_VIRT_DEV_MAX :: nat where [simp]: "NX_VIRT_DEV_MAX = 4"
definition NX_NB_TID_PER_STA :: nat where [simp]: "NX_NB_TID_PER_STA = 8"
definition NX_NB_TXQ_PER_STA :: nat where [simp]: "NX_NB_TXQ_PER_STA = NX_NB_TID_PER_STA + 1"
definition NX_NB_TXQ_PER_VIF :: nat where [simp]: "NX_NB_TXQ_PER_VIF = 2"
definition NX_NB_TXQ :: nat where
  "NX_NB_TXQ = NX_NB_TXQ_PER_STA * NX_REMOTE_STA_MAX + NX_NB_TXQ_PER_VIF * NX_VIRT_DEV_MAX + 1"
definition NX_BCMC_TXQ_TYPE :: nat where [simp]: "NX_BCMC_TXQ_TYPE = 0"
definition NX_UNK_TXQ_TYPE :: nat where [simp]: "NX_UNK_TXQ_TYPE = 1"
definition NDEV_NO_TXQ :: u16 where [simp]: "NDEV_NO_TXQ = 0xffff"
definition TXQ_INACTIVE :: u16 where [simp]: "TXQ_INACTIVE = 0xffff"
definition NX_TXQ_INITIAL_CREDITS :: u8 where [simp]: "NX_TXQ_INITIAL_CREDITS = 64"
definition RWNX_NDEV_FLOW_CTRL_STOP :: nat where [simp]: "RWNX_NDEV_FLOW_CTRL_STOP = 64"
definition RWNX_NDEV_FLOW_CTRL_RESTART :: nat where [simp]: "RWNX_NDEV_FLOW_CTRL_RESTART = 64"
definition NX_TXQ_CNT :: nat where "NX_TXQ_CNT = 5"
definition SDIO_TXDESC_CNT :: nat where "SDIO_TXDESC_CNT = 64"

text \<open>
  The test for the chips with the smaller station table, which the code repeats in every place, and
  the station limit it selects; \<open>is_multicast_sta\<close> of rwnx\_defs.h.
\<close>

definition old_ic :: "AICWF_IC \<Rightarrow> nat \<Rightarrow> bool" where
  "old_ic chipid chip_id \<longleftrightarrow> chipid = PRODUCT_ID_AIC8801 \<or>
     ((chipid = PRODUCT_ID_AIC8800DC \<or> chipid = PRODUCT_ID_AIC8800DW) \<and> chip_id < 3)"

definition sta_max :: "bool \<Rightarrow> nat" where
  "sta_max old = (if old then NX_REMOTE_STA_MAX_FOR_OLD_IC else NX_REMOTE_STA_MAX)"

definition is_multicast_sta :: "bool \<Rightarrow> nat \<Rightarrow> bool" where
  "is_multicast_sta old sta_idx \<longleftrightarrow> sta_idx \<ge> sta_max old"

definition NX_FIRST_VIF_TXQ_IDX :: "bool \<Rightarrow> nat" where
  "NX_FIRST_VIF_TXQ_IDX old = sta_max old * NX_NB_TXQ_PER_STA"

definition NX_FIRST_UNK_TXQ_IDX :: "bool \<Rightarrow> nat" where
  "NX_FIRST_UNK_TXQ_IDX old = NX_FIRST_VIF_TXQ_IDX old + NX_VIRT_DEV_MAX"

definition NX_OFF_CHAN_TXQ_IDX :: "bool \<Rightarrow> nat" where
  "NX_OFF_CHAN_TXQ_IDX old = NX_FIRST_VIF_TXQ_IDX old + NX_VIRT_DEV_MAX * NX_NB_TXQ_PER_VIF"

definition NX_BCMC_TXQ_NDEV_IDX :: "bool \<Rightarrow> nat" where
  "NX_BCMC_TXQ_NDEV_IDX old = NX_NB_TID_PER_STA * sta_max old"

definition NX_STA_NDEV_IDX :: "nat \<Rightarrow> nat \<Rightarrow> nat" where
  "NX_STA_NDEV_IDX tid sta_idx = tid + sta_idx * NX_NB_TID_PER_STA"

section \<open>Data\<close>

definition RWNX_TXQ_IN_HWQ_LIST :: u8 where "RWNX_TXQ_IN_HWQ_LIST = 1"
definition RWNX_TXQ_STOP_FULL :: u8 where "RWNX_TXQ_STOP_FULL = 2"
definition RWNX_TXQ_STOP_CSA :: u8 where "RWNX_TXQ_STOP_CSA = 4"
definition RWNX_TXQ_STOP_STA_PS :: u8 where "RWNX_TXQ_STOP_STA_PS = 8"
definition RWNX_TXQ_STOP_VIF_PS :: u8 where "RWNX_TXQ_STOP_VIF_PS = 16"
definition RWNX_TXQ_STOP_CHAN :: u8 where "RWNX_TXQ_STOP_CHAN = 32"
definition RWNX_TXQ_STOP_MU_POS :: u8 where "RWNX_TXQ_STOP_MU_POS = 64"
definition RWNX_TXQ_NDEV_FLOW_CTRL :: u8 where "RWNX_TXQ_NDEV_FLOW_CTRL = 128"
definition RWNX_TXQ_STOP :: u8 where
  "RWNX_TXQ_STOP = RWNX_TXQ_STOP_FULL OR RWNX_TXQ_STOP_CSA OR RWNX_TXQ_STOP_STA_PS OR RWNX_TXQ_STOP_VIF_PS OR RWNX_TXQ_STOP_CHAN"

definition LEGACY_PS_ID :: nat where [simp]: "LEGACY_PS_ID = 0"
definition UAPSD_ID :: nat where [simp]: "UAPSD_ID = 1"

definition TXU_CNTRL_RETRY :: u32 where [simp]: "TXU_CNTRL_RETRY = 0x001"
definition TXU_CNTRL_MORE_DATA :: u32 where [simp]: "TXU_CNTRL_MORE_DATA = 0x004"
definition TXU_CNTRL_MGMT :: u32 where [simp]: "TXU_CNTRL_MGMT = 0x008"
definition TXU_CNTRL_EOSP :: u32 where [simp]: "TXU_CNTRL_EOSP = 0x200"

text \<open>
  \<open>struct rwnx_txq\<close>.  \<open>credits\<close> is a signed byte, read with \<open>sint\<close>; \<open>sta\<close> and \<open>ndev\<close> are a station and a
  network device by number.
\<close>

record rwnx_txq =
  idx :: u16
  status :: u8
  credits :: u8
  pkt_sent :: u8
  pkt_pushed :: u8
  sk_list :: "nat list"
  last_retry_skb :: "nat option"
  hwq :: nat
  nb_retry :: int
  push_limit :: u8
  q_tid :: nat
  q_sta :: "nat option"
  ps_id :: nat
  ndev_idx :: u16
  ndev :: nat

record rwnx_hwq =
  hlist :: "nat list"
  hsize :: u8
  hid :: nat
  need_processing :: bool

record rwnx_sta =
  sta_idx :: nat
  sta_vif :: nat
  ps_active :: bool
  pkt_ready :: "nat \<Rightarrow> u16"
  sp_cnt :: "nat \<Rightarrow> u16"
  uapsd_tids :: u16
  tdls_active :: bool
  tdls_chsw_en :: bool

datatype vif_type = IF_STATION | IF_P2P_CLIENT | IF_AP_VLAN | IF_AP | IF_MESH_POINT | IF_P2P_GO | IF_MONITOR | IF_OTHER

record rwnx_vif =
  vif_index :: nat
  vif_iftype :: vif_type
  vif_master :: nat          \<comment> \<open>\<open>vif_index\<close> of the master of an AP VLAN\<close>
  vif_ndev :: nat
  vif_ap :: "nat option"
  vif_tdls_sta :: "nat option"
  vif_tdls_link :: bool      \<comment> \<open>\<open>tdls_status == TDLS_LINK_ACTIVE\<close>\<close>
  vif_roc_tdls :: bool
  vif_bcmc_index :: nat
  vif_sta_list :: "nat list" \<comment> \<open>of the master, for an AP VLAN\<close>

text \<open>\<open>struct rwnx_sw_txhdr\<close>; \<open>h_byte\<close> is the first byte of the frame proper.\<close>

record rwnx_sw_txhdr =
  h_txq :: nat
  h_sta :: "nat option"
  h_mesh :: bool
  hw_queue :: nat
  h_flags :: u32
  h_byte :: u8
  ethertype :: u16
  need_cfm :: bool
  hostid :: u32
  raw_frame :: bool
  fixed_rate :: bool
  rate_config :: u16

text \<open>
  What \<open>rwnx_set_traffic_status\<close> tells the firmware: traffic for the TDLS peer of an interface, or for
  a station (by number; U-APSD or legacy; available or not).
\<close>

datatype traffic_ind = Tdls_Peer_Ind nat | Me_Traffic_Ind nat bool bool

text \<open>
  The parts of \<open>struct rwnx_hw\<close> that the transmit path uses, the confirmation ring of \<open>sdio_env\<close>, and
  the logs: frames given to \<open>aicwf_frame_tx\<close>, frames freed, management frames reported to
  cfg80211 and whether they were acknowledged, stops (True) and wake-ups of network queues,
  and traffic indications to the firmware.  \<open>task_scheduled\<close>: the tasklet \<open>rwnx_task\<close> is pending.
  \<open>warns\<close> counts failed \<open>WARN\<close> conditions.
\<close>

record tx_hw =
  txqs :: "nat \<Rightarrow> rwnx_txq"
  hwqs :: "nat \<Rightarrow> rwnx_hwq"
  stas :: "nat \<Rightarrow> rwnx_sta"
  hdrs :: "nat \<Rightarrow> rwnx_sw_txhdr"
  cfm_balance :: "nat \<Rightarrow> int"
  tx_host_id :: "nat \<Rightarrow> nat option"
  txdesc_free_idx :: u32
  bus_log :: "nat list"
  free_log :: "nat list"
  mgmt_log :: "(nat \<times> bool) list"
  net_log :: "(nat \<times> u16 \<times> bool) list"
  ind_log :: "traffic_ind list"
  task_scheduled :: bool
  warns :: nat

definition upd_txq :: "nat \<Rightarrow> (rwnx_txq \<Rightarrow> rwnx_txq) \<Rightarrow> tx_hw \<Rightarrow> tx_hw" where
  "upd_txq q f hw = hw\<lparr>txqs := (txqs hw)(q := f (txqs hw q))\<rparr>"

definition upd_hwq :: "nat \<Rightarrow> (rwnx_hwq \<Rightarrow> rwnx_hwq) \<Rightarrow> tx_hw \<Rightarrow> tx_hw" where
  "upd_hwq h f hw = hw\<lparr>hwqs := (hwqs hw)(h := f (hwqs hw h))\<rparr>"

definition upd_sta :: "nat \<Rightarrow> (rwnx_sta \<Rightarrow> rwnx_sta) \<Rightarrow> tx_hw \<Rightarrow> tx_hw" where
  "upd_sta i f hw = hw\<lparr>stas := (stas hw)(i := f (stas hw i))\<rparr>"

definition upd_hdr :: "nat \<Rightarrow> (rwnx_sw_txhdr \<Rightarrow> rwnx_sw_txhdr) \<Rightarrow> tx_hw \<Rightarrow> tx_hw" where
  "upd_hdr k f hw = hw\<lparr>hdrs := (hdrs hw)(k := f (hdrs hw k))\<rparr>"

text \<open>For evaluation, the new entry of a table is computed before it is stored.\<close>

lemma upd_code [code]:
  "upd_txq q f hw = (let t = f (txqs hw q) in hw\<lparr>txqs := (txqs hw)(q := t)\<rparr>)"
  "upd_hwq h g hw = (let t = g (hwqs hw h) in hw\<lparr>hwqs := (hwqs hw)(h := t)\<rparr>)"
  "upd_sta i p hw = (let t = p (stas hw i) in hw\<lparr>stas := (stas hw)(i := t)\<rparr>)"
  "upd_hdr k r hw = (let t = r (hdrs hw k) in hw\<lparr>hdrs := (hdrs hw)(k := t)\<rparr>)"
  by (simp_all add: upd_txq_def upd_hwq_def upd_sta_def upd_hdr_def Let_def)

section \<open>Finding a queue\<close>

definition rwnx_txq_sta_idx :: "bool \<Rightarrow> rwnx_sta \<Rightarrow> nat \<Rightarrow> nat" where
  "rwnx_txq_sta_idx old sta tid =
     (if is_multicast_sta old (sta_idx sta) then NX_FIRST_VIF_TXQ_IDX old + sta_vif sta
      else sta_idx sta * NX_NB_TXQ_PER_STA + tid)"

definition master_vif_idx :: "rwnx_vif \<Rightarrow> nat" where
  "master_vif_idx vif = (if vif_iftype vif = IF_AP_VLAN then vif_master vif else vif_index vif)"

definition rwnx_txq_vif_idx :: "bool \<Rightarrow> rwnx_vif \<Rightarrow> nat \<Rightarrow> nat" where
  "rwnx_txq_vif_idx old vif ty = NX_FIRST_VIF_TXQ_IDX old + master_vif_idx vif + ty * NX_VIRT_DEV_MAX"

definition rwnx_txq_sta_get :: "bool \<Rightarrow> rwnx_sta \<Rightarrow> nat \<Rightarrow> nat" where
  "rwnx_txq_sta_get old sta tid = rwnx_txq_sta_idx old sta (if tid \<ge> NX_NB_TXQ_PER_STA then 0 else tid)"

definition rwnx_txq_vif_get :: "bool \<Rightarrow> rwnx_vif \<Rightarrow> nat \<Rightarrow> nat" where
  "rwnx_txq_vif_get old vif ty = rwnx_txq_vif_idx old vif (if ty > NX_UNK_TXQ_TYPE then NX_BCMC_TXQ_TYPE else ty)"

text \<open>The queues \<open>foreach_sta_txq\<close> goes through, in order.\<close>

definition sta_txqs :: "bool \<Rightarrow> rwnx_sta \<Rightarrow> nat list" where
  "sta_txqs old sta =
     map (\<lambda>tid. rwnx_txq_sta_get old sta 0 + tid)
       [0..<(if is_multicast_sta old (sta_idx sta) then 1 else NX_NB_TXQ_PER_STA)]"

definition rwnx_txq_vif_get_status :: "bool \<Rightarrow> rwnx_vif \<Rightarrow> tx_hw \<Rightarrow> u8" where
  "rwnx_txq_vif_get_status old vif hw =
     status (txqs hw (rwnx_txq_vif_get old vif 0)) AND (RWNX_TXQ_STOP_CHAN OR RWNX_TXQ_STOP_VIF_PS)"

section \<open>Scheduling lists\<close>

definition rwnx_txq_is_stopped :: "rwnx_txq \<Rightarrow> bool" where
  "rwnx_txq_is_stopped t \<longleftrightarrow> has (status t) RWNX_TXQ_STOP"

definition rwnx_txq_is_full :: "rwnx_txq \<Rightarrow> bool" where
  "rwnx_txq_is_full t \<longleftrightarrow> has (status t) RWNX_TXQ_STOP_FULL"

definition rwnx_txq_is_scheduled :: "rwnx_txq \<Rightarrow> bool" where
  "rwnx_txq_is_scheduled t \<longleftrightarrow> has (status t) RWNX_TXQ_IN_HWQ_LIST"

definition rwnx_txq_skb_ready :: "rwnx_txq \<Rightarrow> bool" where
  "rwnx_txq_skb_ready t \<longleftrightarrow> sk_list t \<noteq> []"

definition rwnx_txq_add_to_hw_list :: "nat \<Rightarrow> tx_hw \<Rightarrow> tx_hw" where
  "rwnx_txq_add_to_hw_list q hw =
     (if rwnx_txq_is_scheduled (txqs hw q) then hw
      else upd_hwq (hwq (txqs hw q)) (\<lambda>h. h\<lparr>hlist := hlist h @ [q], need_processing := True\<rparr>)
             (upd_txq q (\<lambda>t. t\<lparr>status := status t OR RWNX_TXQ_IN_HWQ_LIST\<rparr>) hw))"

definition rwnx_txq_del_from_hw_list :: "nat \<Rightarrow> tx_hw \<Rightarrow> tx_hw" where
  "rwnx_txq_del_from_hw_list q hw =
     (if rwnx_txq_is_scheduled (txqs hw q)
      then upd_hwq (hwq (txqs hw q)) (\<lambda>h. h\<lparr>hlist := remove1 q (hlist h)\<rparr>)
             (upd_txq q (\<lambda>t. t\<lparr>status := status t AND NOT RWNX_TXQ_IN_HWQ_LIST\<rparr>) hw)
      else hw)"

text \<open>\<open>reason\<close> is 16 bits wide in the code and one of the bits of \<open>status\<close>.\<close>

definition rwnx_txq_start :: "u8 \<Rightarrow> nat \<Rightarrow> tx_hw \<Rightarrow> tx_hw" where
  "rwnx_txq_start reason q hw =
     (if idx (txqs hw q) \<noteq> TXQ_INACTIVE \<and> has (status (txqs hw q)) reason
      then let hw1 = upd_txq q (\<lambda>t. t\<lparr>status := status t AND NOT reason\<rparr>) hw
           in if \<not> rwnx_txq_is_stopped (txqs hw1 q) \<and> rwnx_txq_skb_ready (txqs hw1 q)
              then rwnx_txq_add_to_hw_list q hw1 else hw1
      else hw)"

definition rwnx_txq_stop :: "u8 \<Rightarrow> nat \<Rightarrow> tx_hw \<Rightarrow> tx_hw" where
  "rwnx_txq_stop reason q hw =
     (if idx (txqs hw q) \<noteq> TXQ_INACTIVE
      then rwnx_txq_del_from_hw_list q (upd_txq q (\<lambda>t. t\<lparr>status := status t OR reason\<rparr>) hw)
      else hw)"

section \<open>Setting up and tearing down\<close>

text \<open>The number of the network queue of a queue, as \<open>rwnx_txq_init\<close> sets it.\<close>

definition init_ndev_idx :: "bool \<Rightarrow> nat \<Rightarrow> rwnx_sta option \<Rightarrow> u16 outcome" where
  "init_ndev_idx old ix sta =
     (if ix < NX_FIRST_VIF_TXQ_IDX old
      then case sta of
             None \<Rightarrow> Inl Null_Deref
           | Some s \<Rightarrow>
               let td = int ix - int (sta_idx s * NX_NB_TXQ_PER_STA)
               in Inr (if td < int NX_NB_TID_PER_STA then word_of_int (td + int (sta_idx s * NX_NB_TID_PER_STA))
                       else NDEV_NO_TXQ)
      else if ix < NX_FIRST_UNK_TXQ_IDX old then Inr (word_of_nat (NX_BCMC_TXQ_NDEV_IDX old))
      else Inr NDEV_NO_TXQ)"

definition rwnx_txq_init ::
  "bool \<Rightarrow> nat \<Rightarrow> nat \<Rightarrow> u8 \<Rightarrow> nat \<Rightarrow> nat \<Rightarrow> nat option \<Rightarrow> nat \<Rightarrow> tx_hw \<Rightarrow> tx_hw outcome" where
  "rwnx_txq_init old q ix st h td sta nd hw =
     (case init_ndev_idx old ix (map_option (stas hw) sta) of
        Inl f \<Rightarrow> Inl f
      | Inr ni \<Rightarrow> Inr (upd_txq q (\<lambda>_.
          \<lparr>idx = word_of_nat ix, status = st, credits = NX_TXQ_INITIAL_CREDITS, pkt_sent = 0, pkt_pushed = 0,
           sk_list = [], last_retry_skb = None, hwq = h, nb_retry = 0, push_limit = 0, q_tid = td, q_sta = sta,
           ps_id = LEGACY_PS_ID, ndev_idx = ni, ndev = nd\<rparr>) hw))"

definition rwnx_txq_flush :: "nat \<Rightarrow> tx_hw \<Rightarrow> tx_hw" where
  "rwnx_txq_flush q hw =
     (upd_txq q (\<lambda>t. t\<lparr>sk_list := []\<rparr>) hw)\<lparr>free_log := free_log hw @ sk_list (txqs hw q)\<rparr>"

definition rwnx_txq_deinit :: "nat \<Rightarrow> tx_hw \<Rightarrow> tx_hw" where
  "rwnx_txq_deinit q hw =
     (if idx (txqs hw q) = TXQ_INACTIVE then hw
      else rwnx_txq_flush q (upd_txq q (\<lambda>t. t\<lparr>idx := TXQ_INACTIVE\<rparr>) (rwnx_txq_del_from_hw_list q hw)))"

definition RWNX_HWQ_BE :: nat where [simp]: "RWNX_HWQ_BE = 1"
definition RWNX_HWQ_VO :: nat where [simp]: "RWNX_HWQ_VO = 3"
definition TID_MGT :: nat where [simp]: "TID_MGT = 8"

definition rwnx_tid2hwq :: "nat list" where
  "rwnx_tid2hwq = [1, 0, 0, 1, 2, 2, 3, 3, 3, 1, 1, 1, 1, 1, 1, 1]"

definition rwnx_txq_vif_init :: "bool \<Rightarrow> rwnx_vif \<Rightarrow> u8 \<Rightarrow> tx_hw \<Rightarrow> tx_hw outcome" where
  "rwnx_txq_vif_init old vif st hw =
     and_then
       (rwnx_txq_init old (rwnx_txq_vif_get old vif NX_BCMC_TXQ_TYPE) (rwnx_txq_vif_idx old vif NX_BCMC_TXQ_TYPE) st
          RWNX_HWQ_BE 0 (Some (vif_bcmc_index vif)) (vif_ndev vif) hw)
       (rwnx_txq_init old (rwnx_txq_vif_get old vif NX_UNK_TXQ_TYPE) (rwnx_txq_vif_idx old vif NX_UNK_TXQ_TYPE) st
          RWNX_HWQ_VO TID_MGT None (vif_ndev vif))"

definition rwnx_txq_vif_deinit :: "bool \<Rightarrow> rwnx_vif \<Rightarrow> tx_hw \<Rightarrow> tx_hw" where
  "rwnx_txq_vif_deinit old vif hw =
     rwnx_txq_deinit (rwnx_txq_vif_get old vif NX_UNK_TXQ_TYPE) (rwnx_txq_deinit (rwnx_txq_vif_get old vif NX_BCMC_TXQ_TYPE) hw)"

text \<open>\<open>rwnx_txq_sta_init\<close> for station \<open>i\<close>; \<open>nd\<close> is the network device of its interface.\<close>

definition rwnx_txq_sta_init :: "bool \<Rightarrow> nat \<Rightarrow> nat \<Rightarrow> u8 \<Rightarrow> tx_hw \<Rightarrow> tx_hw outcome" where
  "rwnx_txq_sta_init old i nd st hw =
     for_each (\<lambda>(td, q) s.
         and_then
           (rwnx_txq_init old q (rwnx_txq_sta_idx old (stas s i) 0 + td) st (rwnx_tid2hwq ! td) td (Some i) nd s)
           (\<lambda>s'. Inr (upd_txq q (\<lambda>t. t\<lparr>ps_id := (if bit (uapsd_tids (stas s' i)) td then UAPSD_ID else LEGACY_PS_ID)\<rparr>) s')))
       (enumerate 0 (sta_txqs old (stas hw i))) hw"

definition rwnx_txq_sta_deinit :: "bool \<Rightarrow> nat \<Rightarrow> tx_hw \<Rightarrow> tx_hw" where
  "rwnx_txq_sta_deinit old i hw = fold rwnx_txq_deinit (sta_txqs old (stas hw i)) hw"

definition rwnx_txq_unk_vif_init :: "bool \<Rightarrow> rwnx_vif \<Rightarrow> tx_hw \<Rightarrow> tx_hw outcome" where
  "rwnx_txq_unk_vif_init old vif hw =
     rwnx_txq_init old (rwnx_txq_vif_get old vif NX_UNK_TXQ_TYPE) (rwnx_txq_vif_idx old vif NX_UNK_TXQ_TYPE) 0 RWNX_HWQ_VO
       TID_MGT None (vif_ndev vif) hw"

definition rwnx_txq_unk_vif_deinit :: "bool \<Rightarrow> rwnx_vif \<Rightarrow> tx_hw \<Rightarrow> tx_hw" where
  "rwnx_txq_unk_vif_deinit old vif hw = rwnx_txq_deinit (rwnx_txq_vif_get old vif NX_UNK_TXQ_TYPE) hw"

definition rwnx_txq_offchan_init :: "bool \<Rightarrow> rwnx_vif \<Rightarrow> tx_hw \<Rightarrow> tx_hw outcome" where
  "rwnx_txq_offchan_init old vif hw =
     rwnx_txq_init old (NX_OFF_CHAN_TXQ_IDX old) (NX_OFF_CHAN_TXQ_IDX old) RWNX_TXQ_STOP_CHAN RWNX_HWQ_VO TID_MGT None (vif_ndev vif) hw"

definition rwnx_txq_offchan_deinit :: "bool \<Rightarrow> tx_hw \<Rightarrow> tx_hw" where
  "rwnx_txq_offchan_deinit old hw = rwnx_txq_deinit (NX_OFF_CHAN_TXQ_IDX old) hw"

text \<open>\<open>tdls\<close>: the wiphy supports TDLS.\<close>

definition rwnx_txq_tdls_vif_init :: "bool \<Rightarrow> bool \<Rightarrow> rwnx_vif \<Rightarrow> tx_hw \<Rightarrow> tx_hw outcome" where
  "rwnx_txq_tdls_vif_init tdls old vif hw = (if tdls then rwnx_txq_unk_vif_init old vif hw else Inr hw)"

definition rwnx_txq_tdls_vif_deinit :: "bool \<Rightarrow> bool \<Rightarrow> rwnx_vif \<Rightarrow> tx_hw \<Rightarrow> tx_hw" where
  "rwnx_txq_tdls_vif_deinit tdls old vif hw = (if tdls then rwnx_txq_unk_vif_deinit old vif hw else hw)"

section \<open>Starting and stopping groups of queues\<close>

definition rwnx_txq_sta_start :: "bool \<Rightarrow> u8 \<Rightarrow> nat option \<Rightarrow> tx_hw \<Rightarrow> tx_hw outcome" where
  "rwnx_txq_sta_start old reason sta hw =
     (case sta of
        None \<Rightarrow> Inl Null_Deref
      | Some i \<Rightarrow> Inr (fold (rwnx_txq_start reason) (sta_txqs old (stas hw i)) hw))"

definition rwnx_txq_sta_stop :: "bool \<Rightarrow> u8 \<Rightarrow> nat option \<Rightarrow> tx_hw \<Rightarrow> tx_hw outcome" where
  "rwnx_txq_sta_stop old reason sta hw =
     (case sta of
        None \<Rightarrow> Inr hw
      | Some i \<Rightarrow> Inr (fold (rwnx_txq_stop reason) (sta_txqs old (stas hw i)) hw))"

definition rwnx_txq_tdls_sta_start :: "bool \<Rightarrow> u8 \<Rightarrow> rwnx_vif \<Rightarrow> tx_hw \<Rightarrow> tx_hw outcome" where
  "rwnx_txq_tdls_sta_start old reason vif hw =
     (if vif_tdls_sta vif \<noteq> None then rwnx_txq_sta_start old reason (vif_tdls_sta vif) hw else Inr hw)"

definition rwnx_txq_tdls_sta_stop :: "bool \<Rightarrow> u8 \<Rightarrow> rwnx_vif \<Rightarrow> tx_hw \<Rightarrow> tx_hw outcome" where
  "rwnx_txq_tdls_sta_stop old reason vif hw =
     (if vif_tdls_sta vif \<noteq> None then rwnx_txq_sta_stop old reason (vif_tdls_sta vif) hw else Inr hw)"

definition rwnx_txq_vif_for_each_sta ::
  "rwnx_vif \<Rightarrow> (nat option \<Rightarrow> tx_hw \<Rightarrow> tx_hw outcome) \<Rightarrow> tx_hw \<Rightarrow> tx_hw outcome" where
  "rwnx_txq_vif_for_each_sta vif f hw =
     (if vif_iftype vif \<in> {IF_STATION, IF_P2P_CLIENT}
      then and_then (if vif_tdls_link vif then f (vif_tdls_sta vif) hw else Inr hw)
             (\<lambda>hw. if vif_ap vif = None then Inr (hw\<lparr>warns := warns hw + 1\<rparr>) else f (vif_ap vif) hw)
      else if vif_iftype vif \<in> {IF_AP_VLAN, IF_AP, IF_MESH_POINT, IF_P2P_GO}
      then for_each (\<lambda>i. f (Some i)) (vif_sta_list vif) hw
      else Inl Bug_On)"

definition rwnx_txq_vif_start :: "bool \<Rightarrow> u8 \<Rightarrow> rwnx_vif \<Rightarrow> tx_hw \<Rightarrow> tx_hw outcome" where
  "rwnx_txq_vif_start old reason vif hw =
     (if vif_iftype vif = IF_MONITOR then Inr hw
      else and_then
        (case vif_tdls_sta vif of
           None \<Rightarrow> Inr hw
         | Some i \<Rightarrow> if vif_roc_tdls vif \<and> tdls_chsw_en (stas hw i)
                    then rwnx_txq_sta_start old reason (vif_tdls_sta vif) hw else Inr hw)
        (\<lambda>hw. and_then
           (if vif_roc_tdls vif then Inr hw
            else rwnx_txq_vif_for_each_sta vif (rwnx_txq_sta_start old reason) hw)
           (\<lambda>hw. Inr (rwnx_txq_start reason (rwnx_txq_vif_get old vif NX_UNK_TXQ_TYPE)
                        (rwnx_txq_start reason (rwnx_txq_vif_get old vif NX_BCMC_TXQ_TYPE) hw)))))"

definition rwnx_txq_vif_stop :: "bool \<Rightarrow> u8 \<Rightarrow> rwnx_vif \<Rightarrow> tx_hw \<Rightarrow> tx_hw outcome" where
  "rwnx_txq_vif_stop old reason vif hw =
     (if vif_iftype vif = IF_MONITOR then Inr hw
      else and_then (rwnx_txq_vif_for_each_sta vif (rwnx_txq_sta_stop old reason) hw)
        (\<lambda>hw. Inr (rwnx_txq_stop reason (rwnx_txq_vif_get old vif NX_UNK_TXQ_TYPE)
                     (rwnx_txq_stop reason (rwnx_txq_vif_get old vif NX_BCMC_TXQ_TYPE) hw))))"

definition rwnx_txq_offchan_start :: "bool \<Rightarrow> tx_hw \<Rightarrow> tx_hw" where
  "rwnx_txq_offchan_start old hw = rwnx_txq_start RWNX_TXQ_STOP_CHAN (NX_OFF_CHAN_TXQ_IDX old) hw"

text \<open>\<open>nd\<close> is the network device of the new interface.\<close>

definition rwnx_txq_sta_switch_vif :: "bool \<Rightarrow> nat \<Rightarrow> nat \<Rightarrow> tx_hw \<Rightarrow> tx_hw" where
  "rwnx_txq_sta_switch_vif old i nd hw =
     fold (\<lambda>q s. (upd_txq q (\<lambda>t. t\<lparr>ndev := nd\<rparr>) s)\<lparr>net_log := net_log s @ [(nd, ndev_idx (txqs s q), False)]\<rparr>)
       (map (\<lambda>k. rwnx_txq_sta_get old (stas hw i) 0 + k) [0..<NX_NB_TID_PER_STA]) hw"

section \<open>Queueing\<close>

definition rwnx_set_traffic_status :: "nat \<Rightarrow> bool \<Rightarrow> nat \<Rightarrow> tx_hw \<Rightarrow> tx_hw" where
  "rwnx_set_traffic_status i available p hw =
     hw\<lparr>ind_log := ind_log hw @
        [if tdls_active (stas hw i) then Tdls_Peer_Ind (sta_vif (stas hw i))
         else Me_Traffic_Ind (sta_idx (stas hw i)) (p \<noteq> LEGACY_PS_ID) available]\<rparr>"

text \<open>\<open>skb_append (old, newsk, list)\<close>: \<open>newsk\<close> right after \<open>old\<close>.\<close>

fun skb_append :: "nat \<Rightarrow> nat \<Rightarrow> nat list \<Rightarrow> nat list" where
  "skb_append old new [] = []"
| "skb_append old new (k # ks) = (if k = old then k # new # ks else k # skb_append old new ks)"

definition queue_retry :: "nat \<Rightarrow> rwnx_txq \<Rightarrow> rwnx_txq" where
  "queue_retry k t =
     t\<lparr>sk_list := (case last_retry_skb t of Some r \<Rightarrow> skb_append r k (sk_list t) | None \<Rightarrow> k # sk_list t),
       last_retry_skb := Some k, nb_retry := nb_retry t + 1\<rparr>"

definition ps_count :: "nat \<Rightarrow> tx_hw \<Rightarrow> tx_hw" where
  "ps_count q hw =
     (case q_sta (txqs hw q) of
        None \<Rightarrow> hw
      | Some i \<Rightarrow>
          if ps_active (stas hw i)
          then let p = ps_id (txqs hw q);
                   hw1 = upd_sta i (\<lambda>s. s\<lparr>pkt_ready := (pkt_ready s)(p := pkt_ready s p + 1)\<rparr>) hw
               in if pkt_ready (stas hw1 i) p = 1 then rwnx_set_traffic_status i True p hw1 else hw1
          else hw)"

definition flow_ctrl_stop :: "nat \<Rightarrow> tx_hw \<Rightarrow> tx_hw" where
  "flow_ctrl_stop q hw =
     (let t = txqs hw q in
      if ndev_idx t \<noteq> NDEV_NO_TXQ \<and> length (sk_list t) > RWNX_NDEV_FLOW_CTRL_STOP
      then (upd_txq q (\<lambda>t. t\<lparr>status := status t OR RWNX_TXQ_NDEV_FLOW_CTRL\<rparr>) hw)
             \<lparr>net_log := net_log hw @ [(ndev t, ndev_idx t, True)]\<rparr>
      else hw)"

definition rwnx_txq_queue_skb :: "nat \<Rightarrow> nat \<Rightarrow> bool \<Rightarrow> tx_hw \<Rightarrow> bool \<times> tx_hw" where
  "rwnx_txq_queue_skb k q retry hw =
     (let hw1 = ps_count q hw;
          hw2 = upd_txq q (if retry then queue_retry k else (\<lambda>t. t\<lparr>sk_list := sk_list t @ [k]\<rparr>)) hw1;
          hw3 = flow_ctrl_stop q hw2
      in if \<not> rwnx_txq_is_stopped (txqs hw3 q) then (True, rwnx_txq_add_to_hw_list q hw3) else (False, hw3))"

definition rwnx_txq_confirm_any :: "nat \<Rightarrow> nat \<Rightarrow> tx_hw \<Rightarrow> tx_hw" where
  "rwnx_txq_confirm_any q h hw =
     (let hw1 = upd_hwq h (\<lambda>x. x\<lparr>need_processing := True\<rparr>)
                  (upd_txq q (\<lambda>t. if pkt_pushed t \<noteq> 0 then t\<lparr>pkt_pushed := pkt_pushed t - 1\<rparr> else t) hw)
      in hw1\<lparr>cfm_balance := (cfm_balance hw1)(hid (hwqs hw h) := cfm_balance hw1 (hid (hwqs hw h)) - 1)\<rparr>)"

section \<open>Pushing to the bus\<close>

definition rwnx_txq_get_credits :: "rwnx_txq \<Rightarrow> int" where
  "rwnx_txq_get_credits t =
     (if push_limit t \<noteq> 0 \<and> sint (credits t) > uint (push_limit t) then uint (push_limit t) else sint (credits t))"

definition skb_queue_extract :: "nat list \<Rightarrow> nat list \<Rightarrow> int \<Rightarrow> nat list \<times> nat list" where
  "skb_queue_extract xs head nb_elt = (drop (nat nb_elt) xs, head @ take (nat nb_elt) xs)"

definition rwnx_txq_get_skb_to_push :: "rwnx_txq \<Rightarrow> bool \<times> nat list \<times> rwnx_txq" where
  "rwnx_txq_get_skb_to_push t =
     (let cr = rwnx_txq_get_credits t in
      if cr \<ge> int (length (sk_list t)) then (True, sk_list t, t\<lparr>sk_list := []\<rparr>)
      else case skb_queue_extract (sk_list t) [] cr of
             (rest, push) \<Rightarrow> (push_limit t \<noteq> 0 \<and> cr = uint (push_limit t), push, t\<lparr>sk_list := rest\<rparr>))"

definition rwnx_set_more_data_flag :: "nat \<Rightarrow> nat \<Rightarrow> tx_hw \<Rightarrow> tx_hw" where
  "rwnx_set_more_data_flag i k hw =
     (if ps_active (stas hw i)
      then let p = ps_id (txqs hw (h_txq (hdrs hw k)));
               hw1 = upd_sta i (\<lambda>s. s\<lparr>pkt_ready := (pkt_ready s)(p := pkt_ready s p - 1),
                                       sp_cnt := (sp_cnt s)(p := sp_cnt s p - 1)\<rparr>) hw;
               hw2 = (if (p = UAPSD_ID \<or> h_mesh (hdrs hw1 k) \<or> tdls_active (stas hw1 i)) \<and> sp_cnt (stas hw1 i) p = 0
                      then upd_hdr k (\<lambda>h. h\<lparr>h_flags := h_flags h OR TXU_CNTRL_EOSP\<rparr>) hw1 else hw1)
           in if pkt_ready (stas hw2 i) p \<noteq> 0
              then upd_hdr k (\<lambda>h. h\<lparr>h_flags := h_flags h OR TXU_CNTRL_MORE_DATA\<rparr>) hw2
              else rwnx_set_traffic_status i False p hw2
      else hw)"

definition aicwf_sdio_host_txdesc_push :: "nat \<Rightarrow> tx_hw \<Rightarrow> tx_hw" where
  "aicwf_sdio_host_txdesc_push k hw =
     (let i = txdesc_free_idx hw + 1
      in hw\<lparr>tx_host_id := (tx_host_id hw)(unat (txdesc_free_idx hw) mod SDIO_TXDESC_CNT := Some k),
            txdesc_free_idx := (if i = 0x80000000 then 0 else i)\<rparr>)"

definition wants_cfm :: "rwnx_sw_txhdr \<Rightarrow> bool" where
  "wants_cfm h \<longleftrightarrow>
     has (h_flags h) TXU_CNTRL_MGMT \<and> (h_byte h = 0xd0 \<or> h_byte h = 0x10 \<or> h_byte h = 0x30) \<or>
     ethertype h = 0x8e88 \<or> ethertype h = 0xb488"

text \<open>The descriptor and the confirmation ring, in \<open>rwnx_tx_push\<close>.\<close>

definition push_desc :: "nat \<Rightarrow> tx_hw \<Rightarrow> tx_hw" where
  "push_desc k hw =
     (if wants_cfm (hdrs hw k)
      then aicwf_sdio_host_txdesc_push k
             (upd_hdr k (\<lambda>h. h\<lparr>need_cfm := True, hostid := 0x80000000 OR txdesc_free_idx hw\<rparr>) hw)
      else upd_hdr k (\<lambda>h. h\<lparr>need_cfm := False,
             h_flags := (if raw_frame h then h_flags h OR TXU_CNTRL_MGMT else h_flags h),
             hostid := (if fixed_rate h then 0x40000000 OR ucast (rate_config h) else 0)\<rparr>) hw)"

text \<open>The bookkeeping of retries, in \<open>rwnx_tx_push\<close>.\<close>

definition push_retry_count :: "bool \<Rightarrow> nat \<Rightarrow> nat \<Rightarrow> tx_hw \<Rightarrow> tx_hw" where
  "push_retry_count retry k q hw =
     (let t = txqs hw q in
      if nb_retry t \<noteq> 0
      then if nb_retry t - 1 = 0
           then (upd_txq q (\<lambda>t. t\<lparr>nb_retry := nb_retry t - 1, last_retry_skb := None\<rparr>) hw)
                  \<lparr>warns := warns hw + (if last_retry_skb t \<noteq> Some k then 1 else 0)\<rparr>
           else upd_txq q (\<lambda>t. t\<lparr>nb_retry := nb_retry t - 1\<rparr>) hw
      else if \<not> retry then upd_txq q (\<lambda>t. t\<lparr>pkt_sent := pkt_sent t + 1\<rparr>) hw else hw)"

definition rwnx_tx_push :: "bool \<Rightarrow> nat \<Rightarrow> tx_hw \<Rightarrow> tx_hw" where
  "rwnx_tx_push retry k hw =
     (let q = h_txq (hdrs hw k);
          hwqid = hid (hwqs hw (hwq (txqs hw q)));
          hw1 = push_retry_count retry k q hw;
          hw2 = upd_hdr k (\<lambda>h. h\<lparr>hw_queue := hwqid\<rparr>) hw1;
          hw3 = (case h_sta (hdrs hw2 k) of None \<Rightarrow> hw2 | Some i \<Rightarrow> rwnx_set_more_data_flag i k hw2);
          hw4 = upd_txq q (\<lambda>t. t\<lparr>pkt_pushed := pkt_pushed t + 1,
                               push_limit := (if push_limit t \<noteq> 0 then push_limit t - 1 else 0)\<rparr>) hw3;
          hw5 = push_desc k hw4
      in hw5\<lparr>bus_log := bus_log hw5 @ [k], cfm_balance := (cfm_balance hw5)(hwqid := cfm_balance hw5 hwqid + 1)\<rparr>)"

section \<open>Processing the hardware queues\<close>

text \<open>The entry after \<open>q\<close> in a list, which \<open>list_for_each_entry_safe\<close> reads before the body runs.\<close>

fun entry_after :: "nat \<Rightarrow> nat list \<Rightarrow> nat option" where
  "entry_after q [] = None"
| "entry_after q (x # xs) = (if x = q then (case xs of [] \<Rightarrow> None | y # _ \<Rightarrow> Some y) else entry_after q xs)"

definition hwq_rotate :: "nat \<Rightarrow> nat \<Rightarrow> bool \<Rightarrow> tx_hw \<Rightarrow> tx_hw" where
  "hwq_rotate h q txq_empty hw =
     (if txq_empty then upd_txq q (\<lambda>t. t\<lparr>pkt_sent := 0\<rparr>) (rwnx_txq_del_from_hw_list q hw)
      else if rwnx_txq_is_scheduled (txqs hw q) \<and> pkt_sent (txqs hw q) > hsize (hwqs hw h)
      then upd_hwq h (\<lambda>x. x\<lparr>hlist := rotate1 (hlist x)\<rparr>) (upd_txq q (\<lambda>t. t\<lparr>pkt_sent := 0\<rparr>) hw)
      else hw)"

definition abort_sp :: "nat \<Rightarrow> tx_hw \<Rightarrow> tx_hw" where
  "abort_sp q hw =
     (let t = txqs hw q in
      case q_sta t of
        None \<Rightarrow> hw
      | Some i \<Rightarrow>
          if push_limit t \<noteq> 0 \<and> ps_id t = LEGACY_PS_ID
          then upd_txq q (\<lambda>t. t\<lparr>push_limit := 0\<rparr>)
                 (upd_sta i (\<lambda>s. s\<lparr>sp_cnt := (sp_cnt s)(ps_id t := sp_cnt s (ps_id t) - ucast (push_limit t))\<rparr>) hw)
          else hw)"

definition flow_ctrl_restart :: "nat \<Rightarrow> tx_hw \<Rightarrow> tx_hw" where
  "flow_ctrl_restart q hw =
     (let t = txqs hw q in
      if has (status t) RWNX_TXQ_NDEV_FLOW_CTRL \<and> length (sk_list t) < RWNX_NDEV_FLOW_CTRL_RESTART
      then (upd_txq q (\<lambda>t. t\<lparr>status := status t AND NOT RWNX_TXQ_NDEV_FLOW_CTRL\<rparr>) hw)
             \<lparr>net_log := net_log hw @ [(ndev t, ndev_idx t, False)]\<rparr>
      else hw)"

text \<open>The frames that \<open>rwnx_txq_get_skb_to_push\<close> took from queue \<open>q\<close> are pushed; then the queue is put in order.\<close>

definition hwq_send :: "nat \<Rightarrow> nat \<Rightarrow> bool \<times> nat list \<times> rwnx_txq \<Rightarrow> tx_hw \<Rightarrow> tx_hw" where
  "hwq_send h q r hw =
     flow_ctrl_restart q (abort_sp q (hwq_rotate h q (fst r)
       (fold (rwnx_tx_push False) (fst (snd r)) (upd_txq q (\<lambda>_. snd (snd r)) hw))))"

text \<open>The body of the loop of \<open>rwnx_hwq_process\<close> for queue \<open>q\<close> of hardware queue \<open>h\<close>.\<close>

definition hwq_visit :: "nat \<Rightarrow> nat \<Rightarrow> tx_hw \<Rightarrow> tx_hw outcome" where
  "hwq_visit h q hw =
     (let t = txqs hw q in
      if \<not> rwnx_txq_is_scheduled t then Inl Bug_On
      else if idx t = TXQ_INACTIVE then Inr (rwnx_txq_flush q (rwnx_txq_del_from_hw_list q hw))
      else if sint (credits t) \<le> 0 then Inl Bug_On
      else if \<not> rwnx_txq_skb_ready t then Inl Bug_On
      else Inr (hwq_send h q (rwnx_txq_get_skb_to_push t) hw))"

partial_function (option) hwq_loop :: "nat \<Rightarrow> nat option \<Rightarrow> tx_hw \<Rightarrow> tx_hw outcome option" where
  [code]: "hwq_loop h cur hw =
     (case cur of
        None \<Rightarrow> Some (Inr hw)
      | Some q \<Rightarrow>
          (case hwq_visit h q hw of
             Inl f \<Rightarrow> Some (Inl f)
           | Inr hw' \<Rightarrow> hwq_loop h (entry_after q (hlist (hwqs hw h))) hw'))"

definition rwnx_hwq_process :: "nat \<Rightarrow> tx_hw \<Rightarrow> tx_hw outcome option" where
  "rwnx_hwq_process h hw =
     hwq_loop h (case hlist (hwqs hw h) of [] \<Rightarrow> None | q # _ \<Rightarrow> Some q) (upd_hwq h (\<lambda>x. x\<lparr>need_processing := False\<rparr>) hw)"

fun process_ids :: "nat list \<Rightarrow> tx_hw \<Rightarrow> tx_hw outcome option" where
  "process_ids [] hw = Some (Inr hw)"
| "process_ids (h # hs) hw =
     (if need_processing (hwqs hw h)
      then case rwnx_hwq_process h hw of
             None \<Rightarrow> None
           | Some (Inl f) \<Rightarrow> Some (Inl f)
           | Some (Inr hw') \<Rightarrow> process_ids hs hw'
      else process_ids hs hw)"

definition rwnx_hwq_process_all :: "tx_hw \<Rightarrow> tx_hw outcome option" where
  "rwnx_hwq_process_all hw = process_ids (rev [0..<NX_TXQ_CNT]) hw"

definition rwnx_task :: "tx_hw \<Rightarrow> tx_hw outcome option" where
  "rwnx_task hw = rwnx_hwq_process_all (hw\<lparr>task_scheduled := False\<rparr>)"

definition nx_txdesc_cnt :: "u8 list" where
  "nx_txdesc_cnt = [8, 64, 64, 32, 8]"

definition rwnx_hwq_init :: "tx_hw \<Rightarrow> tx_hw" where
  "rwnx_hwq_init hw =
     fold (\<lambda>i. upd_hwq i (\<lambda>x. x\<lparr>hid := i, hsize := nx_txdesc_cnt ! i, hlist := []\<rparr>)) [0..<NX_TXQ_CNT] hw"

section \<open>Confirmations\<close>

definition tx_done_bit :: u32 where [simp]: "tx_done_bit = 1"
definition retry_required_bit :: u32 where [simp]: "retry_required_bit = 2"
definition sw_retry_required_bit :: u32 where [simp]: "sw_retry_required_bit = 4"
definition acknowledged_bit :: u32 where [simp]: "acknowledged_bit = 8"

definition rwnx_tx_retry :: "nat \<Rightarrow> bool \<Rightarrow> tx_hw \<Rightarrow> tx_hw" where
  "rwnx_tx_retry k sw_retry hw =
     (let q = h_txq (hdrs hw k);
          hw1 = (if sw_retry then hw else upd_hdr k (\<lambda>h. h\<lparr>h_flags := h_flags h OR TXU_CNTRL_RETRY\<rparr>) hw);
          hw2 = upd_hdr k (\<lambda>h. h\<lparr>h_flags := h_flags h AND NOT TXU_CNTRL_MORE_DATA\<rparr>) hw1;
          hw3 = upd_txq q (\<lambda>t. t\<lparr>credits := credits t + 1\<rparr>) hw2;
          hw4 = (if sint (credits (txqs hw3 q)) > 0 then rwnx_txq_start RWNX_TXQ_STOP_FULL q hw3 else hw3)
      in snd (rwnx_txq_queue_skb k q True hw4))"

text \<open>\<open>st\<close> is the status word of the firmware; \<open>down\<close>: the bus is down.\<close>

definition rwnx_txdatacfm :: "bool \<Rightarrow> u32 \<Rightarrow> nat \<Rightarrow> tx_hw \<Rightarrow> tx_hw" where
  "rwnx_txdatacfm down st k hw =
     (if down then hw\<lparr>free_log := free_log hw @ [k]\<rparr>
      else let st' = (if st = 0 then tx_done_bit else st);
               q = h_txq (hdrs hw k);
               hw1 = rwnx_txq_confirm_any q (hw_queue (hdrs hw k)) hw;
               mgmt = has (h_flags (hdrs hw k)) TXU_CNTRL_MGMT
           in if \<not> mgmt \<and> idx (txqs hw1 q) \<noteq> TXQ_INACTIVE \<and>
                 (has st' retry_required_bit \<or> has st' sw_retry_required_bit)
              then rwnx_tx_retry k (has st' sw_retry_required_bit) hw1
              else let hw2 = (if mgmt then hw1\<lparr>mgmt_log := mgmt_log hw1 @ [(k, has st' acknowledged_bit)]\<rparr> else hw1);
                       hw3 = (if idx (txqs hw2 q) \<noteq> TXQ_INACTIVE \<and> push_limit (txqs hw2 q) \<noteq> 0 \<and>
                                 \<not> rwnx_txq_is_full (txqs hw2 q)
                              then rwnx_txq_add_to_hw_list q hw2 else hw2)
                   in hw3\<lparr>free_log := free_log hw3 @ [k]\<rparr>)"

definition aicwf_sdio_host_tx_cfm_handler :: "bool \<Rightarrow> u32 \<Rightarrow> u32 \<Rightarrow> tx_hw \<Rightarrow> tx_hw outcome" where
  "aicwf_sdio_host_tx_cfm_handler down st used_idx hw =
     (let slot = unat used_idx mod SDIO_TXDESC_CNT;
          hw1 = hw\<lparr>tx_host_id := (tx_host_id hw)(slot := None)\<rparr>
      in case tx_host_id hw slot of
           None \<Rightarrow> Inl Null_Deref
         | Some k \<Rightarrow> Inr (rwnx_txdatacfm down st k hw1))"

definition rwnx_txq_credit_update :: "bool \<Rightarrow> nat \<Rightarrow> nat \<Rightarrow> tx_hw \<Rightarrow> tx_hw" where
  "rwnx_txq_credit_update old i tid hw =
     (let q = rwnx_txq_sta_get old (stas hw i) tid in
      if idx (txqs hw q) \<noteq> TXQ_INACTIVE
      then if sint (credits (txqs hw q)) \<le> 0 then rwnx_txq_stop RWNX_TXQ_STOP_FULL q hw
           else rwnx_txq_start RWNX_TXQ_STOP_FULL q hw
      else hw)"

section \<open>Power save\<close>

definition nx_tid_prio :: "nat list" where "nx_tid_prio = [7, 6, 5, 4, 3, 0, 2, 1]"
definition PS_SP_INTERRUPTED :: u16 where [simp]: "PS_SP_INTERRUPTED = 255"

definition rwnx_ps_bh_enable :: "bool \<Rightarrow> nat \<Rightarrow> bool \<Rightarrow> tx_hw \<Rightarrow> tx_hw" where
  "rwnx_ps_bh_enable old i enable hw =
     (let qs = sta_txqs old (stas hw i); q0 = rwnx_txq_sta_get old (stas hw i) 0 in
      if enable
      then let hw1 = upd_sta i (\<lambda>s. s\<lparr>ps_active := True, sp_cnt := (sp_cnt s)(LEGACY_PS_ID := 0, UAPSD_ID := 0)\<rparr>) hw;
               hw2 = fold (rwnx_txq_stop RWNX_TXQ_STOP_STA_PS) qs hw1
           in if is_multicast_sta old (sta_idx (stas hw i))
              then upd_sta i (\<lambda>s. s\<lparr>pkt_ready := (pkt_ready s)
                       (LEGACY_PS_ID := word_of_nat (length (sk_list (txqs hw2 q0))), UAPSD_ID := 0)\<rparr>) hw2
              else fold (\<lambda>q s. upd_sta i (\<lambda>x. x\<lparr>pkt_ready := (pkt_ready x)
                       (ps_id (txqs s q) := pkt_ready x (ps_id (txqs s q)) + word_of_nat (length (sk_list (txqs s q))))\<rparr>) s) qs
                     (upd_sta i (\<lambda>s. s\<lparr>pkt_ready := (pkt_ready s)(LEGACY_PS_ID := 0, UAPSD_ID := 0)\<rparr>) hw2)
      else let hw1 = upd_sta i (\<lambda>s. s\<lparr>ps_active := False\<rparr>) hw;
               hw2 = (if is_multicast_sta old (sta_idx (stas hw i))
                      then upd_txq q0 (\<lambda>t. t\<lparr>hwq := RWNX_HWQ_BE, push_limit := 0\<rparr>) hw1
                      else fold (\<lambda>q. upd_txq q (\<lambda>t. t\<lparr>push_limit := 0\<rparr>)) qs hw1);
               hw3 = fold (rwnx_txq_start RWNX_TXQ_STOP_STA_PS) qs hw2;
               hw4 = (if pkt_ready (stas hw3 i) LEGACY_PS_ID \<noteq> 0 then rwnx_set_traffic_status i False LEGACY_PS_ID hw3 else hw3)
           in hw4\<lparr>task_scheduled := True\<rparr>)"

text \<open>Limits that a traffic request is subject to: the credits of a queue, and the frames that are ready.\<close>

definition cap_credits :: "u16 \<Rightarrow> u8 \<Rightarrow> u16" where
  "cap_credits n cr = (if uint n > sint cr then scast cr else n)"

definition adapt_req :: "u16 \<Rightarrow> int \<Rightarrow> u16" where
  "adapt_req pkt_req ready = (if pkt_req = 0 \<or> uint pkt_req > ready then word_of_int ready else pkt_req)"

text \<open>The dispatch of a traffic request of \<open>pkt_req\<close> frames between the queues of a station.\<close>

definition sp_grant :: "nat \<Rightarrow> nat \<Rightarrow> nat \<Rightarrow> u16 \<Rightarrow> tx_hw \<Rightarrow> tx_hw" where
  "sp_grant i p q n hw =
     rwnx_txq_add_to_hw_list q
       (upd_sta i (\<lambda>s. s\<lparr>sp_cnt := (sp_cnt s)(p := sp_cnt s p + n)\<rparr>) (upd_txq q (\<lambda>t. t\<lparr>push_limit := ucast n\<rparr>) hw))"

fun sp_dispatch :: "nat \<Rightarrow> nat \<Rightarrow> nat list \<Rightarrow> u16 \<Rightarrow> tx_hw \<Rightarrow> tx_hw" where
  "sp_dispatch i p [] pkt_req hw = hw"
| "sp_dispatch i p (q # qs) pkt_req hw =
     (let t = txqs hw q;
          txq_len = cap_credits (word_of_nat (length (sk_list t))) (credits t)
      in if ps_id t \<noteq> p then sp_dispatch i p qs pkt_req hw
         else if txq_len = 0 then sp_dispatch i p qs pkt_req hw
         else if txq_len < pkt_req then sp_dispatch i p qs (pkt_req - txq_len) (sp_grant i p q txq_len hw)
         else sp_grant i p q pkt_req hw)"

definition rwnx_ps_bh_traffic_req :: "bool \<Rightarrow> nat \<Rightarrow> u16 \<Rightarrow> nat \<Rightarrow> tx_hw \<Rightarrow> tx_hw" where
  "rwnx_ps_bh_traffic_req old i pkt_req p hw =
     (let sta = stas hw i; ready = uint (pkt_ready sta p) - uint (sp_cnt sta p) in
      if \<not> ps_active sta then hw
      else if pkt_req = PS_SP_INTERRUPTED \<and> p = UAPSD_ID
      then fold (\<lambda>q. upd_txq q (\<lambda>t. t\<lparr>push_limit := 0\<rparr>)) (sta_txqs old sta)
             (upd_sta i (\<lambda>s. s\<lparr>sp_cnt := (sp_cnt s)(p := 0)\<rparr>) hw)
      else if sp_cnt sta p \<noteq> 0 \<or> ready \<le> 0 then hw
      else let req = adapt_req pkt_req ready;
               hw1 = upd_sta i (\<lambda>s. s\<lparr>sp_cnt := (sp_cnt s)(p := 0)\<rparr>) hw
           in (if is_multicast_sta old (sta_idx sta)
               then let q = rwnx_txq_sta_get old sta 0; n = cap_credits req (credits (txqs hw1 q))
                    in rwnx_txq_add_to_hw_list q
                         (upd_sta i (\<lambda>s. s\<lparr>sp_cnt := (sp_cnt s)(p := n)\<rparr>)
                           (upd_txq q (\<lambda>t. t\<lparr>push_limit := ucast n\<rparr>) hw1))
               else sp_dispatch i p (map (rwnx_txq_sta_get old sta) nx_tid_prio) req hw1)\<lparr>task_scheduled := True\<rparr>)"

section \<open>From the network stack to a queue\<close>

definition PRIO_STA_NULL :: nat where [simp]: "PRIO_STA_NULL = 0xAA"
definition rwnx_down_hwq2tid :: "nat list" where "rwnx_down_hwq2tid = [2, 3, 5]"

fun downgrade :: "u8 \<Rightarrow> nat \<Rightarrow> nat \<Rightarrow> nat" where
  "downgrade acm 0 prio = (if bit acm 0 then 1 else prio)"
| "downgrade acm (Suc ac) prio = (if bit acm (Suc ac) then downgrade acm ac (rwnx_down_hwq2tid ! ac) else prio)"

definition rwnx_downgrade_ac :: "u8 \<Rightarrow> nat \<Rightarrow> nat outcome" where
  "rwnx_downgrade_ac acm prio =
     (if prio < length rwnx_tid2hwq then Inr (downgrade acm (rwnx_tid2hwq ! prio) prio) else Inl Out_Of_Bounds)"

text \<open>
  The end of \<open>rwnx_select_txq\<close>, once the station is known: the new priority and the network queue.
  \<open>classify\<close> is the result of \<open>cfg80211_classify8021d\<close>.  A TDLS management frame keeps its priority.
\<close>

definition select_txq_of :: "bool \<Rightarrow> (nat \<times> bool \<times> u8) option \<Rightarrow> bool \<Rightarrow> u8 \<Rightarrow> nat \<Rightarrow> tx_hw \<Rightarrow> (nat \<times> u16) outcome" where
  "select_txq_of old sta tdls_mgmt classify prio hw =
     and_then
       (case sta of
          None \<Rightarrow> Inr (PRIO_STA_NULL, word_of_nat (NX_BCMC_TXQ_NDEV_IDX old))
        | Some (i, qos, acm) \<Rightarrow>
            if qos
            then let prio1 = (if tdls_mgmt then prio else unat (classify AND 7))
                 in and_then (if acm \<noteq> 0 then rwnx_downgrade_ac acm prio1 else Inr prio1)
                      (\<lambda>prio2. Inr (prio2, ndev_idx (txqs hw (rwnx_txq_sta_get old (stas hw i) (prio2 mod 256)))))
            else Inr (0xFF, ndev_idx (txqs hw (rwnx_txq_sta_get old (stas hw i) 0))))
       (\<lambda>(prio, nq). if unat nq \<ge> NX_NB_TID_PER_STA * NX_REMOTE_STA_MAX + 1 then Inl Bug_On else Inr (prio, nq))"

text \<open>\<open>rwnx_get_tx_priv\<close>: the station and the TID of a frame.\<close>

definition rwnx_get_tx_priv :: "bool \<Rightarrow> rwnx_vif \<Rightarrow> nat \<Rightarrow> u16 \<Rightarrow> nat option \<times> nat" where
  "rwnx_get_tx_priv old vif prio queue_mapping =
     (if prio = PRIO_STA_NULL then None
      else if unat queue_mapping = NX_BCMC_TXQ_NDEV_IDX old then Some (sta_max old + master_vif_idx vif)
      else Some (unat queue_mapping div NX_NB_TID_PER_STA),
      prio mod 256)"

text \<open>The change of priority that \<open>rwnx_start_xmit\<close> makes after the network queue has been selected.\<close>

definition xmit_prio :: "nat \<Rightarrow> nat" where
  "xmit_prio prio = (if prio < 3 then 0 else prio)"

definition TXU_CNTRL_MGMT_NO_CCK :: u32 where [simp]: "TXU_CNTRL_MGMT_NO_CCK = 0x010"
definition TXU_CNTRL_MGMT_ROBUST :: u32 where [simp]: "TXU_CNTRL_MGMT_ROBUST = 0x080"
definition TXU_CNTRL_USE_4ADDR :: u32 where [simp]: "TXU_CNTRL_USE_4ADDR = 0x100"
definition TXU_CNTRL_MESH_FWD :: u32 where [simp]: "TXU_CNTRL_MESH_FWD = 0x400"
definition TXU_CNTRL_TDLS :: u32 where [simp]: "TXU_CNTRL_TDLS = 0x800"

text \<open>A new software header; the fields that are left for \<open>rwnx_tx_push\<close> to set are 0 here.\<close>

definition new_txhdr :: "nat \<Rightarrow> nat option \<Rightarrow> rwnx_vif \<Rightarrow> u32 \<Rightarrow> u8 \<Rightarrow> u16 \<Rightarrow> rwnx_sw_txhdr" where
  "new_txhdr q sta vif flags byte etype =
     \<lparr>h_txq = q, h_sta = sta, h_mesh = (vif_iftype vif = IF_MESH_POINT), hw_queue = 0, h_flags = flags, h_byte = byte,
      ethertype = etype, need_cfm = False, hostid = 0, raw_frame = False, fixed_rate = False, rate_config = 0\<rparr>"

text \<open>
  The flags of a data frame; \<open>four\<close>: the interface uses four addresses, \<open>to_tdls\<close>: the frame is for
  the TDLS peer of the interface, \<open>resend\<close>: a mesh interface forwards it.
\<close>

definition xmit_flags :: "rwnx_vif \<Rightarrow> nat \<Rightarrow> bool \<Rightarrow> bool \<Rightarrow> bool \<Rightarrow> u32" where
  "xmit_flags vif sidx four to_tdls resend =
     (if four \<and> sidx < NX_REMOTE_STA_MAX then TXU_CNTRL_USE_4ADDR else 0) OR
     (if vif_tdls_link vif \<and> vif_tdls_sta vif \<noteq> None \<and> to_tdls then TXU_CNTRL_TDLS else 0) OR
     (if vif_iftype vif = IF_MESH_POINT \<and> resend then TXU_CNTRL_MESH_FWD else 0)"

text \<open>
  \<open>rwnx_start_xmit\<close> from the look-up of the station on, for a frame \<open>k\<close> of Ethernet type \<open>etype\<close>
  whose payload starts with \<open>byte\<close>; \<open>mem\<close>: the header can be allocated.
\<close>

definition xmit_frame ::
  "bool \<Rightarrow> rwnx_vif \<Rightarrow> bool \<Rightarrow> bool \<times> bool \<times> bool \<Rightarrow> nat \<Rightarrow> u16 \<Rightarrow> u8 \<Rightarrow> u16 \<Rightarrow> nat \<Rightarrow> tx_hw \<Rightarrow> tx_hw outcome option" where
  "xmit_frame old vif mem opts prio queue_mapping byte etype k hw =
     (case rwnx_get_tx_priv old vif (xmit_prio prio) queue_mapping of
        (None, _) \<Rightarrow> Some (Inr (hw\<lparr>free_log := free_log hw @ [k]\<rparr>))
      | (Some i, tid) \<Rightarrow>
          let q = rwnx_txq_sta_get old (stas hw i) tid in
          if idx (txqs hw q) = TXQ_INACTIVE \<or> \<not> mem then Some (Inr (hw\<lparr>free_log := free_log hw @ [k]\<rparr>))
          else case opts of (four, to_tdls, resend) \<Rightarrow>
            (case rwnx_txq_queue_skb k q False
                    (upd_hdr k (\<lambda>_. new_txhdr q (Some i) vif
                       (xmit_flags vif (sta_idx (stas hw i)) four to_tdls resend) byte etype) hw) of
               (True, hw') \<Rightarrow> rwnx_hwq_process (hwq (txqs hw' q)) hw'
             | (False, hw') \<Rightarrow> Some (Inr hw')))"

text \<open>
  \<open>rwnx_start_mgmt_xmit\<close>; \<open>mem\<close>: the buffer and the header can be allocated.  The result says whether
  the frame was accepted.
\<close>

definition rwnx_start_mgmt_xmit ::
  "bool \<Rightarrow> rwnx_vif \<Rightarrow> nat option \<Rightarrow> bool \<Rightarrow> bool \<Rightarrow> bool \<Rightarrow> bool \<Rightarrow> u8 \<Rightarrow> nat \<Rightarrow> tx_hw \<Rightarrow> (bool \<times> tx_hw) outcome option" where
  "rwnx_start_mgmt_xmit old vif sta offchan mem robust no_cck byte k hw =
     (let q = (case sta of
                 Some i \<Rightarrow> rwnx_txq_sta_get old (stas hw i) 8
               | None \<Rightarrow> if offchan then NX_OFF_CHAN_TXQ_IDX old else rwnx_txq_vif_get old vif NX_UNK_TXQ_TYPE);
          flags = TXU_CNTRL_MGMT OR (if robust then TXU_CNTRL_MGMT_ROBUST else 0) OR
                  (if no_cck then TXU_CNTRL_MGMT_NO_CCK else 0)
      in if idx (txqs hw q) = TXQ_INACTIVE \<or> \<not> mem then Some (Inr (False, hw))
         else case rwnx_txq_queue_skb k q False (upd_hdr k (\<lambda>_. new_txhdr q sta vif flags byte 0) hw) of
                (True, hw') \<Rightarrow> map_option (map_sum id (Pair True)) (rwnx_hwq_process (hwq (txqs hw' q)) hw')
              | (False, hw') \<Rightarrow> Some (Inr (True, hw')))"

end
