(* ===== verification/Txq_Push.thy ===== *)
theory Txq_Push
  imports Txq
begin

text \<open>
  What pushing frames does to the state of the transmit path: \<open>rwnx_tx_push\<close> changes one queue, by
  \<open>push_t\<close>, and appends to the log of the bus.  A batch taken by \<open>rwnx_txq_get_skb_to_push\<close> is a prefix
  of the queue; the retry counter describes the queue before and after.
\<close>

named_theorems tx_fields

section \<open>Fields of the updates\<close>

lemma upd_txq_fields [tx_fields]:
  "txqs (upd_txq q f hw) = (txqs hw)(q := f (txqs hw q))" "hwqs (upd_txq q f hw) = hwqs hw"
  "stas (upd_txq q f hw) = stas hw" "hdrs (upd_txq q f hw) = hdrs hw" "bus_log (upd_txq q f hw) = bus_log hw"
  "free_log (upd_txq q f hw) = free_log hw" "warns (upd_txq q f hw) = warns hw"
  "tx_host_id (upd_txq q f hw) = tx_host_id hw" "txdesc_free_idx (upd_txq q f hw) = txdesc_free_idx hw"
  by (simp_all add: upd_txq_def)

lemma upd_hwq_fields [tx_fields]:
  "txqs (upd_hwq h f hw) = txqs hw" "hwqs (upd_hwq h f hw) = (hwqs hw)(h := f (hwqs hw h))"
  "stas (upd_hwq h f hw) = stas hw" "hdrs (upd_hwq h f hw) = hdrs hw" "bus_log (upd_hwq h f hw) = bus_log hw"
  "free_log (upd_hwq h f hw) = free_log hw" "warns (upd_hwq h f hw) = warns hw"
  "tx_host_id (upd_hwq h f hw) = tx_host_id hw" "txdesc_free_idx (upd_hwq h f hw) = txdesc_free_idx hw"
  by (simp_all add: upd_hwq_def)

lemma upd_sta_fields [tx_fields]:
  "txqs (upd_sta i f hw) = txqs hw" "hwqs (upd_sta i f hw) = hwqs hw"
  "stas (upd_sta i f hw) = (stas hw)(i := f (stas hw i))" "hdrs (upd_sta i f hw) = hdrs hw"
  "bus_log (upd_sta i f hw) = bus_log hw" "free_log (upd_sta i f hw) = free_log hw" "warns (upd_sta i f hw) = warns hw"
  "tx_host_id (upd_sta i f hw) = tx_host_id hw" "txdesc_free_idx (upd_sta i f hw) = txdesc_free_idx hw"
  by (simp_all add: upd_sta_def)

lemma upd_hdr_fields [tx_fields]:
  "txqs (upd_hdr k f hw) = txqs hw" "hwqs (upd_hdr k f hw) = hwqs hw"
  "stas (upd_hdr k f hw) = stas hw" "hdrs (upd_hdr k f hw) = (hdrs hw)(k := f (hdrs hw k))"
  "bus_log (upd_hdr k f hw) = bus_log hw" "free_log (upd_hdr k f hw) = free_log hw" "warns (upd_hdr k f hw) = warns hw"
  "tx_host_id (upd_hdr k f hw) = tx_host_id hw" "txdesc_free_idx (upd_hdr k f hw) = txdesc_free_idx hw"
  by (simp_all add: upd_hdr_def)

lemma traffic_status_fields [tx_fields]:
  "txqs (rwnx_set_traffic_status i a p hw) = txqs hw" "hwqs (rwnx_set_traffic_status i a p hw) = hwqs hw"
  "stas (rwnx_set_traffic_status i a p hw) = stas hw" "hdrs (rwnx_set_traffic_status i a p hw) = hdrs hw"
  "bus_log (rwnx_set_traffic_status i a p hw) = bus_log hw" "free_log (rwnx_set_traffic_status i a p hw) = free_log hw"
  "warns (rwnx_set_traffic_status i a p hw) = warns hw"
  "tx_host_id (rwnx_set_traffic_status i a p hw) = tx_host_id hw"
  "txdesc_free_idx (rwnx_set_traffic_status i a p hw) = txdesc_free_idx hw"
  by (simp_all add: rwnx_set_traffic_status_def)

text \<open>What the headers say of the queue and the station of a frame does not change after it is queued.\<close>

definition owner :: "tx_hw \<Rightarrow> nat \<Rightarrow> nat \<times> nat option" where
  "owner hw k = (h_txq (hdrs hw k), h_sta (hdrs hw k))"

lemma more_data_fields [tx_fields]:
  "txqs (rwnx_set_more_data_flag i k hw) = txqs hw" "hwqs (rwnx_set_more_data_flag i k hw) = hwqs hw"
  "bus_log (rwnx_set_more_data_flag i k hw) = bus_log hw" "free_log (rwnx_set_more_data_flag i k hw) = free_log hw"
  "warns (rwnx_set_more_data_flag i k hw) = warns hw" "owner (rwnx_set_more_data_flag i k hw) = owner hw"
  "tx_host_id (rwnx_set_more_data_flag i k hw) = tx_host_id hw"
  "txdesc_free_idx (rwnx_set_more_data_flag i k hw) = txdesc_free_idx hw"
  by (auto simp: rwnx_set_more_data_flag_def Let_def tx_fields owner_def fun_eq_iff)

lemma push_desc_fields [tx_fields]:
  "txqs (push_desc k hw) = txqs hw" "hwqs (push_desc k hw) = hwqs hw" "stas (push_desc k hw) = stas hw"
  "bus_log (push_desc k hw) = bus_log hw" "free_log (push_desc k hw) = free_log hw"
  "warns (push_desc k hw) = warns hw" "owner (push_desc k hw) = owner hw"
  by (auto simp: push_desc_def aicwf_sdio_host_txdesc_push_def Let_def tx_fields owner_def fun_eq_iff)

section \<open>One frame\<close>

definition push_t :: "rwnx_txq \<Rightarrow> rwnx_txq" where
  "push_t t =
     (let t1 = (if nb_retry t \<noteq> 0
                then if nb_retry t = 1 then t\<lparr>nb_retry := 0, last_retry_skb := None\<rparr> else t\<lparr>nb_retry := nb_retry t - 1\<rparr>
                else t\<lparr>pkt_sent := pkt_sent t + 1\<rparr>)
      in t1\<lparr>pkt_pushed := pkt_pushed t + 1, push_limit := (if push_limit t \<noteq> 0 then push_limit t - 1 else 0)\<rparr>)"

lemma push_t_fields [simp]:
  "idx (push_t t) = idx t" "status (push_t t) = status t" "credits (push_t t) = credits t" "sk_list (push_t t) = sk_list t"
  "hwq (push_t t) = hwq t" "q_tid (push_t t) = q_tid t" "q_sta (push_t t) = q_sta t" "ps_id (push_t t) = ps_id t"
  "ndev_idx (push_t t) = ndev_idx t" "ndev (push_t t) = ndev t"
  by (simp_all add: push_t_def Let_def)

lemma push_fields:
  assumes q: "h_txq (hdrs hw k) = q"
  shows "txqs (rwnx_tx_push False k hw) = (txqs hw)(q := push_t (txqs hw q))"
    "hwqs (rwnx_tx_push False k hw) = hwqs hw"
    "bus_log (rwnx_tx_push False k hw) = bus_log hw @ [k]"
    "free_log (rwnx_tx_push False k hw) = free_log hw"
    "warns (rwnx_tx_push False k hw) =
       warns hw + (if nb_retry (txqs hw q) = 1 \<and> last_retry_skb (txqs hw q) \<noteq> Some k then 1 else 0)"
    "owner (rwnx_tx_push False k hw) = owner hw"
proof -
  let ?r = "push_retry_count False k q hw"
  have rh: "hdrs ?r = hdrs hw" "hwqs ?r = hwqs hw" "bus_log ?r = bus_log hw" "free_log ?r = free_log hw"
    by (simp_all add: push_retry_count_def Let_def tx_fields)
  have ro: "owner ?r = owner hw"
    by (simp add: owner_def fun_eq_iff rh)
  have rw: "warns ?r = warns hw + (if nb_retry (txqs hw q) = 1 \<and> last_retry_skb (txqs hw q) \<noteq> Some k then 1 else 0)"
    by (simp add: push_retry_count_def Let_def tx_fields)
  have rt: "push_limit (txqs ?r q) \<noteq> 0 \<Longrightarrow> (txqs ?r)(q := (txqs ?r q)\<lparr>pkt_pushed := pkt_pushed (txqs ?r q) + 1,
       push_limit := push_limit (txqs ?r q) - 1\<rparr>) = (txqs hw)(q := push_t (txqs hw q))"
    "push_limit (txqs ?r q) = 0 \<Longrightarrow> (txqs ?r)(q := (txqs ?r q)\<lparr>pkt_pushed := pkt_pushed (txqs ?r q) + 1,
       push_limit := 0\<rparr>) = (txqs hw)(q := push_t (txqs hw q))"
    by (cases "nb_retry (txqs hw q) = 0"; cases "nb_retry (txqs hw q) = 1";
        simp add: push_retry_count_def push_t_def Let_def tx_fields fun_eq_iff)+
  have uo: "owner (upd_hdr k (hw_queue_update f) s) = owner s" "owner (upd_txq q g s) = owner s" for f g s
    by (auto simp: owner_def tx_fields fun_eq_iff)
  show "txqs (rwnx_tx_push False k hw) = (txqs hw)(q := push_t (txqs hw q))"
    using rt by (simp add: rwnx_tx_push_def Let_def q tx_fields rh split: option.split)
  show "hwqs (rwnx_tx_push False k hw) = hwqs hw" "bus_log (rwnx_tx_push False k hw) = bus_log hw @ [k]"
    "free_log (rwnx_tx_push False k hw) = free_log hw"
    by (simp_all add: rwnx_tx_push_def Let_def q tx_fields rh split: option.split)
  show "warns (rwnx_tx_push False k hw) =
       warns hw + (if nb_retry (txqs hw q) = 1 \<and> last_retry_skb (txqs hw q) \<noteq> Some k then 1 else 0)"
    by (simp add: rwnx_tx_push_def Let_def q tx_fields rw split: option.split)
  have "owner (s\<lparr>bus_log := b, cfm_balance := c\<rparr>) = owner s" for s b c
    by (simp add: owner_def fun_eq_iff)
  then show "owner (rwnx_tx_push False k hw) = owner hw"
    by (simp add: rwnx_tx_push_def Let_def q tx_fields uo ro split: option.split)
qed

text \<open>The confirmation ring holds a frame at most once.\<close>

definition ring_once :: "(nat \<Rightarrow> nat option) \<Rightarrow> bool" where
  "ring_once r \<longleftrightarrow> (\<forall>a b k. r a = Some k \<longrightarrow> r b = Some k \<longrightarrow> a = b)"

lemma push_ring:
  "tx_host_id (rwnx_tx_push False k hw) = tx_host_id hw \<or>
   (\<exists>a. tx_host_id (rwnx_tx_push False k hw) = (tx_host_id hw)(a := Some k))"
proof -
  have r: "tx_host_id (push_retry_count False k q hw) = tx_host_id hw" for q
    by (simp add: push_retry_count_def Let_def tx_fields)
  have d: "tx_host_id (push_desc k s) = tx_host_id s \<or> (\<exists>a. tx_host_id (push_desc k s) = (tx_host_id s)(a := Some k))" for s
    by (auto simp: push_desc_def aicwf_sdio_host_txdesc_push_def Let_def tx_fields)
  define s4 where "s4 = (let q = h_txq (hdrs hw k); hw2 = upd_hdr k (\<lambda>h. h\<lparr>hw_queue := hid (hwqs hw (hwq (txqs hw q)))\<rparr>)
      (push_retry_count False k q hw) in upd_txq q (\<lambda>t. t\<lparr>pkt_pushed := pkt_pushed t + 1,
        push_limit := (if push_limit t \<noteq> 0 then push_limit t - 1 else 0)\<rparr>)
      (case h_sta (hdrs hw2 k) of None \<Rightarrow> hw2 | Some i \<Rightarrow> rwnx_set_more_data_flag i k hw2))"
  have "tx_host_id s4 = tx_host_id hw" by (simp add: s4_def Let_def tx_fields r split: option.split)
  moreover have "tx_host_id (rwnx_tx_push False k hw) = tx_host_id (push_desc k s4)"
    by (simp add: rwnx_tx_push_def s4_def Let_def)
  ultimately show ?thesis using d [of s4] by auto
qed

section \<open>A batch of frames\<close>

text \<open>The retry counter and the last retry of a queue describe a list of frames.\<close>

definition retry_desc :: "rwnx_txq \<Rightarrow> nat list \<Rightarrow> bool" where
  "retry_desc t ks \<longleftrightarrow> 0 \<le> nb_retry t \<and> nat (nb_retry t) \<le> length ks \<and>
     last_retry_skb t = (if nb_retry t = 0 then None else Some (ks ! (nat (nb_retry t) - 1)))"

lemma retry_desc_push:
  assumes "retry_desc t (k # ks)"
  shows "retry_desc (push_t t) ks" "\<not> (nb_retry t = 1 \<and> last_retry_skb t \<noteq> Some k)"
proof -
  show "\<not> (nb_retry t = 1 \<and> last_retry_skb t \<noteq> Some k)"
    using assms by (auto simp: retry_desc_def)
  consider "nb_retry t = 0" | "nb_retry t = 1" | "nb_retry t \<ge> 2"
    using assms unfolding retry_desc_def by linarith
  then show "retry_desc (push_t t) ks"
  proof cases
    case 3
    then have "nat (nb_retry t) - 1 = Suc (nat (nb_retry t - 1) - 1)" by linarith
    then have "(k # ks) ! (nat (nb_retry t) - 1) = ks ! (nat (nb_retry t - 1) - 1)" by simp
    moreover have "nat (nb_retry t - 1) \<le> length ks" using 3 assms by (auto simp: retry_desc_def nat_diff_distrib)
    ultimately show ?thesis using 3 assms by (simp add: retry_desc_def push_t_def Let_def)
  qed (use assms in \<open>auto simp: retry_desc_def push_t_def Let_def\<close>)
qed

lemma push_all:
  assumes "\<forall>k\<in>set ks. h_txq (hdrs hw k) = q" "retry_desc (txqs hw q) (ks @ rest)"
  defines "hw' \<equiv> fold (rwnx_tx_push False) ks hw"
  shows "txqs hw' = (txqs hw)(q := (push_t ^^ length ks) (txqs hw q)) \<and> hwqs hw' = hwqs hw \<and>
     bus_log hw' = bus_log hw @ ks \<and> free_log hw' = free_log hw \<and> warns hw' = warns hw \<and> owner hw' = owner hw \<and>
     retry_desc (txqs hw' q) rest"
  using assms(1,2) unfolding hw'_def
proof (induction ks arbitrary: hw)
  case (Cons k ks)
  let ?s = "rwnx_tx_push False k hw"
  note f = push_fields [of hw k q] and r = retry_desc_push [of "txqs hw q" k "ks @ rest"]
  have q: "h_txq (hdrs hw k) = q" using Cons.prems by simp
  have "h_txq (hdrs ?s j) = h_txq (hdrs hw j)" for j
    using f(6) q by (simp add: owner_def fun_eq_iff)
  then have "\<forall>j\<in>set ks. h_txq (hdrs ?s j) = q" using Cons.prems by simp
  moreover have "retry_desc (txqs ?s q) (ks @ rest)" using f(1) q r Cons.prems by simp
  ultimately have IH: "txqs (fold (rwnx_tx_push False) ks ?s) = (txqs ?s)(q := (push_t ^^ length ks) (txqs ?s q)) \<and>
     hwqs (fold (rwnx_tx_push False) ks ?s) = hwqs ?s \<and> bus_log (fold (rwnx_tx_push False) ks ?s) = bus_log ?s @ ks \<and>
     free_log (fold (rwnx_tx_push False) ks ?s) = free_log ?s \<and> warns (fold (rwnx_tx_push False) ks ?s) = warns ?s \<and>
     owner (fold (rwnx_tx_push False) ks ?s) = owner ?s \<and> retry_desc (txqs (fold (rwnx_tx_push False) ks ?s) q) rest"
    by (rule Cons.IH)
  have w: "warns ?s = warns hw" using f(5) q r(2) Cons.prems by simp
  show ?case using IH by (auto simp: f(1-4,6) [OF q] w funpow_swap1)
qed simp

lemma push_t_funpow_fields [simp]:
  "idx ((push_t ^^ n) t) = idx t" "status ((push_t ^^ n) t) = status t" "credits ((push_t ^^ n) t) = credits t"
  "sk_list ((push_t ^^ n) t) = sk_list t" "hwq ((push_t ^^ n) t) = hwq t" "q_sta ((push_t ^^ n) t) = q_sta t"
  "ps_id ((push_t ^^ n) t) = ps_id t" "ndev_idx ((push_t ^^ n) t) = ndev_idx t" "ndev ((push_t ^^ n) t) = ndev t"
  by (induction n) simp_all

lemma push_limit_push [simp]: "unat (push_limit ((push_t ^^ n) t)) = unat (push_limit t) - n"
  by (induction n) (auto simp: push_t_def Let_def unat_minus_one unat_eq_zero)

lemma push_all_ring:
  assumes "ring_once (tx_host_id hw)" "ran (tx_host_id hw) \<inter> set ks = {}" "distinct ks"
  defines "r \<equiv> tx_host_id (fold (rwnx_tx_push False) ks hw)"
  shows "ring_once r \<and> ran r \<subseteq> ran (tx_host_id hw) \<union> set ks"
  using assms(1-3) unfolding r_def
proof (induction ks arbitrary: hw)
  case (Cons k ks)
  let ?s = "rwnx_tx_push False k hw"
  have k: "tx_host_id hw a \<noteq> Some k" for a using Cons.prems(2) by (auto simp: ran_def)
  have once: "ring_once (tx_host_id ?s)" and sub: "ran (tx_host_id ?s) \<subseteq> ran (tx_host_id hw) \<union> {k}"
    using push_ring [of k hw] Cons.prems(1) k by (auto simp: ring_once_def ran_def split: if_splits)
  have "ran (tx_host_id ?s) \<inter> set ks = {}" using sub Cons.prems(2,3) by auto
  from Cons.IH [OF once this] Cons.prems(3) sub show ?case by auto
qed simp

end
