(* ===== verification/Txq_Sched.thy ===== *)
theory Txq_Sched
  imports Txq_Push
begin

text \<open>
  The scheduling invariant of the transmit queues and the processing of a hardware queue:
  \<open>rwnx_hwq_process\<close> ends without a \<open>BUG_ON\<close>, keeps the invariant, sends the frames of every queue in
  the order of the queue and serves every scheduled queue.
\<close>

section \<open>The invariant\<close>

definition active :: "rwnx_txq \<Rightarrow> bool" where
  "active t \<longleftrightarrow> idx t \<noteq> TXQ_INACTIVE"

definition txq_ok :: "nat \<Rightarrow> rwnx_txq \<Rightarrow> (nat \<Rightarrow> nat \<times> nat option) \<Rightarrow> bool" where
  "txq_ok q t own \<longleftrightarrow>
     0 \<le> sint (credits t) \<and> (active t \<longrightarrow> 0 < sint (credits t)) \<and>
     (active t \<longrightarrow> rwnx_txq_is_scheduled t \<longrightarrow> sk_list t \<noteq> []) \<and>
     (active t \<longrightarrow> unat (push_limit t) \<le> length (sk_list t) \<and> retry_desc t (sk_list t)) \<and>
     (\<not> active t \<longrightarrow> \<not> rwnx_txq_is_scheduled t \<and> sk_list t = []) \<and>
     distinct (sk_list t) \<and> (\<forall>k\<in>set (sk_list t). fst (own k) = q)"

definition sched_inv :: "tx_hw \<Rightarrow> bool" where
  "sched_inv hw \<longleftrightarrow>
     (\<forall>h. distinct (hlist (hwqs hw h))) \<and>
     (\<forall>h q. q \<in> set (hlist (hwqs hw h)) \<longleftrightarrow> rwnx_txq_is_scheduled (txqs hw q) \<and> hwq (txqs hw q) = h) \<and>
     (\<forall>q. txq_ok q (txqs hw q) (owner hw))"

lemma sched_inv_ok: "sched_inv hw \<Longrightarrow> txq_ok q (txqs hw q) (owner hw)"
  and sched_inv_listed:
    "sched_inv hw \<Longrightarrow> q \<in> set (hlist (hwqs hw h)) \<longleftrightarrow> rwnx_txq_is_scheduled (txqs hw q) \<and> hwq (txqs hw q) = h"
  and sched_inv_distinct: "sched_inv hw \<Longrightarrow> distinct (hlist (hwqs hw h))"
  by (auto simp: sched_inv_def)

text \<open>One queue changes, and the list of its hardware queue with it.\<close>

lemma sched_inv_update:
  assumes "sched_inv hw" "txqs hw' = (txqs hw)(q := t)" "owner hw' = owner hw"
    "hwq t = hwq (txqs hw q)" "txq_ok q t (owner hw)"
    "\<And>h. h \<noteq> hwq t \<Longrightarrow> hlist (hwqs hw' h) = hlist (hwqs hw h)"
    "distinct (hlist (hwqs hw' (hwq t)))"
    "\<And>p. p \<in> set (hlist (hwqs hw' (hwq t))) \<longleftrightarrow>
       (if p = q then rwnx_txq_is_scheduled t else p \<in> set (hlist (hwqs hw (hwq t))))"
  shows "sched_inv hw'"
  unfolding sched_inv_def
proof (intro conjI allI)
  fix h p
  show "distinct (hlist (hwqs hw' h))"
    by (cases "h = hwq t") (use assms in \<open>simp_all add: sched_inv_distinct\<close>)
  show "(p \<in> set (hlist (hwqs hw' h))) = (rwnx_txq_is_scheduled (txqs hw' p) \<and> hwq (txqs hw' p) = h)"
    by (cases "h = hwq t"; cases "p = q") (use assms in \<open>auto simp: sched_inv_listed\<close>)
  show "txq_ok p (txqs hw' p) (owner hw')"
    using assms sched_inv_ok [OF assms(1), of p] by simp
qed

text \<open>A frame in the confirmation ring is not queued.\<close>

definition ring_inv :: "tx_hw \<Rightarrow> bool" where
  "ring_inv hw \<longleftrightarrow> ring_once (tx_host_id hw) \<and> (\<forall>q. ran (tx_host_id hw) \<inter> set (sk_list (txqs hw q)) = {})"

section \<open>Status bits\<close>

lemma flag_disjoint [simp]:
  "RWNX_TXQ_STOP_FULL AND RWNX_TXQ_IN_HWQ_LIST = 0" "RWNX_TXQ_STOP_STA_PS AND RWNX_TXQ_IN_HWQ_LIST = 0"
  "RWNX_TXQ_STOP_CHAN AND RWNX_TXQ_IN_HWQ_LIST = 0" "RWNX_TXQ_NDEV_FLOW_CTRL AND RWNX_TXQ_IN_HWQ_LIST = 0"
  by (simp_all add: RWNX_TXQ_STOP_FULL_def RWNX_TXQ_STOP_STA_PS_def RWNX_TXQ_STOP_CHAN_def RWNX_TXQ_NDEV_FLOW_CTRL_def
      RWNX_TXQ_IN_HWQ_LIST_def)

lemma sched_set [simp]: "rwnx_txq_is_scheduled (t\<lparr>status := status t OR RWNX_TXQ_IN_HWQ_LIST\<rparr>)"
  by (simp add: rwnx_txq_is_scheduled_def has_or) (simp add: RWNX_TXQ_IN_HWQ_LIST_def)

lemma sched_clear [simp]: "\<not> rwnx_txq_is_scheduled (t\<lparr>status := status t AND NOT RWNX_TXQ_IN_HWQ_LIST\<rparr>)"
  by (simp add: rwnx_txq_is_scheduled_def has_clear_same)

lemma sched_other [simp]:
  "m AND RWNX_TXQ_IN_HWQ_LIST = 0 \<Longrightarrow> rwnx_txq_is_scheduled (t\<lparr>status := status t AND NOT m\<rparr>) = rwnx_txq_is_scheduled t"
  by (simp add: rwnx_txq_is_scheduled_def has_clear_other)

lemma sched_other_set [simp]:
  "m AND RWNX_TXQ_IN_HWQ_LIST = 0 \<Longrightarrow> rwnx_txq_is_scheduled (t\<lparr>status := status t OR m\<rparr>) = rwnx_txq_is_scheduled t"
  by (simp add: rwnx_txq_is_scheduled_def has_or) (simp add: has_def)

section \<open>The batch of one visit\<close>

definition batch :: "rwnx_txq \<Rightarrow> nat" where
  "batch t = min (nat (rwnx_txq_get_credits t)) (length (sk_list t))"

lemma get_credits_pos:
  assumes "0 < sint (credits t)"
  shows "0 < rwnx_txq_get_credits t" "rwnx_txq_get_credits t \<le> sint (credits t)"
    "push_limit t \<noteq> 0 \<Longrightarrow> rwnx_txq_get_credits t \<le> uint (push_limit t)"
  using assms by (auto simp: rwnx_txq_get_credits_def uint_0_iff order_less_le)

lemma get_skb_batch:
  assumes "0 < sint (credits t)" "sk_list t \<noteq> []"
  shows "\<exists>e. rwnx_txq_get_skb_to_push t = (e, take (batch t) (sk_list t), t\<lparr>sk_list := drop (batch t) (sk_list t)\<rparr>) \<and>
     (e \<longleftrightarrow> batch t = length (sk_list t) \<or> push_limit t \<noteq> 0 \<and> rwnx_txq_get_credits t = uint (push_limit t)) \<and> 0 < batch t"
proof (cases "int (length (sk_list t)) \<le> rwnx_txq_get_credits t")
  case True
  then have "batch t = length (sk_list t)" by (simp add: batch_def le_nat_iff)
  with True assms(2) show ?thesis by (auto simp: rwnx_txq_get_skb_to_push_def Let_def)
next
  case False
  then have "batch t = nat (rwnx_txq_get_credits t)" "batch t < length (sk_list t)"
    using assms(2) get_credits_pos(1) [OF assms(1)] by (auto simp: batch_def nat_less_iff)
  with False get_credits_pos(1) [OF assms(1)] show ?thesis
    by (auto simp: rwnx_txq_get_skb_to_push_def Let_def skb_queue_extract_def)
qed

section \<open>A visit\<close>

text \<open>What one visit of queue \<open>q\<close> does to the state, apart from counters.\<close>

definition visited :: "nat \<Rightarrow> nat \<Rightarrow> tx_hw \<Rightarrow> tx_hw \<Rightarrow> bool" where
  "visited h q hw hw' \<longleftrightarrow>
     sched_inv hw' \<and> owner hw' = owner hw \<and> warns hw' = warns hw \<and> free_log hw' = free_log hw \<and>
     bus_log hw' = bus_log hw @ take (batch (txqs hw q)) (sk_list (txqs hw q)) \<and>
     sk_list (txqs hw' q) = drop (batch (txqs hw q)) (sk_list (txqs hw q)) \<and> 0 < batch (txqs hw q) \<and>
     (\<forall>p. p \<noteq> q \<longrightarrow> txqs hw' p = txqs hw p) \<and>
     (\<forall>p. p \<noteq> h \<longrightarrow> hwqs hw' p = hwqs hw p) \<and> need_processing (hwqs hw' h) = need_processing (hwqs hw h) \<and>
     (hlist (hwqs hw' h) = remove1 q (hlist (hwqs hw h)) \<or> hlist (hwqs hw' h) = hlist (hwqs hw h) \<or>
      hlist (hwqs hw' h) = rotate1 (hlist (hwqs hw h))) \<and>
     (ring_inv hw \<longrightarrow> ring_inv hw')"

text \<open>The fields of a queue that the end of a visit leaves alone.\<close>

definition core :: "rwnx_txq \<Rightarrow> u16 \<times> u8 \<times> nat list \<times> nat \<times> int \<times> nat option" where
  "core t = (idx t, credits t, sk_list t, hwq t, nb_retry t, last_retry_skb t)"

lemma core_simps [simp]:
  "core (t\<lparr>status := a\<rparr>) = core t" "core (t\<lparr>pkt_sent := b\<rparr>) = core t" "core (t\<lparr>push_limit := c\<rparr>) = core t"
  by (simp_all add: core_def)

lemma rotate_effect:
  fixes e :: bool
  assumes "hwq (txqs s q) = h" "rwnx_txq_is_scheduled (txqs s q)"
  defines "s' \<equiv> hwq_rotate h q e s"
  shows "\<exists>t. txqs s' = (txqs s)(q := t) \<and> core t = core (txqs s q) \<and> push_limit t = push_limit (txqs s q) \<and>
       (rwnx_txq_is_scheduled t \<longleftrightarrow> \<not> e)"
    "\<forall>p. p \<noteq> h \<longrightarrow> hwqs s' p = hwqs s p" "need_processing (hwqs s' h) = need_processing (hwqs s h)"
    "hlist (hwqs s' h) = (if e then remove1 q (hlist (hwqs s h)) else hlist (hwqs s h)) \<or>
     \<not> e \<and> hlist (hwqs s' h) = rotate1 (hlist (hwqs s h))"
    "bus_log s' = bus_log s" "free_log s' = free_log s" "warns s' = warns s" "owner s' = owner s"
    "tx_host_id s' = tx_host_id s"
proof -
  have r: "rwnx_txq_is_scheduled (t\<lparr>pkt_sent := x\<rparr>) = rwnx_txq_is_scheduled t" for t x
    by (simp add: rwnx_txq_is_scheduled_def)
  have "txqs s' = (txqs s)(q := txqs s' q)"
    by (auto simp: s'_def hwq_rotate_def rwnx_txq_del_from_hw_list_def tx_fields fun_eq_iff)
  moreover have "core (txqs s' q) = core (txqs s q)" "push_limit (txqs s' q) = push_limit (txqs s q)"
    "rwnx_txq_is_scheduled (txqs s' q) \<longleftrightarrow> \<not> e"
    using assms(1,2) by (auto simp: s'_def hwq_rotate_def rwnx_txq_del_from_hw_list_def tx_fields r)
  ultimately show "\<exists>t. txqs s' = (txqs s)(q := t) \<and> core t = core (txqs s q) \<and> push_limit t = push_limit (txqs s q) \<and>
       (rwnx_txq_is_scheduled t \<longleftrightarrow> \<not> e)" by blast
qed (use assms(1,2) in \<open>auto simp: s'_def hwq_rotate_def rwnx_txq_del_from_hw_list_def tx_fields owner_def fun_eq_iff\<close>)

lemma finish_effect:
  fixes s :: tx_hw and q :: nat
  defines "s' \<equiv> flow_ctrl_restart q (abort_sp q s)"
  shows "\<exists>t. txqs s' = (txqs s)(q := t) \<and> core t = core (txqs s q) \<and> unat (push_limit t) \<le> unat (push_limit (txqs s q)) \<and>
       rwnx_txq_is_scheduled t = rwnx_txq_is_scheduled (txqs s q)"
    "hwqs s' = hwqs s" "bus_log s' = bus_log s" "free_log s' = free_log s" "warns s' = warns s" "owner s' = owner s"
    "tx_host_id s' = tx_host_id s"
proof -
  have r: "rwnx_txq_is_scheduled (t\<lparr>push_limit := x\<rparr>) = rwnx_txq_is_scheduled t" for t x
    by (simp add: rwnx_txq_is_scheduled_def)
  have "txqs s' = (txqs s)(q := txqs s' q)"
    by (auto simp: s'_def flow_ctrl_restart_def abort_sp_def Let_def tx_fields fun_eq_iff split: option.split)
  moreover have "core (txqs s' q) = core (txqs s q)" "unat (push_limit (txqs s' q)) \<le> unat (push_limit (txqs s q))"
    "rwnx_txq_is_scheduled (txqs s' q) = rwnx_txq_is_scheduled (txqs s q)"
    by (auto simp: s'_def flow_ctrl_restart_def abort_sp_def Let_def tx_fields r split: option.split)
  ultimately show "\<exists>t. txqs s' = (txqs s)(q := t) \<and> core t = core (txqs s q) \<and>
       unat (push_limit t) \<le> unat (push_limit (txqs s q)) \<and> rwnx_txq_is_scheduled t = rwnx_txq_is_scheduled (txqs s q)"
    by blast
qed (auto simp: s'_def flow_ctrl_restart_def abort_sp_def Let_def tx_fields owner_def fun_eq_iff split: option.split)

lemma retry_desc_core: "core t = core t' \<Longrightarrow> retry_desc t ks = retry_desc t' ks"
  by (simp add: core_def retry_desc_def)

lemma scheduled_queue:
  assumes "sched_inv hw" "q \<in> set (hlist (hwqs hw h))"
  shows "rwnx_txq_is_scheduled (txqs hw q)" "hwq (txqs hw q) = h" "active (txqs hw q)" "0 < sint (credits (txqs hw q))"
    "sk_list (txqs hw q) \<noteq> []"
  using sched_inv_ok [OF assms(1), of q] assms by (auto simp: sched_inv_listed txq_ok_def)

lemma visit_push:
  fixes hw q
  defines "t \<equiv> txqs hw q"
  defines "ks \<equiv> take (batch t) (sk_list t)" and "rest \<equiv> drop (batch t) (sk_list t)"
  defines "s \<equiv> fold (rwnx_tx_push False) ks (upd_txq q (\<lambda>_. t\<lparr>sk_list := rest\<rparr>) hw)"
  assumes inv: "sched_inv hw" and act: "active t"
  shows "txqs s = (txqs hw)(q := (push_t ^^ batch t) (t\<lparr>sk_list := rest\<rparr>))" "hwqs s = hwqs hw"
    "bus_log s = bus_log hw @ ks" "free_log s = free_log hw" "warns s = warns hw" "owner s = owner hw"
    "retry_desc (txqs s q) rest" "ring_inv hw \<Longrightarrow> ring_inv s"
proof -
  define s1 where "s1 = upd_txq q (\<lambda>_. t\<lparr>sk_list := rest\<rparr>) hw"
  note ok = sched_inv_ok [OF inv, of q, folded t_def, unfolded txq_ok_def]
  have "\<forall>k\<in>set ks. h_txq (hdrs s1 k) = q"
    using ok by (auto simp: s1_def ks_def tx_fields owner_def dest: in_set_takeD)
  moreover have "retry_desc (txqs s1 q) (ks @ rest)"
    using ok act by (simp add: s1_def tx_fields retry_desc_def ks_def rest_def)
  ultimately have p: "txqs s = (txqs s1)(q := (push_t ^^ length ks) (txqs s1 q)) \<and> hwqs s = hwqs s1 \<and>
     bus_log s = bus_log s1 @ ks \<and> free_log s = free_log s1 \<and> warns s = warns s1 \<and> owner s = owner s1 \<and>
     retry_desc (txqs s q) rest"
    using push_all [of ks s1 q rest] unfolding s_def s1_def by blast
  have n: "length ks = batch t" by (simp add: batch_def ks_def)
  have "owner s1 = owner hw" by (simp add: s1_def owner_def tx_fields fun_eq_iff)
  then show res: "txqs s = (txqs hw)(q := (push_t ^^ batch t) (t\<lparr>sk_list := rest\<rparr>))" "hwqs s = hwqs hw"
    "bus_log s = bus_log hw @ ks" "free_log s = free_log hw" "warns s = warns hw" "owner s = owner hw"
    "retry_desc (txqs s q) rest"
    using p by (auto simp: s1_def tx_fields n simp del: length_take)
  assume ring: "ring_inv hw"
  have dis: "distinct (ks @ rest)" "set ks \<subseteq> set (sk_list t)" using ok by (auto simp: ks_def rest_def dest: in_set_takeD)
  have "tx_host_id s1 = tx_host_id hw" by (simp add: s1_def tx_fields)
  then have "ring_once (tx_host_id s) \<and> ran (tx_host_id s) \<subseteq> ran (tx_host_id hw) \<union> set ks"
    using push_all_ring [of s1 ks] ring dis unfolding s_def s1_def ring_inv_def t_def by auto
  moreover have "set ks \<inter> set (sk_list (txqs s p)) = {}" for p
  proof (cases "p = q")
    case True
    then show ?thesis using dis res(1) by auto
  next
    case False
    have "fst (owner hw k) = q" if "k \<in> set ks" for k using ok dis that by blast
    moreover have "fst (owner hw k) = p" if "k \<in> set (sk_list (txqs hw p))" for k
      using sched_inv_ok [OF inv, of p] that by (simp add: txq_ok_def)
    ultimately show ?thesis using False res(1) by auto
  qed
  moreover have "set (sk_list (txqs s p)) \<subseteq> set (sk_list (txqs hw p))" for p
    using res(1) by (auto simp: t_def rest_def dest: in_set_dropD)
  ultimately show "ring_inv s" using ring unfolding ring_inv_def by fastforce
qed

lemma visit_ok:
  assumes inv: "sched_inv hw" and q: "q \<in> set (hlist (hwqs hw h))"
  shows "\<exists>hw'. hwq_visit h q hw = Inr hw' \<and> visited h q hw hw'"
proof -
  let ?t = "txqs hw q"
  let ?ks = "take (batch ?t) (sk_list ?t)" and ?rest = "drop (batch ?t) (sk_list ?t)"
  note sq = scheduled_queue [OF inv q] and ok = sched_inv_ok [OF inv, of q, unfolded txq_ok_def]
  obtain e where e: "rwnx_txq_get_skb_to_push ?t = (e, ?ks, ?t\<lparr>sk_list := ?rest\<rparr>)"
      "e \<longleftrightarrow> batch ?t = length (sk_list ?t) \<or> push_limit ?t \<noteq> 0 \<and> rwnx_txq_get_credits ?t = uint (push_limit ?t)"
      "0 < batch ?t"
    using get_skb_batch [OF sq(4,5)] by blast
  define s2 where "s2 = fold (rwnx_tx_push False) ?ks (upd_txq q (\<lambda>_. ?t\<lparr>sk_list := ?rest\<rparr>) hw)"
  define s3 where "s3 = hwq_rotate h q e s2"
  define s4 where "s4 = flow_ctrl_restart q (abort_sp q s3)"
  note p = visit_push [OF inv sq(3), folded s2_def]
  have h2: "hwq (txqs s2 q) = h" "rwnx_txq_is_scheduled (txqs s2 q)"
    using p sq by (simp_all add: rwnx_txq_is_scheduled_def)
  note r = rotate_effect [OF h2, of e, folded s3_def] and f = finish_effect [of q s3, folded s4_def]
  obtain t3 where t3: "txqs s3 = (txqs s2)(q := t3)" "core t3 = core (txqs s2 q)" "push_limit t3 = push_limit (txqs s2 q)"
      "rwnx_txq_is_scheduled t3 \<longleftrightarrow> \<not> e" using r(1) by blast
  obtain t4 where t4: "txqs s4 = (txqs s3)(q := t4)" "core t4 = core t3" "unat (push_limit t4) \<le> unat (push_limit t3)"
      "rwnx_txq_is_scheduled t4 \<longleftrightarrow> \<not> e" using f(1) t3 by auto
  have c: "idx t4 = idx ?t" "credits t4 = credits ?t" "sk_list t4 = ?rest" "hwq t4 = h"
    using t3(2) t4(2) p sq by (simp_all add: core_def)
  have ret: "retry_desc t4 ?rest" using p(7) t3(2) t4(2) retry_desc_core by metis
  have pl: "unat (push_limit t4) \<le> unat (push_limit ?t) - batch ?t" using t4(3) t3(3) p by simp
  have txqs4: "txqs s4 = (txqs hw)(q := t4)" using t4(1) t3(1) p by simp
  have own4: "owner s4 = owner hw" using f(6) r(8) p(6) by simp
  have xs4: "hlist (hwqs s4 h) = (if e then remove1 q (hlist (hwqs hw h)) else hlist (hwqs hw h)) \<or>
     \<not> e \<and> hlist (hwqs s4 h) = rotate1 (hlist (hwqs hw h))"
    using r(4) unfolding f(2) p(2) .
  have inv4: "sched_inv s4"
  proof (rule sched_inv_update [OF inv txqs4 own4])
    show "txq_ok q t4 (owner hw)"
      using ok sq c ret pl e(2) t4(4) by (auto simp: txq_ok_def active_def batch_def dest: in_set_dropD)
    show "hlist (hwqs s4 p) = hlist (hwqs hw p)" if "p \<noteq> hwq t4" for p
      using r(2) f(2) p that c by simp
    show "distinct (hlist (hwqs s4 (hwq t4)))"
      using xs4 sched_inv_distinct [OF inv, of h] c by auto
    show "p \<in> set (hlist (hwqs s4 (hwq t4))) \<longleftrightarrow>
       (if p = q then rwnx_txq_is_scheduled t4 else p \<in> set (hlist (hwqs hw (hwq t4))))" for p
      using xs4 sched_inv_distinct [OF inv, of h] c q t4(4) by (auto simp: set_remove1_eq split: if_splits)
  qed (use c sq in simp)
  have "sk_list (txqs s4 p) = sk_list (txqs s2 p)" for p using txqs4 c(3) p(1) by simp
  then have ring4: "ring_inv hw \<Longrightarrow> ring_inv s4" using p(8) f(7) r(9) by (simp add: ring_inv_def)
  have "hwq_visit h q hw = Inr s4"
    using sq by (simp add: hwq_visit_def hwq_send_def Let_def e(1) active_def rwnx_txq_skb_ready_def s2_def s3_def s4_def)
  moreover have "visited h q hw s4"
    unfolding visited_def using inv4 own4 r(2,3,5-7) f(2-5) p(2-5) txqs4 c e(3) xs4 ring4 by (auto split: if_splits)
  ultimately show ?thesis by blast
qed

section \<open>The loop over a hardware queue\<close>

text \<open>
  The frames handed to the bus between two states: of every queue a prefix, in its order.
\<close>

definition sent :: "tx_hw \<Rightarrow> tx_hw \<Rightarrow> bool" where
  "sent hw hw' \<longleftrightarrow> (\<exists>bus. bus_log hw' = bus_log hw @ bus \<and>
     (\<forall>q. sk_list (txqs hw q) = filter (\<lambda>k. h_txq (hdrs hw k) = q) bus @ sk_list (txqs hw' q)))"

lemma sent_refl [simp]: "bus_log hw' = bus_log hw \<Longrightarrow> txqs hw' = txqs hw \<Longrightarrow> sent hw hw'"
  by (simp add: sent_def)

lemma owner_txq: "owner hw' = owner hw \<Longrightarrow> h_txq (hdrs hw' k) = h_txq (hdrs hw k)"
  by (simp add: owner_def fun_eq_iff)

lemma sent_trans:
  assumes "sent a b" "sent b c" "owner b = owner a"
  shows "sent a c"
proof -
  obtain x y where "bus_log b = bus_log a @ x" "bus_log c = bus_log b @ y"
      "\<forall>q. sk_list (txqs a q) = filter (\<lambda>k. h_txq (hdrs a k) = q) x @ sk_list (txqs b q)"
      "\<forall>q. sk_list (txqs b q) = filter (\<lambda>k. h_txq (hdrs b k) = q) y @ sk_list (txqs c q)"
    using assms(1,2) unfolding sent_def by blast
  then show ?thesis using owner_txq [OF assms(3)] unfolding sent_def by (intro exI [of _ "x @ y"]) simp
qed

lemma visited_sent:
  assumes "sched_inv hw" "visited h q hw hw'"
  shows "sent hw hw'"
proof -
  let ?ks = "take (batch (txqs hw q)) (sk_list (txqs hw q))"
  have "\<forall>k\<in>set ?ks. h_txq (hdrs hw k) = q"
    using sched_inv_ok [OF assms(1), of q] by (auto simp: txq_ok_def owner_def dest: in_set_takeD)
  then have "filter (\<lambda>k. h_txq (hdrs hw k) = p) ?ks = (if p = q then ?ks else [])" for p
    by (auto simp: filter_empty_conv intro!: filter_True)
  then show ?thesis
    using assms(2) unfolding sent_def visited_def by (intro exI [of _ ?ks]) auto
qed

definition backlog :: "nat \<Rightarrow> tx_hw \<Rightarrow> nat" where
  "backlog h hw = (\<Sum>q\<in>set (hlist (hwqs hw h)). length (sk_list (txqs hw q)))"

lemma visited_backlog:
  assumes "visited h q hw hw'" "q \<in> set (hlist (hwqs hw h))"
  shows "backlog h hw' < backlog h hw"
proof -
  let ?A = "set (hlist (hwqs hw h))"
  have sub: "set (hlist (hwqs hw' h)) \<subseteq> ?A"
    using assms(1) unfolding visited_def by (auto dest: set_remove1_subset)
  have len: "length (sk_list (txqs hw' p)) \<le> length (sk_list (txqs hw p))" for p
    using assms(1) unfolding visited_def by (cases "p = q") auto
  have "length (sk_list (txqs hw' q)) < length (sk_list (txqs hw q))"
    using assms(1) unfolding visited_def by (auto simp: batch_def)
  with assms(2) len have "(\<Sum>p\<in>?A. length (sk_list (txqs hw' p))) < (\<Sum>p\<in>?A. length (sk_list (txqs hw p)))"
    by (intro sum_strict_mono_ex1) auto
  moreover have "backlog h hw' \<le> (\<Sum>p\<in>?A. length (sk_list (txqs hw' p)))"
    unfolding backlog_def using sub by (intro sum_mono2) auto
  ultimately show ?thesis by (simp add: backlog_def)
qed

definition list_first :: "nat list \<Rightarrow> nat option" where
  "list_first xs = (case xs of [] \<Rightarrow> None | q # _ \<Rightarrow> Some q)"

lemma entry_after_split: "q \<notin> set pre \<Longrightarrow> entry_after q (pre @ q # suf) = list_first suf"
  by (induction pre) (simp_all add: list_first_def)

text \<open>
  After a visit the entries that follow the visited one are still ahead, possibly followed by an
  entry that was rotated to the end.
\<close>

lemma visited_ahead:
  assumes "visited h q hw hw'" "hlist (hwqs hw h) = pre @ q # suf" "q \<notin> set pre"
  shows "\<exists>pre' suf'. hlist (hwqs hw' h) = pre' @ suf' \<and> list_first suf' = list_first suf \<and> set suf \<subseteq> set suf'"
proof (cases suf)
  case Nil
  then show ?thesis by (intro exI [of _ "hlist (hwqs hw' h)"] exI [of _ "[]"]) simp
next
  case (Cons y ys)
  consider "hlist (hwqs hw' h) = remove1 q (hlist (hwqs hw h))" | "hlist (hwqs hw' h) = hlist (hwqs hw h)"
    | "hlist (hwqs hw' h) = rotate1 (hlist (hwqs hw h))" using assms(1) unfolding visited_def by blast
  then show ?thesis
  proof cases
    case 1
    then show ?thesis using assms(2,3) by (intro exI [of _ pre] exI [of _ suf]) (simp add: remove1_append)
  next
    case 2
    then show ?thesis using assms(2) by (intro exI [of _ "pre @ [q]"] exI [of _ suf]) simp
  next
    case 3
    then have "hlist (hwqs hw' h) = tl (pre @ [q]) @ (suf @ [hd (pre @ [q])])"
      using assms(2) by (cases pre) simp_all
    then show ?thesis using Cons
      by (rule_tac exI [of _ "tl (pre @ [q])"], rule_tac exI [of _ "suf @ [hd (pre @ [q])]"]) (auto simp: list_first_def)
  qed
qed

text \<open>What processing the entries \<open>suf\<close> of a hardware queue guarantees.\<close>

definition processed :: "nat \<Rightarrow> nat list \<Rightarrow> tx_hw \<Rightarrow> tx_hw \<Rightarrow> bool" where
  "processed h suf hw hw' \<longleftrightarrow>
     sched_inv hw' \<and> (ring_inv hw \<longrightarrow> ring_inv hw') \<and> owner hw' = owner hw \<and> warns hw' = warns hw \<and>
     free_log hw' = free_log hw \<and> sent hw hw' \<and>
     need_processing (hwqs hw' h) = need_processing (hwqs hw h) \<and> (\<forall>p. p \<noteq> h \<longrightarrow> hwqs hw' p = hwqs hw p) \<and>
     (\<forall>q. q \<notin> set (hlist (hwqs hw h)) \<longrightarrow> txqs hw' q = txqs hw q) \<and>
     set (hlist (hwqs hw' h)) \<subseteq> set (hlist (hwqs hw h)) \<and>
     (\<forall>q\<in>set suf. length (sk_list (txqs hw' q)) \<le> length (sk_list (txqs hw q)) - batch (txqs hw q))"

lemma sent_length: "sent hw hw' \<Longrightarrow> length (sk_list (txqs hw' q)) \<le> length (sk_list (txqs hw q))"
  by (metis sent_def length_append le_add2)

lemma processed_step:
  assumes inv: "sched_inv hw" and v: "visited h q hw hw1" and p: "processed h suf' hw1 hw2"
    and q: "q \<in> set (hlist (hwqs hw h))" and suf: "set suf \<subseteq> set suf'" "q \<notin> set suf"
  shows "processed h (q # suf) hw hw2"
proof -
  have s: "sent hw hw1" by (rule visited_sent [OF inv v])
  have same: "txqs hw1 p = txqs hw p" if "p \<noteq> q" for p using v that unfolding visited_def by blast
  have sub: "set (hlist (hwqs hw1 h)) \<subseteq> set (hlist (hwqs hw h))"
    using v unfolding visited_def by (auto dest: set_remove1_subset)
  have "length (sk_list (txqs hw2 r)) \<le> length (sk_list (txqs hw r)) - batch (txqs hw r)" if "r \<in> set (q # suf)" for r
  proof (cases "r = q")
    case True
    have "length (sk_list (txqs hw1 q)) = length (sk_list (txqs hw q)) - batch (txqs hw q)"
      using v unfolding visited_def by simp
    moreover have "length (sk_list (txqs hw2 q)) \<le> length (sk_list (txqs hw1 q))"
      using p sent_length unfolding processed_def by blast
    ultimately show ?thesis using True by simp
  next
    case False
    with that suf have "r \<in> set suf'" by auto
    then show ?thesis using p same [OF False] unfolding processed_def by auto
  qed
  moreover have "sent hw hw2"
    using s p v unfolding processed_def visited_def by (blast intro: sent_trans)
  moreover have "txqs hw2 r = txqs hw r" if "r \<notin> set (hlist (hwqs hw h))" for r
  proof -
    have "r \<noteq> q" "r \<notin> set (hlist (hwqs hw1 h))" using that q sub by auto
    then show ?thesis using same [of r] p unfolding processed_def by metis
  qed
  ultimately show ?thesis
    using p v sub unfolding processed_def visited_def by auto
qed

lemma hwq_loop_ok:
  assumes "sched_inv hw" "hlist (hwqs hw h) = pre @ suf"
  shows "\<exists>hw'. hwq_loop h (list_first suf) hw = Some (Inr hw') \<and> processed h suf hw hw'"
  using assms
proof (induction "backlog h hw" arbitrary: hw pre suf rule: less_induct)
  case less
  show ?case
  proof (cases suf)
    case Nil
    then show ?thesis using less.prems
      by (subst hwq_loop.simps) (simp add: list_first_def processed_def)
  next
    case (Cons q ys)
    have q: "q \<in> set (hlist (hwqs hw h))" "q \<notin> set pre" "q \<notin> set ys"
      using less.prems sched_inv_distinct [OF less.prems(1), of h] Cons by auto
    obtain hw1 where hw1: "hwq_visit h q hw = Inr hw1" "visited h q hw hw1"
      using visit_ok [OF less.prems(1) q(1)] by blast
    obtain pre' suf' where l: "hlist (hwqs hw1 h) = pre' @ suf'" "list_first suf' = list_first ys" "set ys \<subseteq> set suf'"
      using visited_ahead [OF hw1(2) _ q(2)] less.prems(2) Cons by blast
    have "sched_inv hw1" using hw1(2) by (simp add: visited_def)
    then obtain hw2 where hw2: "hwq_loop h (list_first ys) hw1 = Some (Inr hw2)" "processed h suf' hw1 hw2"
      using less.hyps [OF visited_backlog [OF hw1(2) q(1)] _ l(1)] l(2) by auto
    have "hwq_loop h (list_first suf) hw = Some (Inr hw2)"
      using hw1(1) hw2(1) less.prems(2) Cons entry_after_split [OF q(2)]
      by (subst hwq_loop.simps) (simp add: list_first_def [of "_ # _"])
    moreover have "processed h suf hw hw2"
      using processed_step [OF less.prems(1) hw1(2) hw2(2) q(1) l(3) q(3)] Cons by simp
    ultimately show ?thesis by blast
  qed
qed

lemma clear_processing_inv: "sched_inv (upd_hwq h (need_processing_update f) hw) = sched_inv hw"
proof -
  have "owner (upd_hwq h (need_processing_update f) hw) = owner hw"
    "hlist (hwqs (upd_hwq h (need_processing_update f) hw) p) = hlist (hwqs hw p)" for p
    by (simp_all add: owner_def tx_fields fun_eq_iff)
  then show ?thesis by (simp add: sched_inv_def tx_fields)
qed

lemma hwq_process_ok:
  assumes "sched_inv hw"
  shows "\<exists>hw'. rwnx_hwq_process h hw = Some (Inr hw') \<and>
     processed h (hlist (hwqs hw h)) (upd_hwq h (need_processing_update (\<lambda>_. False)) hw) hw'"
  using hwq_loop_ok [of "upd_hwq h (need_processing_update (\<lambda>_. False)) hw" h "[]" "hlist (hwqs hw h)"] assms
  by (simp add: clear_processing_inv rwnx_hwq_process_def list_first_def tx_fields)

end
