(* ===== verification/Txq_Inv.thy ===== *)
theory Txq_Inv
  imports Txq_Sched
begin

text \<open>
  Every operation on the transmit queues keeps the scheduling invariant and the invariant of the
  confirmation ring; the states that the operations reach from the start of the driver satisfy both.
\<close>

definition tx_inv :: "tx_hw \<Rightarrow> bool" where
  "tx_inv hw \<longleftrightarrow> sched_inv hw \<and> ring_inv hw"

text \<open>The invariant looks at the queues, the lists, the owners of frames and the ring only.\<close>

lemma tx_inv_cong:
  assumes "txqs hw' = txqs hw" "\<And>h. hlist (hwqs hw' h) = hlist (hwqs hw h)" "owner hw' = owner hw"
    "tx_host_id hw' = tx_host_id hw"
  shows "tx_inv hw' = tx_inv hw"
  using assms by (simp add: tx_inv_def sched_inv_def ring_inv_def)

lemma tx_inv_logs [simp]:
  "tx_inv (hw\<lparr>free_log := a\<rparr>) = tx_inv hw" "tx_inv (hw\<lparr>net_log := b\<rparr>) = tx_inv hw"
  "tx_inv (hw\<lparr>task_scheduled := c\<rparr>) = tx_inv hw" "tx_inv (hw\<lparr>mgmt_log := d\<rparr>) = tx_inv hw"
  "tx_inv (hw\<lparr>cfm_balance := e\<rparr>) = tx_inv hw" "tx_inv (hw\<lparr>warns := f\<rparr>) = tx_inv hw"
  "tx_inv (hw\<lparr>ind_log := g\<rparr>) = tx_inv hw"
  by (rule tx_inv_cong; simp add: owner_def fun_eq_iff)+

lemma tx_inv_sta [simp]: "tx_inv (upd_sta i f hw) = tx_inv hw"
  by (rule tx_inv_cong) (simp_all add: tx_fields owner_def fun_eq_iff)

lemma tx_inv_traffic [simp]: "tx_inv (rwnx_set_traffic_status i a p hw) = tx_inv hw"
  by (simp add: rwnx_set_traffic_status_def)

lemma tx_inv_need [simp]: "tx_inv (upd_hwq h (need_processing_update f) hw) = tx_inv hw"
  by (rule tx_inv_cong) (simp_all add: tx_fields owner_def fun_eq_iff)

lemma tx_inv_ps_count [simp]: "tx_inv (ps_count q hw) = tx_inv hw"
  by (simp add: ps_count_def Let_def split: option.split)

lemma ps_count_fields [simp]:
  "txqs (ps_count q hw) = txqs hw" "hwqs (ps_count q hw) = hwqs hw" "owner (ps_count q hw) = owner hw"
  "tx_host_id (ps_count q hw) = tx_host_id hw"
  by (auto simp: ps_count_def Let_def tx_fields owner_def fun_eq_iff split: option.split)

section \<open>Changes of one queue\<close>

lemma tx_inv_txq:
  assumes "tx_inv hw" "hwq (f (txqs hw q)) = hwq (txqs hw q)"
    "rwnx_txq_is_scheduled (f (txqs hw q)) = rwnx_txq_is_scheduled (txqs hw q)"
    "txq_ok q (f (txqs hw q)) (owner hw)"
    "ran (tx_host_id hw) \<inter> set (sk_list (f (txqs hw q))) = {}"
  shows "tx_inv (upd_txq q f hw)"
proof -
  have "sched_inv (upd_txq q f hw)"
    by (rule sched_inv_update [of hw _ q "f (txqs hw q)"])
      (use assms in \<open>auto simp: tx_inv_def tx_fields sched_inv_distinct sched_inv_listed owner_def fun_eq_iff\<close>)
  then show ?thesis using assms by (auto simp: tx_inv_def ring_inv_def tx_fields)
qed

lemma tx_inv_ok: "tx_inv hw \<Longrightarrow> txq_ok q (txqs hw q) (owner hw)"
  by (simp add: tx_inv_def sched_inv_ok)

lemma tx_inv_ring: "tx_inv hw \<Longrightarrow> ran (tx_host_id hw) \<inter> set (sk_list (txqs hw q)) = {}"
  by (simp add: tx_inv_def ring_inv_def)

text \<open>A change of \<open>status\<close> that leaves the list bit alone.\<close>

lemma tx_inv_status:
  assumes "tx_inv hw" "\<And>t. rwnx_txq_is_scheduled (t\<lparr>status := g (status t)\<rparr>) = rwnx_txq_is_scheduled t"
  shows "tx_inv (upd_txq q (\<lambda>t. t\<lparr>status := g (status t)\<rparr>) hw)"
  by (rule tx_inv_txq) (use assms tx_inv_ok [OF assms(1), of q] tx_inv_ring [OF assms(1), of q] in
      \<open>auto simp: txq_ok_def active_def retry_desc_def\<close>)

lemma tx_inv_add:
  assumes inv: "tx_inv hw" and "active (txqs hw q)" "sk_list (txqs hw q) \<noteq> []"
  shows "tx_inv (rwnx_txq_add_to_hw_list q hw)"
proof (cases "rwnx_txq_is_scheduled (txqs hw q)")
  case False
  let ?t = "(txqs hw q)\<lparr>status := status (txqs hw q) OR RWNX_TXQ_IN_HWQ_LIST\<rparr>"
  have new: "q \<notin> set (hlist (hwqs hw (hwq (txqs hw q))))"
    using inv False by (simp add: tx_inv_def sched_inv_listed)
  have "sched_inv (rwnx_txq_add_to_hw_list q hw)"
    by (rule sched_inv_update [of hw _ q ?t])
      (use assms new False tx_inv_ok [OF inv, of q] in
        \<open>auto simp: tx_inv_def rwnx_txq_add_to_hw_list_def tx_fields sched_inv_distinct owner_def fun_eq_iff
           txq_ok_def active_def retry_desc_def\<close>)
  then show ?thesis using inv by (auto simp: tx_inv_def ring_inv_def rwnx_txq_add_to_hw_list_def tx_fields)
qed (use inv in \<open>simp add: rwnx_txq_add_to_hw_list_def\<close>)

lemma del_fields:
  "txqs (rwnx_txq_del_from_hw_list q hw) = (txqs hw)(q := txqs (rwnx_txq_del_from_hw_list q hw) q)"
  "core (txqs (rwnx_txq_del_from_hw_list q hw) q) = core (txqs hw q)"
  "push_limit (txqs (rwnx_txq_del_from_hw_list q hw) q) = push_limit (txqs hw q)"
  "\<not> rwnx_txq_is_scheduled (txqs (rwnx_txq_del_from_hw_list q hw) q)"
  "owner (rwnx_txq_del_from_hw_list q hw) = owner hw" "tx_host_id (rwnx_txq_del_from_hw_list q hw) = tx_host_id hw"
  by (auto simp: rwnx_txq_del_from_hw_list_def tx_fields fun_eq_iff owner_def)

lemma tx_inv_del:
  assumes inv: "tx_inv hw"
  shows "tx_inv (rwnx_txq_del_from_hw_list q hw)"
proof (cases "rwnx_txq_is_scheduled (txqs hw q)")
  case True
  let ?t = "(txqs hw q)\<lparr>status := status (txqs hw q) AND NOT RWNX_TXQ_IN_HWQ_LIST\<rparr>"
  have "sched_inv (rwnx_txq_del_from_hw_list q hw)"
    by (rule sched_inv_update [of hw _ q ?t])
      (use True inv tx_inv_ok [OF inv, of q] sched_inv_distinct [of hw] in
        \<open>auto simp: tx_inv_def rwnx_txq_del_from_hw_list_def tx_fields set_remove1_eq owner_def fun_eq_iff
           txq_ok_def active_def retry_desc_def\<close>)
  then show ?thesis using inv by (auto simp: tx_inv_def ring_inv_def rwnx_txq_del_from_hw_list_def tx_fields)
qed (use inv in \<open>simp add: rwnx_txq_del_from_hw_list_def\<close>)

section \<open>Start and stop\<close>

lemma tx_inv_start:
  assumes "tx_inv hw" "reason AND RWNX_TXQ_IN_HWQ_LIST = 0"
  shows "tx_inv (rwnx_txq_start reason q hw)"
proof -
  have "tx_inv (upd_txq q (\<lambda>t. t\<lparr>status := status t AND NOT reason\<rparr>) hw)"
    by (rule tx_inv_status) (use assms in simp_all)
  then show ?thesis
    using assms by (auto simp: rwnx_txq_start_def Let_def tx_fields rwnx_txq_skb_ready_def active_def intro!: tx_inv_add)
qed

lemma tx_inv_stop:
  assumes "tx_inv hw" "reason AND RWNX_TXQ_IN_HWQ_LIST = 0"
  shows "tx_inv (rwnx_txq_stop reason q hw)"
  using assms by (auto simp: rwnx_txq_stop_def intro!: tx_inv_del tx_inv_status)

lemma tx_inv_start_all: "tx_inv hw \<Longrightarrow> reason AND RWNX_TXQ_IN_HWQ_LIST = 0 \<Longrightarrow> tx_inv (fold (rwnx_txq_start reason) qs hw)"
  by (induction qs arbitrary: hw) (simp_all add: tx_inv_start)

lemma tx_inv_stop_all: "tx_inv hw \<Longrightarrow> reason AND RWNX_TXQ_IN_HWQ_LIST = 0 \<Longrightarrow> tx_inv (fold (rwnx_txq_stop reason) qs hw)"
  by (induction qs arbitrary: hw) (simp_all add: tx_inv_stop)

lemma tx_inv_sta_start:
  "tx_inv hw \<Longrightarrow> reason AND RWNX_TXQ_IN_HWQ_LIST = 0 \<Longrightarrow> rwnx_txq_sta_start old reason i hw = Inr hw' \<Longrightarrow> tx_inv hw'"
  by (auto simp: rwnx_txq_sta_start_def intro: tx_inv_start_all split: option.splits)

lemma tx_inv_sta_stop:
  "tx_inv hw \<Longrightarrow> reason AND RWNX_TXQ_IN_HWQ_LIST = 0 \<Longrightarrow> rwnx_txq_sta_stop old reason i hw = Inr hw' \<Longrightarrow> tx_inv hw'"
  by (auto simp: rwnx_txq_sta_stop_def intro: tx_inv_stop_all split: option.splits)

lemma tx_inv_vif_for_each:
  assumes "tx_inv hw" "rwnx_txq_vif_for_each_sta vif f hw = Inr hw'"
    "\<And>i s s'. tx_inv s \<Longrightarrow> f i s = Inr s' \<Longrightarrow> tx_inv s'"
  shows "tx_inv hw'"
proof (cases "vif_iftype vif \<in> {IF_STATION, IF_P2P_CLIENT}")
  case True
  then obtain a where a: "(if vif_tdls_link vif then f (vif_tdls_sta vif) hw else Inr hw) = Inr a"
      and b: "(if vif_ap vif = None then Inr (a\<lparr>warns := warns a + 1\<rparr>) else f (vif_ap vif) a) = Inr hw'"
    using assms(2) unfolding rwnx_txq_vif_for_each_sta_def and_then_Inr if_P [OF True] by blast
  have "tx_inv a" using a assms(1,3) by (auto split: if_splits)
  then show ?thesis using b assms(3) [of a "vif_ap vif" hw'] by (auto split: if_splits)
next
  case False
  then have "for_each (\<lambda>i. f (Some i)) (vif_sta_list vif) hw = Inr hw'"
    using assms(2) unfolding rwnx_txq_vif_for_each_sta_def if_not_P [OF False] by (simp split: if_splits)
  then show ?thesis by (rule for_each_invariant [where P = tx_inv, OF assms(1)]) (use assms(3) in blast)
qed

lemma tx_inv_vif_start:
  assumes "tx_inv hw" "reason AND RWNX_TXQ_IN_HWQ_LIST = 0" "rwnx_txq_vif_start old reason vif hw = Inr hw'"
  shows "tx_inv hw'"
proof (cases "vif_iftype vif = IF_MONITOR")
  case False
  then obtain a b where a: "(case vif_tdls_sta vif of None \<Rightarrow> Inr hw
         | Some i \<Rightarrow> if vif_roc_tdls vif \<and> tdls_chsw_en (stas hw i)
                    then rwnx_txq_sta_start old reason (vif_tdls_sta vif) hw else Inr hw) = Inr a"
      "(if vif_roc_tdls vif then Inr a else rwnx_txq_vif_for_each_sta vif (rwnx_txq_sta_start old reason) a) = Inr b"
      "hw' = rwnx_txq_start reason (rwnx_txq_vif_get old vif NX_UNK_TXQ_TYPE)
               (rwnx_txq_start reason (rwnx_txq_vif_get old vif NX_BCMC_TXQ_TYPE) b)"
    using assms(3) by (auto simp: rwnx_txq_vif_start_def and_then_Inr)
  have "tx_inv a" using a(1) assms(1,2) by (auto split: option.splits if_splits intro: tx_inv_sta_start)
  then have "tx_inv b"
    using a(2) assms(2) tx_inv_vif_for_each [of a vif "rwnx_txq_sta_start old reason" b] tx_inv_sta_start
    by (auto split: if_splits)
  then show ?thesis using a(3) assms(2) by (simp only:) (intro tx_inv_start)
qed (use assms in \<open>simp add: rwnx_txq_vif_start_def\<close>)

lemma tx_inv_vif_stop:
  assumes "tx_inv hw" "reason AND RWNX_TXQ_IN_HWQ_LIST = 0" "rwnx_txq_vif_stop old reason vif hw = Inr hw'"
  shows "tx_inv hw'"
proof (cases "vif_iftype vif = IF_MONITOR")
  case False
  then obtain a where a: "rwnx_txq_vif_for_each_sta vif (rwnx_txq_sta_stop old reason) hw = Inr a"
      "hw' = rwnx_txq_stop reason (rwnx_txq_vif_get old vif NX_UNK_TXQ_TYPE)
               (rwnx_txq_stop reason (rwnx_txq_vif_get old vif NX_BCMC_TXQ_TYPE) a)"
    using assms(3) by (auto simp: rwnx_txq_vif_stop_def and_then_Inr)
  then have "tx_inv a" using assms tx_inv_vif_for_each [of hw vif "rwnx_txq_sta_stop old reason" a] tx_inv_sta_stop by blast
  then show ?thesis using a(2) assms(2) by (simp only:) (intro tx_inv_stop)
qed (use assms in \<open>simp add: rwnx_txq_vif_stop_def\<close>)

section \<open>Queueing\<close>

text \<open>A frame that is neither queued nor waiting for its confirmation.\<close>

definition unqueued :: "nat \<Rightarrow> tx_hw \<Rightarrow> bool" where
  "unqueued k hw \<longleftrightarrow> (\<forall>q. k \<notin> set (sk_list (txqs hw q))) \<and> k \<notin> ran (tx_host_id hw)"

lemma skb_append_nth:
  "distinct ks \<Longrightarrow> n < length ks \<Longrightarrow> skb_append (ks ! n) k ks = take (Suc n) ks @ k # drop (Suc n) ks"
proof (induction ks arbitrary: n)
  case (Cons x xs)
  then show ?case by (cases n) auto
qed simp

lemma queue_retry_list:
  assumes "retry_desc t (sk_list t)" "distinct (sk_list t)"
  shows "sk_list (queue_retry k t) = take (nat (nb_retry t)) (sk_list t) @ k # drop (nat (nb_retry t)) (sk_list t)"
proof (cases "nb_retry t = 0")
  case False
  let ?n = "nat (nb_retry t) - 1"
  have "Suc ?n = nat (nb_retry t)" "?n < length (sk_list t)" "last_retry_skb t = Some (sk_list t ! ?n)"
    using assms(1) False by (auto simp: retry_desc_def)
  then show ?thesis using skb_append_nth [OF assms(2), of ?n k] by (simp add: queue_retry_def)
qed (use assms in \<open>simp add: queue_retry_def retry_desc_def\<close>)

lemma queue_retry_desc:
  assumes "retry_desc t (sk_list t)" "distinct (sk_list t)"
  shows "retry_desc (queue_retry k t) (sk_list (queue_retry k t))"
  using assms(1) unfolding retry_desc_def queue_retry_list [OF assms]
  by (auto simp: queue_retry_def nth_append nat_add_distrib)

lemma queue_retry_ok:
  assumes ok: "txq_ok q t own" and "active t" "k \<notin> set (sk_list t)" "fst (own k) = q"
  shows "txq_ok q (queue_retry k t) own"
proof -
  have r: "retry_desc t (sk_list t)" "distinct (sk_list t)" using ok assms(2) by (auto simp: txq_ok_def)
  let ?n = "nat (nb_retry t)"
  have s: "set (sk_list (queue_retry k t)) = insert k (set (sk_list t))" "length (sk_list (queue_retry k t)) = Suc (length (sk_list t))"
    unfolding queue_retry_list [OF r] using set_append [of "take ?n (sk_list t)" "drop ?n (sk_list t)"] by auto
  have "distinct (sk_list (queue_retry k t))"
    unfolding queue_retry_list [OF r] using r(2) assms(3) distinct_append [of "take ?n (sk_list t)" "drop ?n (sk_list t)"]
    by (auto dest: in_set_takeD in_set_dropD)
  moreover have "sk_list (queue_retry k t) \<noteq> []" using s by auto
  moreover have "idx (queue_retry k t) = idx t" "credits (queue_retry k t) = credits t"
    "push_limit (queue_retry k t) = push_limit t" "status (queue_retry k t) = status t" by (simp_all add: queue_retry_def)
  ultimately show ?thesis
    using ok assms(2,4) queue_retry_desc [OF r, of k] s by (auto simp: txq_ok_def active_def rwnx_txq_is_scheduled_def)
qed

lemma queue_new_ok:
  assumes ok: "txq_ok q t own" and "active t" "k \<notin> set (sk_list t)" "fst (own k) = q"
  shows "txq_ok q (t\<lparr>sk_list := sk_list t @ [k]\<rparr>) own"
proof -
  have "retry_desc (t\<lparr>sk_list := sk_list t @ [k]\<rparr>) (sk_list t @ [k])"
    using ok assms(2) by (auto simp: txq_ok_def retry_desc_def nth_append)
  then show ?thesis using ok assms(2-) by (auto simp: txq_ok_def active_def rwnx_txq_is_scheduled_def)
qed

lemma tx_inv_flow_stop:
  assumes "tx_inv hw"
  shows "tx_inv (flow_ctrl_stop q hw)"
    "active (txqs (flow_ctrl_stop q hw) q) = active (txqs hw q)" "sk_list (txqs (flow_ctrl_stop q hw) q) = sk_list (txqs hw q)"
  using assms tx_inv_status [OF assms, of "\<lambda>s. s OR RWNX_TXQ_NDEV_FLOW_CTRL" q]
  by (simp_all add: flow_ctrl_stop_def Let_def tx_fields active_def)

lemma tx_inv_queue:
  assumes inv: "tx_inv hw" and act: "active (txqs hw q)" and new: "unqueued k hw" and own: "h_txq (hdrs hw k) = q"
  shows "tx_inv (snd (rwnx_txq_queue_skb k q retry hw))"
proof -
  let ?f = "if retry then queue_retry k else (\<lambda>t. t\<lparr>sk_list := sk_list t @ [k]\<rparr>)"
  let ?s = "upd_txq q ?f (ps_count q hw)"
  have k: "k \<notin> set (sk_list (txqs hw q))" "k \<notin> ran (tx_host_id hw)" and o: "fst (owner hw k) = q"
    using new own by (auto simp: unqueued_def owner_def)
  note ok = tx_inv_ok [OF inv, of q]
  have r: "retry_desc (txqs hw q) (sk_list (txqs hw q))" "distinct (sk_list (txqs hw q))"
    using ok act by (auto simp: txq_ok_def)
  have set: "set (sk_list (?f (txqs hw q))) \<subseteq> insert k (set (sk_list (txqs hw q)))"
    by (auto simp: queue_retry_list [OF r] dest: in_set_takeD in_set_dropD)
  have "tx_inv ?s"
  proof (rule tx_inv_txq)
    show "txq_ok q (?f (txqs (ps_count q hw) q)) (owner (ps_count q hw))"
      using queue_retry_ok [OF ok act k(1) o] queue_new_ok [OF ok act k(1) o] by simp
    show "ran (tx_host_id (ps_count q hw)) \<inter> set (sk_list (?f (txqs (ps_count q hw) q))) = {}"
      using set k tx_inv_ring [OF inv, of q] by auto
  qed (use inv in \<open>simp_all add: queue_retry_def rwnx_txq_is_scheduled_def\<close>)
  moreover have "active (txqs ?s q)" "sk_list (txqs ?s q) \<noteq> []"
    using act queue_retry_list [OF r] by (simp_all add: tx_fields active_def) (simp add: queue_retry_def)
  ultimately show ?thesis
    by (auto simp: rwnx_txq_queue_skb_def Let_def tx_inv_flow_stop intro!: tx_inv_add)
qed

section \<open>Confirmations\<close>

lemma start_fields [simp]:
  "hdrs (rwnx_txq_start r q hw) = hdrs hw" "tx_host_id (rwnx_txq_start r q hw) = tx_host_id hw"
  "core (txqs (rwnx_txq_start r q hw) p) = core (txqs hw p)"
  by (auto simp: rwnx_txq_start_def rwnx_txq_add_to_hw_list_def Let_def tx_fields)

lemma core_active: "core t = core t' \<Longrightarrow> active t = active t'" and core_list: "core t = core t' \<Longrightarrow> sk_list t = sk_list t'"
  by (simp_all add: core_def active_def)

lemma sint_inc: "0 \<le> sint c \<Longrightarrow> sint c < 127 \<Longrightarrow> sint (c + 1) = sint c + 1" for c :: u8
  by (simp add: sint_word_ariths signed_take_bit_int_eq_self)

lemma tx_inv_hdr_flags: "tx_inv hw \<Longrightarrow> tx_inv (upd_hdr k (\<lambda>h. h\<lparr>h_flags := f h\<rparr>) hw)"
  by (subst tx_inv_cong) (simp_all add: tx_fields owner_def fun_eq_iff)

lemma tx_inv_retry:
  assumes inv: "tx_inv hw" and q: "q = h_txq (hdrs hw k)" and act: "active (txqs hw q)" and new: "unqueued k hw"
    and cr: "sint (credits (txqs hw q)) < 127"
  shows "tx_inv (rwnx_tx_retry k sw hw)"
proof -
  define s2 where "s2 = upd_hdr k (\<lambda>h. h\<lparr>h_flags := h_flags h AND NOT TXU_CNTRL_MORE_DATA\<rparr>)
    (if sw then hw else upd_hdr k (\<lambda>h. h\<lparr>h_flags := h_flags h OR TXU_CNTRL_RETRY\<rparr>) hw)"
  define s3 where "s3 = upd_txq q (\<lambda>t. t\<lparr>credits := credits t + 1\<rparr>) s2"
  define s4 where "s4 = (if sint (credits (txqs s3 q)) > 0 then rwnx_txq_start RWNX_TXQ_STOP_FULL q s3 else s3)"
  have s2: "tx_inv s2" "txqs s2 = txqs hw" "h_txq (hdrs s2 k) = q" "tx_host_id s2 = tx_host_id hw"
    using inv q by (auto simp: s2_def tx_fields tx_inv_hdr_flags)
  have "tx_inv s3"
    unfolding s3_def
    by (rule tx_inv_txq) (use s2 act cr tx_inv_ok [OF s2(1), of q] tx_inv_ring [OF s2(1), of q] in
        \<open>auto simp: txq_ok_def active_def retry_desc_def rwnx_txq_is_scheduled_def sint_inc\<close>)
  then have inv4: "tx_inv s4" by (simp add: s4_def tx_inv_start)
  have c3: "core (txqs s4 p) = core (txqs s3 p)" for p by (simp add: s4_def)
  have l3: "sk_list (txqs s3 p) = sk_list (txqs hw p)" "active (txqs s3 p) = active (txqs hw p)" for p
    using s2(2) by (simp_all add: s3_def tx_fields active_def)
  have "unqueued k s4"
    using new core_list [OF c3] l3 s2(4) by (simp add: unqueued_def s4_def s3_def tx_fields)
  moreover have "active (txqs s4 q)" using core_active [OF c3] l3 act by simp
  moreover have "h_txq (hdrs s4 k) = q" using s2(3) by (simp add: s4_def s3_def tx_fields)
  ultimately have "tx_inv (snd (rwnx_txq_queue_skb k q True s4))" using inv4 by (blast intro: tx_inv_queue)
  then show ?thesis unfolding rwnx_tx_retry_def Let_def s4_def s3_def s2_def q .
qed

lemma tx_inv_confirm: "tx_inv hw \<Longrightarrow> tx_inv (rwnx_txq_confirm_any q h hw)"
  unfolding rwnx_txq_confirm_any_def Let_def tx_inv_logs tx_inv_need
  by (rule tx_inv_txq) (use tx_inv_ok [of hw q] tx_inv_ring [of hw q] in
      \<open>auto simp: txq_ok_def active_def retry_desc_def rwnx_txq_is_scheduled_def\<close>)

lemma confirm_fields [simp]:
  "core (txqs (rwnx_txq_confirm_any q h hw) p) = core (txqs hw p)" "hdrs (rwnx_txq_confirm_any q h hw) = hdrs hw"
  "tx_host_id (rwnx_txq_confirm_any q h hw) = tx_host_id hw"
  by (auto simp: rwnx_txq_confirm_any_def Let_def tx_fields core_def)

lemma tx_inv_cfm:
  assumes inv: "tx_inv hw" and new: "unqueued k hw" and cr: "sint (credits (txqs hw (h_txq (hdrs hw k)))) < 127"
  shows "tx_inv (rwnx_txdatacfm down st k hw)"
proof -
  let ?q = "h_txq (hdrs hw k)" let ?s = "rwnx_txq_confirm_any ?q (hw_queue (hdrs hw k)) hw"
  note c = confirm_fields(1) [of ?q "hw_queue (hdrs hw k)" hw]
  have inv1: "tx_inv ?s" by (rule tx_inv_confirm [OF inv])
  have "unqueued k ?s" using new core_list [OF c] by (simp add: unqueued_def)
  moreover have "sint (credits (txqs ?s ?q)) < 127" using c [of ?q] cr by (simp add: core_def)
  ultimately have re: "active (txqs ?s ?q) \<Longrightarrow> tx_inv (rwnx_tx_retry k sw ?s)" for sw
    using tx_inv_retry [OF inv1] by simp
  have "tx_inv (rwnx_txq_add_to_hw_list ?q ?s)" if "active (txqs ?s ?q)" "push_limit (txqs ?s ?q) \<noteq> 0"
  proof (rule tx_inv_add [OF inv1 that(1)])
    have "unat (push_limit (txqs ?s ?q)) \<le> length (sk_list (txqs ?s ?q))"
      using tx_inv_ok [OF inv1, of ?q] that(1) by (simp add: txq_ok_def)
    then show "sk_list (txqs ?s ?q) \<noteq> []" using that(2) by (auto simp: unat_eq_0)
  qed
  moreover have "tx_inv (rwnx_txq_add_to_hw_list ?q (?s\<lparr>mgmt_log := m\<rparr>))"
    if "tx_inv (rwnx_txq_add_to_hw_list ?q ?s)" for m
  proof -
    have "rwnx_txq_add_to_hw_list ?q (?s\<lparr>mgmt_log := m\<rparr>) = (rwnx_txq_add_to_hw_list ?q ?s)\<lparr>mgmt_log := m\<rparr>"
      by (simp add: rwnx_txq_add_to_hw_list_def upd_hwq_def upd_txq_def)
    then show ?thesis using that by simp
  qed
  ultimately show ?thesis
    using inv inv1 re by (auto simp: rwnx_txdatacfm_def Let_def active_def)
qed

lemma tx_inv_cfm_handler:
  assumes inv: "tx_inv hw" and cr: "\<And>q. sint (credits (txqs hw q)) < 127"
    and run: "aicwf_sdio_host_tx_cfm_handler down st used hw = Inr hw'"
  shows "tx_inv hw'"
proof -
  let ?a = "unat used mod SDIO_TXDESC_CNT" let ?s = "hw\<lparr>tx_host_id := (tx_host_id hw)(?a := None)\<rparr>"
  obtain k where k: "tx_host_id hw ?a = Some k" "hw' = rwnx_txdatacfm down st k ?s"
    using run by (auto simp: aicwf_sdio_host_tx_cfm_handler_def Let_def split: option.splits)
  have ring: "ring_once (tx_host_id hw)" "\<And>q. ran (tx_host_id hw) \<inter> set (sk_list (txqs hw q)) = {}"
    using inv by (auto simp: tx_inv_def ring_inv_def)
  have sub: "ran ((tx_host_id hw)(?a := None)) \<subseteq> ran (tx_host_id hw)" by (auto simp: ran_def split: if_splits)
  have "ran ((tx_host_id hw)(?a := None)) \<inter> set (sk_list (txqs hw q)) = {}" for q using ring(2) [of q] sub by blast
  then have "ring_inv ?s" using ring(1) by (auto simp: ring_inv_def ring_once_def)
  moreover have "owner ?s = owner hw" by (simp add: owner_def fun_eq_iff)
  ultimately have inv1: "tx_inv ?s" using inv by (simp add: tx_inv_def sched_inv_def)
  have "k \<notin> ran ((tx_host_id hw)(?a := None))" using ring(1) k(1) by (auto simp: ran_def ring_once_def split: if_splits)
  moreover have "k \<notin> set (sk_list (txqs hw q))" for q using ring(2) [of q] k(1) by (auto simp: ran_def)
  ultimately have "unqueued k ?s" by (simp add: unqueued_def)
  then show ?thesis using tx_inv_cfm [OF inv1] cr k(2) by simp
qed

lemma tx_inv_credit_update: "tx_inv hw \<Longrightarrow> tx_inv (rwnx_txq_credit_update old i tid hw)"
  by (simp add: rwnx_txq_credit_update_def Let_def tx_inv_start tx_inv_stop)

section \<open>Tearing down and setting up\<close>

lemma tx_inv_deinit:
  assumes inv: "tx_inv hw"
  shows "tx_inv (rwnx_txq_deinit q hw)"
proof (cases "idx (txqs hw q) = TXQ_INACTIVE")
  case False
  let ?s = "rwnx_txq_del_from_hw_list q hw"
  have inv1: "tx_inv ?s" by (rule tx_inv_del [OF inv])
  have "tx_inv (upd_txq q (\<lambda>t. t\<lparr>idx := TXQ_INACTIVE, sk_list := []\<rparr>) ?s)"
    by (rule tx_inv_txq [OF inv1])
      (use tx_inv_ok [OF inv1, of q] del_fields(4) [of q hw] in \<open>auto simp: txq_ok_def active_def rwnx_txq_is_scheduled_def\<close>)
  moreover have "rwnx_txq_deinit q hw =
      (upd_txq q (\<lambda>t. t\<lparr>idx := TXQ_INACTIVE, sk_list := []\<rparr>) ?s)\<lparr>free_log := free_log ?s @ sk_list (txqs ?s q)\<rparr>"
    using False by (simp add: rwnx_txq_deinit_def rwnx_txq_flush_def upd_txq_def)
  ultimately show ?thesis by simp
qed (use inv in \<open>simp add: rwnx_txq_deinit_def\<close>)

lemma tx_inv_deinit_all: "tx_inv hw \<Longrightarrow> tx_inv (fold rwnx_txq_deinit qs hw)"
  by (induction qs arbitrary: hw) (simp_all add: tx_inv_deinit)

lemma tx_inv_replace:
  assumes "tx_inv hw" "\<not> rwnx_txq_is_scheduled (txqs hw q)" "\<not> rwnx_txq_is_scheduled (f (txqs hw q))"
    "txq_ok q (f (txqs hw q)) (owner hw)" "sk_list (f (txqs hw q)) = []"
  shows "tx_inv (upd_txq q f hw)"
proof -
  have "owner (upd_txq q f hw) = owner hw" by (simp add: owner_def tx_fields fun_eq_iff)
  then show ?thesis using assms by (auto simp: tx_inv_def sched_inv_def ring_inv_def tx_fields)
qed

lemma tx_inv_init:
  assumes inv: "tx_inv hw" and "\<not> active (txqs hw q)" "st AND RWNX_TXQ_IN_HWQ_LIST = 0"
    and run: "rwnx_txq_init old q ix st h td sta nd hw = Inr hw'"
  shows "tx_inv hw'" "\<And>p. p \<noteq> q \<Longrightarrow> txqs hw' p = txqs hw p" "stas hw' = stas hw"
proof -
  obtain t where t: "hw' = upd_txq q (\<lambda>_. t) hw" "status t = st" "credits t = 64" "sk_list t = []" "push_limit t = 0" "nb_retry t = 0"
      "last_retry_skb t = None"
    using run by (auto simp: rwnx_txq_init_def split: sum.splits)
  have ns: "\<not> rwnx_txq_is_scheduled t" using t assms(3) by (simp add: rwnx_txq_is_scheduled_def has_def)
  have "\<not> rwnx_txq_is_scheduled (txqs hw q)" using tx_inv_ok [OF inv, of q] assms(2) by (simp add: txq_ok_def)
  moreover have "txq_ok q t (owner hw)" using t ns by (simp add: txq_ok_def retry_desc_def)
  ultimately show "tx_inv hw'" unfolding t(1) using inv ns t(4) by (intro tx_inv_replace) auto
  show "txqs hw' p = txqs hw p" if "p \<noteq> q" for p using t(1) that by (simp add: tx_fields)
  show "stas hw' = stas hw" using t(1) by (simp add: tx_fields)
qed

lemma tx_inv_vif_init:
  assumes inv: "tx_inv hw" and free: "\<not> active (txqs hw (rwnx_txq_vif_get old vif NX_BCMC_TXQ_TYPE))"
      "\<not> active (txqs hw (rwnx_txq_vif_get old vif NX_UNK_TXQ_TYPE))" "st AND RWNX_TXQ_IN_HWQ_LIST = 0"
    and run: "rwnx_txq_vif_init old vif st hw = Inr hw'"
  shows "tx_inv hw'"
proof -
  have ne: "rwnx_txq_vif_get old vif NX_UNK_TXQ_TYPE \<noteq> rwnx_txq_vif_get old vif NX_BCMC_TXQ_TYPE"
    by (simp add: rwnx_txq_vif_get_def rwnx_txq_vif_idx_def)
  obtain a where a: "rwnx_txq_init old (rwnx_txq_vif_get old vif NX_BCMC_TXQ_TYPE) (rwnx_txq_vif_idx old vif NX_BCMC_TXQ_TYPE)
        st RWNX_HWQ_BE 0 (Some (vif_bcmc_index vif)) (vif_ndev vif) hw = Inr a"
      "rwnx_txq_init old (rwnx_txq_vif_get old vif NX_UNK_TXQ_TYPE) (rwnx_txq_vif_idx old vif NX_UNK_TXQ_TYPE) st
        RWNX_HWQ_VO TID_MGT None (vif_ndev vif) a = Inr hw'"
    using run unfolding rwnx_txq_vif_init_def and_then_Inr by blast
  note i = tx_inv_init [OF inv free(1,3) a(1)]
  show ?thesis by (rule tx_inv_init(1) [OF i(1) _ free(3) a(2)]) (use i(2) [OF ne] free(2) in simp)
qed

lemma tx_inv_ps_id: "tx_inv hw \<Longrightarrow> tx_inv (upd_txq q (\<lambda>t. t\<lparr>ps_id := f t\<rparr>) hw)"
  by (rule tx_inv_txq) (use tx_inv_ok [of hw q] tx_inv_ring [of hw q] in
      \<open>auto simp: txq_ok_def active_def retry_desc_def rwnx_txq_is_scheduled_def\<close>)

lemma tx_inv_init_loop:
  assumes "tx_inv hw" "st AND RWNX_TXQ_IN_HWQ_LIST = 0" "distinct (map snd xs)" "\<forall>q\<in>snd ` set xs. \<not> active (txqs hw q)"
    "for_each (\<lambda>(td, q) s. and_then
        (rwnx_txq_init old q (rwnx_txq_sta_idx old (stas s i) 0 + td) st (rwnx_tid2hwq ! td) td (Some i) nd s)
        (\<lambda>s'. Inr (upd_txq q (\<lambda>t. t\<lparr>ps_id := (if bit (uapsd_tids (stas s' i)) td then UAPSD_ID else LEGACY_PS_ID)\<rparr>) s')))
      xs hw = Inr hw'"
  shows "tx_inv hw'"
  using assms
proof (induction xs arbitrary: hw)
  case (Cons x xs)
  obtain td q where x: "x = (td, q)" by (cases x)
  obtain a where a: "rwnx_txq_init old q (rwnx_txq_sta_idx old (stas hw i) 0 + td) st (rwnx_tid2hwq ! td) td (Some i) nd hw = Inr a"
    using Cons.prems(5) x by (auto simp: and_then_Inr)
  note i = tx_inv_init [OF Cons.prems(1) _ Cons.prems(2) a]
  have q: "\<not> active (txqs hw q)" "q \<notin> snd ` set xs" using Cons.prems x by auto
  define b where "b = upd_txq q (\<lambda>t. t\<lparr>ps_id := (if bit (uapsd_tids (stas a i)) td then UAPSD_ID else LEGACY_PS_ID)\<rparr>) a"
  have "tx_inv b" unfolding b_def by (rule tx_inv_ps_id) (rule i(1) [OF q(1)])
  moreover have "\<forall>p\<in>snd ` set xs. \<not> active (txqs b p)"
  proof
    fix p assume p: "p \<in> snd ` set xs"
    then have "p \<noteq> q" using q by auto
    then have "txqs b p = txqs hw p" using i(2) [OF q(1)] by (simp add: b_def tx_fields)
    then show "\<not> active (txqs b p)" using Cons.prems(4) p by auto
  qed
  moreover have "for_each (\<lambda>(td, q) s. and_then
        (rwnx_txq_init old q (rwnx_txq_sta_idx old (stas s i) 0 + td) st (rwnx_tid2hwq ! td) td (Some i) nd s)
        (\<lambda>s'. Inr (upd_txq q (\<lambda>t. t\<lparr>ps_id := (if bit (uapsd_tids (stas s' i)) td then UAPSD_ID else LEGACY_PS_ID)\<rparr>) s')))
      xs b = Inr hw'"
    using Cons.prems(5) a by (simp add: x b_def)
  ultimately show ?case using Cons.IH Cons.prems(2,3) by auto
qed simp

lemma tx_inv_sta_init:
  assumes "tx_inv hw" "st AND RWNX_TXQ_IN_HWQ_LIST = 0" "\<forall>q\<in>set (sta_txqs old (stas hw i)). \<not> active (txqs hw q)"
    "rwnx_txq_sta_init old i nd st hw = Inr hw'"
  shows "tx_inv hw'"
  by (rule tx_inv_init_loop [OF assms(1,2) _ _ assms(4) [unfolded rwnx_txq_sta_init_def]])
    (use assms(3) in \<open>auto simp: sta_txqs_def distinct_map inj_on_def set_map [symmetric] simp del: set_map\<close>)

section \<open>Power save\<close>

lemma tx_inv_no_limit: "tx_inv hw \<Longrightarrow> tx_inv (upd_txq q (\<lambda>t. t\<lparr>push_limit := 0\<rparr>) hw)"
  by (rule tx_inv_txq) (use tx_inv_ok [of hw q] tx_inv_ring [of hw q] in
      \<open>auto simp: txq_ok_def active_def retry_desc_def rwnx_txq_is_scheduled_def\<close>)

lemma tx_inv_no_limit_all: "tx_inv hw \<Longrightarrow> tx_inv (fold (\<lambda>q. upd_txq q (\<lambda>t. t\<lparr>push_limit := 0\<rparr>)) qs hw)"
  by (induction qs arbitrary: hw) (simp_all add: tx_inv_no_limit)

lemma tx_inv_count_all: "tx_inv (fold (\<lambda>q s. upd_sta i (f q s) s) qs hw) = tx_inv hw"
  by (induction qs arbitrary: hw) simp_all

lemma tx_inv_ps_enable:
  assumes inv: "tx_inv hw"
    and be: "is_multicast_sta old (sta_idx (stas hw i)) \<Longrightarrow> hwq (txqs hw (rwnx_txq_sta_get old (stas hw i) 0)) = RWNX_HWQ_BE"
  shows "tx_inv (rwnx_ps_bh_enable old i enable hw)"
proof (cases enable)
  case True
  have "tx_inv (fold (rwnx_txq_stop RWNX_TXQ_STOP_STA_PS) qs (upd_sta i f hw))" for qs f
    by (rule tx_inv_stop_all) (simp_all add: inv)
  then show ?thesis using True by (simp add: rwnx_ps_bh_enable_def Let_def tx_inv_count_all del: One_nat_def UAPSD_ID_def)
next
  case False
  let ?q0 = "rwnx_txq_sta_get old (stas hw i) 0" let ?m = "is_multicast_sta old (sta_idx (stas hw i))"
  let ?s1 = "upd_sta i (\<lambda>s. s\<lparr>ps_active := False\<rparr>) hw"
  define s2 where "s2 = (if ?m then upd_txq ?q0 (\<lambda>t. t\<lparr>hwq := RWNX_HWQ_BE, push_limit := 0\<rparr>) ?s1
    else fold (\<lambda>q. upd_txq q (\<lambda>t. t\<lparr>push_limit := 0\<rparr>)) (sta_txqs old (stas hw i)) ?s1)"
  have eq: "upd_txq ?q0 (\<lambda>t. t\<lparr>hwq := RWNX_HWQ_BE, push_limit := 0\<rparr>) ?s1 = upd_txq ?q0 (\<lambda>t. t\<lparr>push_limit := 0\<rparr>) ?s1" if ?m
  proof -
    have "(txqs ?s1 ?q0)\<lparr>hwq := RWNX_HWQ_BE, push_limit := 0\<rparr> = (txqs ?s1 ?q0)\<lparr>push_limit := 0\<rparr>"
      using be [OF that] by (cases "txqs hw ?q0") (simp add: tx_fields)
    then show ?thesis by (simp add: upd_txq_def)
  qed
  have "tx_inv ?s1" using inv by simp
  then have "tx_inv s2"
    using eq tx_inv_no_limit [of ?s1 ?q0] tx_inv_no_limit_all [of ?s1 "sta_txqs old (stas hw i)"]
    unfolding s2_def by (cases ?m) (simp_all only: if_True if_False)
  then have "tx_inv (fold (rwnx_txq_start RWNX_TXQ_STOP_STA_PS) qs s2)" for qs by (rule tx_inv_start_all) simp
  then show ?thesis using False unfolding s2_def by (simp add: rwnx_ps_bh_enable_def Let_def)
qed

lemma tx_inv_grant:
  fixes n :: u16
  assumes inv: "tx_inv hw" and n: "unat n \<le> length (sk_list (txqs hw q))" "unat n < 128" and ne: "sk_list (txqs hw q) \<noteq> []"
  shows "tx_inv (rwnx_txq_add_to_hw_list q (upd_sta i f (upd_txq q (\<lambda>t. t\<lparr>push_limit := ucast n\<rparr>) hw)))"
proof -
  have act: "active (txqs hw q)" using tx_inv_ok [OF inv, of q] ne by (auto simp: txq_ok_def)
  have u: "unat (ucast n :: u8) = unat n" using n(2) by (simp add: unsigned_ucast_eq take_bit_nat_eq_self)
  have "tx_inv (upd_txq q (\<lambda>t. t\<lparr>push_limit := ucast n\<rparr>) hw)"
    by (rule tx_inv_txq [OF inv])
      (use tx_inv_ok [OF inv, of q] tx_inv_ring [OF inv, of q] n(1) u in
        \<open>auto simp: txq_ok_def active_def retry_desc_def rwnx_txq_is_scheduled_def\<close>)
  then show ?thesis using act ne by (intro tx_inv_add) (simp_all add: tx_fields active_def)
qed

lemma cap_credits:
  assumes "0 \<le> sint c"
  shows "unat (cap_credits w c) \<le> unat w" "unat (cap_credits w c) < 128"
proof -
  have c: "sint c < 128" using sint_lt [of c] by simp
  have "uint (word_of_int k :: u16) = k" if "0 \<le> k" "k < 128" for k
    using that by (simp add: uint_word_of_int)
  then have sc: "uint (scast c :: u16) = sint c" using assms(1) c unfolding scast_eq by blast
  have le: "uint (cap_credits w c) \<le> uint w \<and> uint (cap_credits w c) < 128"
  proof (cases "uint w > sint c")
    case True
    then have "cap_credits w c = scast c" by (simp add: cap_credits_def)
    then show ?thesis using True sc c by simp
  next
    case False
    then have "cap_credits w c = w" by (simp add: cap_credits_def)
    then show ?thesis using False c by simp
  qed
  show "unat (cap_credits w c) \<le> unat w" using le by (metis nat_mono nat_uint_eq)
  show "unat (cap_credits w c) < 128" using le nat_less_iff [of "uint (cap_credits w c)" 128] by simp
qed

lemma adapt_req_le: "unat (adapt_req req (uint r)) \<le> unat r" for r :: u16
proof -
  have "uint (adapt_req req (uint r)) \<le> uint r" by (auto simp: adapt_req_def)
  then show ?thesis by (metis nat_mono nat_uint_eq)
qed

lemma tx_inv_dispatch: "tx_inv hw \<Longrightarrow> tx_inv (sp_dispatch i p qs req hw)"
proof (induction qs arbitrary: req hw)
  case (Cons q qs)
  let ?t = "txqs hw q"
  let ?m = "cap_credits (word_of_nat (length (sk_list ?t))) (credits ?t)"
  have "0 \<le> sint (credits ?t)" using tx_inv_ok [OF Cons.prems, of q] by (simp add: txq_ok_def)
  note m = cap_credits [OF this, of "word_of_nat (length (sk_list ?t))"]
  have "unat (word_of_nat (length (sk_list ?t)) :: u16) \<le> length (sk_list ?t)" by (simp add: unat_of_nat)
  then have len: "unat ?m \<le> length (sk_list ?t)" using m(1) by linarith
  have g: "tx_inv (sp_grant i p q n hw)" if "unat n \<le> unat ?m" "?m \<noteq> 0" for n
  proof -
    have "sk_list ?t \<noteq> []" using that(2) len by (metis le_zero_eq list.size(3) unat_eq_zero)
    then show ?thesis unfolding sp_grant_def using that(1) len m(2) by (intro tx_inv_grant [OF Cons.prems]) linarith+
  qed
  consider "ps_id ?t \<noteq> p \<or> ?m = 0" | "ps_id ?t = p" "?m \<noteq> 0" "?m < req" | "ps_id ?t = p" "?m \<noteq> 0" "req \<le> ?m"
    by (meson not_less)
  then show ?case
  proof cases
    case 1
    then show ?thesis using Cons by (auto simp: Let_def)
  next
    case 2
    then show ?thesis using Cons.IH g [of ?m] by (simp add: Let_def)
  next
    case 3
    then have "unat req \<le> unat ?m" by (simp add: word_le_nat_alt)
    then show ?thesis using 3 g [of req] by (auto simp: Let_def)
  qed
qed simp

lemma tx_inv_if: "(b \<Longrightarrow> tx_inv x) \<Longrightarrow> (\<not> b \<Longrightarrow> tx_inv y) \<Longrightarrow> tx_inv (if b then x else y)"
  by simp

lemma tx_inv_traffic_req:
  assumes inv: "tx_inv hw" and ready: "is_multicast_sta old (sta_idx (stas hw i)) \<Longrightarrow>
      unat (pkt_ready (stas hw i) p) \<le> length (sk_list (txqs hw (rwnx_txq_sta_get old (stas hw i) 0)))"
  shows "tx_inv (rwnx_ps_bh_traffic_req old i req p hw)"
proof -
  let ?sta = "stas hw i" let ?q = "rwnx_txq_sta_get old ?sta 0"
  let ?r = "uint (pkt_ready ?sta p) - uint (sp_cnt ?sta p)"
  let ?s = "upd_sta i (\<lambda>s. s\<lparr>sp_cnt := (sp_cnt s)(p := 0)\<rparr>) hw"
  let ?n = "cap_credits (adapt_req req ?r) (credits (txqs ?s ?q))"
  have s: "tx_inv ?s" "txqs ?s = txqs hw" using inv by (simp_all add: tx_fields)
  have mc: "tx_inv (rwnx_txq_add_to_hw_list ?q (upd_sta i (\<lambda>s. s\<lparr>sp_cnt := (sp_cnt s)(p := ?n)\<rparr>)
      (upd_txq ?q (\<lambda>t. t\<lparr>push_limit := ucast ?n\<rparr>) ?s)))"
    if "sp_cnt ?sta p = 0" "\<not> ?r \<le> 0" "is_multicast_sta old (sta_idx ?sta)"
  proof -
    have r: "?r = uint (pkt_ready ?sta p)" using that(1) by simp
    have "0 \<le> sint (credits (txqs hw ?q))" using tx_inv_ok [OF inv, of ?q] by (simp add: txq_ok_def)
    note m = cap_credits [OF this, of "adapt_req req ?r"]
    have len: "unat ?n \<le> length (sk_list (txqs ?s ?q))" "unat ?n < 128"
      using m adapt_req_le [of req "pkt_ready ?sta p"] ready [OF that(3)] unfolding r s(2) by linarith+
    have "unat (pkt_ready ?sta p) \<noteq> 0" using that(2) r by (auto simp: unat_eq_zero)
    then have "sk_list (txqs ?s ?q) \<noteq> []" using ready [OF that(3)] s(2) by auto
    then show ?thesis by (intro tx_inv_grant [OF s(1) len])
  qed
  show ?thesis
    unfolding rwnx_ps_bh_traffic_req_def Let_def
    by (intro tx_inv_if tx_inv_logs(3) [THEN iffD2])
      (use mc inv tx_inv_dispatch [OF s(1)] tx_inv_no_limit_all [OF s(1)] in blast)+
qed

section \<open>Reachable states\<close>

lemma tx_inv_process:
  assumes "tx_inv hw"
  obtains hw' where "rwnx_hwq_process h hw = Some (Inr hw')" "tx_inv hw'"
    "processed h (hlist (hwqs hw h)) (upd_hwq h (need_processing_update (\<lambda>_. False)) hw) hw'"
proof -
  obtain hw' where hw': "rwnx_hwq_process h hw = Some (Inr hw')"
      "processed h (hlist (hwqs hw h)) (upd_hwq h (need_processing_update (\<lambda>_. False)) hw) hw'"
    using hwq_process_ok [of hw h] assms by (auto simp: tx_inv_def)
  moreover have "tx_inv (upd_hwq h (need_processing_update (\<lambda>_. False)) hw)" using assms by simp
  ultimately have "tx_inv hw'" unfolding processed_def tx_inv_def by blast
  with hw' that show ?thesis by blast
qed

lemma tx_inv_process_ids: "tx_inv hw \<Longrightarrow> \<exists>hw'. process_ids hs hw = Some (Inr hw') \<and> tx_inv hw'"
proof (induction hs arbitrary: hw)
  case (Cons h hs)
  obtain a where "rwnx_hwq_process h hw = Some (Inr a)" "tx_inv a" using tx_inv_process [OF Cons.prems] by blast
  then show ?case using Cons by auto
qed simp

lemma tx_inv_task: "tx_inv hw \<Longrightarrow> \<exists>hw'. rwnx_task hw = Some (Inr hw') \<and> tx_inv hw'"
  by (simp add: rwnx_task_def rwnx_hwq_process_all_def tx_inv_process_ids)

lemma tx_inv_new_hdr: "tx_inv hw \<Longrightarrow> unqueued k hw \<Longrightarrow> tx_inv (upd_hdr k f hw)"
proof -
  assume inv: "tx_inv hw" and k: "unqueued k hw"
  have "owner (upd_hdr k f hw) j = owner hw j" if "j \<in> set (sk_list (txqs hw q))" for j q
    using k that by (auto simp: unqueued_def owner_def tx_fields)
  then have "txq_ok q (txqs hw q) (owner (upd_hdr k f hw)) = txq_ok q (txqs hw q) (owner hw)" for q
    by (auto simp: txq_ok_def)
  then show ?thesis using inv by (simp add: tx_inv_def sched_inv_def ring_inv_def tx_fields)
qed

text \<open>Queueing a new frame and processing the hardware queue of its queue, as both transmit functions do.\<close>

lemma tx_inv_send:
  assumes inv: "tx_inv hw" and new: "unqueued k hw" and act: "active (txqs hw q)" and q: "h_txq h = q"
  shows "\<exists>hw'. (case rwnx_txq_queue_skb k q False (upd_hdr k (\<lambda>_. h) hw) of
       (True, a) \<Rightarrow> rwnx_hwq_process (hwq (txqs a q)) a | (False, a) \<Rightarrow> Some (Inr a)) = Some (Inr hw') \<and> tx_inv hw'"
proof -
  let ?s = "upd_hdr k (\<lambda>_. h) hw"
  have "tx_inv (snd (rwnx_txq_queue_skb k q False ?s))"
    by (rule tx_inv_queue) (use tx_inv_new_hdr [OF inv new] new act q in \<open>simp_all add: tx_fields unqueued_def\<close>)
  then show ?thesis by (auto split: prod.split bool.split) (metis tx_inv_process)
qed

lemma tx_inv_xmit:
  assumes "tx_inv hw" "unqueued k hw"
  shows "\<exists>hw'. xmit_frame old vif mem opts prio qm byte etype k hw = Some (Inr hw') \<and> tx_inv hw'"
proof -
  obtain i tid where p: "rwnx_get_tx_priv old vif (xmit_prio prio) qm = (i, tid)" by fastforce
  obtain a b c where o: "opts = (a, b, c)" by (cases opts)
  show ?thesis
  proof (cases i)
    case (Some j)
    let ?q = "rwnx_txq_sta_get old (stas hw j) tid"
    show ?thesis
    proof (cases "idx (txqs hw ?q) = TXQ_INACTIVE \<or> \<not> mem")
      case False
      then show ?thesis using tx_inv_send [OF assms, of ?q] p Some o
        by (simp add: xmit_frame_def Let_def active_def new_txhdr_def)
    qed (use assms p Some in \<open>simp add: xmit_frame_def Let_def\<close>)
  qed (use assms p in \<open>simp add: xmit_frame_def\<close>)
qed

lemma tx_inv_mgmt:
  assumes "tx_inv hw" "unqueued k hw"
  shows "\<exists>r hw'. rwnx_start_mgmt_xmit old vif sta offchan mem robust no_cck byte k hw = Some (Inr (r, hw')) \<and> tx_inv hw'"
proof -
  let ?q = "case sta of Some i \<Rightarrow> rwnx_txq_sta_get old (stas hw i) 8
    | None \<Rightarrow> if offchan then NX_OFF_CHAN_TXQ_IDX old else rwnx_txq_vif_get old vif NX_UNK_TXQ_TYPE"
  let ?h = "new_txhdr ?q sta vif (TXU_CNTRL_MGMT OR (if robust then TXU_CNTRL_MGMT_ROBUST else 0) OR
                  (if no_cck then TXU_CNTRL_MGMT_NO_CCK else 0)) byte 0"
  show ?thesis
  proof (cases "idx (txqs hw ?q) = TXQ_INACTIVE \<or> \<not> mem")
    case True
    then show ?thesis using assms(1) unfolding rwnx_start_mgmt_xmit_def Let_def by (simp only: if_True) auto
  next
    case False
    have "active (txqs hw ?q)" "h_txq ?h = ?q" using False by (simp_all add: active_def new_txhdr_def)
    then obtain hw' where hw': "(case rwnx_txq_queue_skb k ?q False (upd_hdr k (\<lambda>_. ?h) hw) of
       (True, a) \<Rightarrow> rwnx_hwq_process (hwq (txqs a ?q)) a | (False, a) \<Rightarrow> Some (Inr a)) = Some (Inr hw')" "tx_inv hw'"
      using tx_inv_send [OF assms] by blast
    obtain b a where r: "rwnx_txq_queue_skb k ?q False (upd_hdr k (\<lambda>_. ?h) hw) = (b, a)" by fastforce
    have "rwnx_start_mgmt_xmit old vif sta offchan mem robust no_cck byte k hw = Some (Inr (True, hw'))"
      using hw'(1) unfolding rwnx_start_mgmt_xmit_def Let_def if_not_P [OF False] r by (cases b) simp_all
    then show ?thesis using hw'(2) by blast
  qed
qed

text \<open>The state in which \<open>rwnx_cfg80211_init\<close> leaves the transmit path.\<close>

definition tx_boot :: tx_hw where
  "tx_boot = rwnx_hwq_init
     \<lparr>txqs = (\<lambda>_. \<lparr>idx = TXQ_INACTIVE, status = 0, credits = 0, pkt_sent = 0, pkt_pushed = 0, sk_list = [],
        last_retry_skb = None, hwq = 0, nb_retry = 0, push_limit = 0, q_tid = 0, q_sta = None, ps_id = 0,
        ndev_idx = 0, ndev = 0\<rparr>),
      hwqs = (\<lambda>_. \<lparr>hlist = [], hsize = 0, hid = 0, need_processing = False\<rparr>),
      stas = (\<lambda>_. \<lparr>sta_idx = 0, sta_vif = 0, ps_active = False, pkt_ready = (\<lambda>_. 0), sp_cnt = (\<lambda>_. 0),
        uapsd_tids = 0, tdls_active = False, tdls_chsw_en = False\<rparr>),
      hdrs = (\<lambda>_. \<lparr>h_txq = 0, h_sta = None, h_mesh = False, hw_queue = 0, h_flags = 0, h_byte = 0, ethertype = 0,
        need_cfm = False, hostid = 0, raw_frame = False, fixed_rate = False, rate_config = 0\<rparr>),
      cfm_balance = (\<lambda>_. 0), tx_host_id = (\<lambda>_. None), txdesc_free_idx = 0, bus_log = [], free_log = [],
      mgmt_log = [], net_log = [], ind_log = [], task_scheduled = False, warns = 0\<rparr>"

definition stop_reason :: "u8 \<Rightarrow> bool" where
  "stop_reason r \<longleftrightarrow> r \<in> {RWNX_TXQ_STOP_FULL, RWNX_TXQ_STOP_CSA, RWNX_TXQ_STOP_STA_PS, RWNX_TXQ_STOP_VIF_PS, RWNX_TXQ_STOP_CHAN}"

text \<open>
  The operations of the transmit path, each run under \<open>tx_lock\<close>.  A new frame is not yet known to
  the path.  A queue is set up when it is not in use.  The control path may change the record of a
  station.  Two guards state what the code relies on without testing it: confirmations leave the
  signed credit counter below its limit, and the ready counter of a broadcast station does not
  exceed the frames in its queue when the firmware asks for traffic.
\<close>

inductive tx_step :: "bool \<Rightarrow> tx_hw \<Rightarrow> tx_hw \<Rightarrow> bool" for old where
  st_xmit: "unqueued k hw \<Longrightarrow> xmit_frame old vif mem opts prio qm byte etype k hw = Some (Inr hw') \<Longrightarrow> tx_step old hw hw'"
| st_mgmt: "unqueued k hw \<Longrightarrow> rwnx_start_mgmt_xmit old vif sta offchan mem robust no_cck byte k hw = Some (Inr (r, hw')) \<Longrightarrow>
    tx_step old hw hw'"
| st_task: "rwnx_task hw = Some (Inr hw') \<Longrightarrow> tx_step old hw hw'"
| st_cfm: "\<forall>q. sint (credits (txqs hw q)) < 127 \<Longrightarrow> aicwf_sdio_host_tx_cfm_handler down st used hw = Inr hw' \<Longrightarrow> tx_step old hw hw'"
| st_credit: "tx_step old hw (rwnx_txq_credit_update old i tid hw)"
| st_vif_start: "stop_reason r \<Longrightarrow> rwnx_txq_vif_start old r vif hw = Inr hw' \<Longrightarrow> tx_step old hw hw'"
| st_vif_stop: "stop_reason r \<Longrightarrow> rwnx_txq_vif_stop old r vif hw = Inr hw' \<Longrightarrow> tx_step old hw hw'"
| st_tdls_start: "stop_reason r \<Longrightarrow> rwnx_txq_tdls_sta_start old r vif hw = Inr hw' \<Longrightarrow> tx_step old hw hw'"
| st_tdls_stop: "stop_reason r \<Longrightarrow> rwnx_txq_tdls_sta_stop old r vif hw = Inr hw' \<Longrightarrow> tx_step old hw hw'"
| st_offchan: "tx_step old hw (rwnx_txq_offchan_start old hw)"
| st_vif_init: "\<not> active (txqs hw (rwnx_txq_vif_get old vif NX_BCMC_TXQ_TYPE)) \<Longrightarrow>
    \<not> active (txqs hw (rwnx_txq_vif_get old vif NX_UNK_TXQ_TYPE)) \<Longrightarrow> st AND RWNX_TXQ_IN_HWQ_LIST = 0 \<Longrightarrow>
    rwnx_txq_vif_init old vif st hw = Inr hw' \<Longrightarrow> tx_step old hw hw'"
| st_sta_init: "\<forall>q\<in>set (sta_txqs old (stas hw i)). \<not> active (txqs hw q) \<Longrightarrow> st AND RWNX_TXQ_IN_HWQ_LIST = 0 \<Longrightarrow>
    rwnx_txq_sta_init old i nd st hw = Inr hw' \<Longrightarrow> tx_step old hw hw'"
| st_unk_init: "\<not> active (txqs hw (rwnx_txq_vif_get old vif NX_UNK_TXQ_TYPE)) \<Longrightarrow> rwnx_txq_unk_vif_init old vif hw = Inr hw' \<Longrightarrow>
    tx_step old hw hw'"
| st_offchan_init: "\<not> active (txqs hw (NX_OFF_CHAN_TXQ_IDX old)) \<Longrightarrow> rwnx_txq_offchan_init old vif hw = Inr hw' \<Longrightarrow> tx_step old hw hw'"
| st_vif_deinit: "tx_step old hw (rwnx_txq_vif_deinit old vif hw)"
| st_sta_deinit: "tx_step old hw (rwnx_txq_sta_deinit old i hw)"
| st_unk_deinit: "tx_step old hw (rwnx_txq_unk_vif_deinit old vif hw)"
| st_offchan_deinit: "tx_step old hw (rwnx_txq_offchan_deinit old hw)"
| st_switch: "tx_step old hw (rwnx_txq_sta_switch_vif old i nd hw)"
| st_ps: "(is_multicast_sta old (sta_idx (stas hw i)) \<longrightarrow> hwq (txqs hw (rwnx_txq_sta_get old (stas hw i) 0)) = RWNX_HWQ_BE) \<Longrightarrow>
    tx_step old hw (rwnx_ps_bh_enable old i enable hw)"
| st_traffic: "(is_multicast_sta old (sta_idx (stas hw i)) \<longrightarrow>
      unat (pkt_ready (stas hw i) p) \<le> length (sk_list (txqs hw (rwnx_txq_sta_get old (stas hw i) 0)))) \<Longrightarrow>
    tx_step old hw (rwnx_ps_bh_traffic_req old i req p hw)"
| st_station: "tx_step old hw (upd_sta i f hw)"

lemma stop_reason_bit: "stop_reason r \<Longrightarrow> r AND RWNX_TXQ_IN_HWQ_LIST = 0"
  by (auto simp: stop_reason_def RWNX_TXQ_STOP_CSA_def RWNX_TXQ_STOP_VIF_PS_def RWNX_TXQ_STOP_FULL_def
      RWNX_TXQ_STOP_STA_PS_def RWNX_TXQ_STOP_CHAN_def RWNX_TXQ_IN_HWQ_LIST_def)

lemma tx_inv_ndev: "tx_inv hw \<Longrightarrow> tx_inv (upd_txq q (\<lambda>t. t\<lparr>ndev := nd\<rparr>) hw)"
  by (rule tx_inv_txq) (use tx_inv_ok [of hw q] tx_inv_ring [of hw q] in
      \<open>auto simp: txq_ok_def active_def retry_desc_def rwnx_txq_is_scheduled_def\<close>)

lemma tx_inv_switch: "tx_inv hw \<Longrightarrow> tx_inv (rwnx_txq_sta_switch_vif old i nd hw)"
  unfolding rwnx_txq_sta_switch_vif_def
  by (rule fold_invariant [where P = tx_inv and Q = "\<lambda>_. True"]) (simp_all add: tx_inv_ndev)

lemma tx_inv_boot: "tx_inv tx_boot"
proof -
  have t: "txqs tx_boot q = \<lparr>idx = TXQ_INACTIVE, status = 0, credits = 0, pkt_sent = 0, pkt_pushed = 0, sk_list = [],
        last_retry_skb = None, hwq = 0, nb_retry = 0, push_limit = 0, q_tid = 0, q_sta = None, ps_id = 0,
        ndev_idx = 0, ndev = 0\<rparr>" for q
    by (simp add: tx_boot_def rwnx_hwq_init_def NX_TXQ_CNT_def upt_rec tx_fields)
  have l: "hlist (hwqs tx_boot h) = []" "tx_host_id tx_boot = (\<lambda>_. None)" for h
    by (simp_all add: tx_boot_def rwnx_hwq_init_def NX_TXQ_CNT_def upt_rec tx_fields)
  show ?thesis
    by (simp add: tx_inv_def sched_inv_def ring_inv_def ring_once_def t l txq_ok_def active_def rwnx_txq_is_scheduled_def)
qed

lemma tx_inv_step:
  assumes "tx_step old hw hw'" "tx_inv hw"
  shows "tx_inv hw'"
  using assms
proof (cases rule: tx_step.cases)
  case (st_xmit k vif mem opts prio qm byte etype)
  then show ?thesis using tx_inv_xmit [OF assms(2) st_xmit(1), of old vif mem opts prio qm byte etype] by auto
next
  case (st_mgmt k vif sta offchan mem robust no_cck byte r)
  then show ?thesis using tx_inv_mgmt [OF assms(2) st_mgmt(1), of old vif sta offchan mem robust no_cck byte] by auto
next
  case st_task
  then show ?thesis using tx_inv_task [OF assms(2)] by auto
next
  case st_cfm
  then show ?thesis using tx_inv_cfm_handler [OF assms(2)] by blast
next
  case (st_ps i enable)
  then show ?thesis using tx_inv_ps_enable [OF assms(2)] by blast
next
  case (st_traffic i p req)
  then show ?thesis using tx_inv_traffic_req [OF assms(2)] by blast
next
  case (st_unk_init vif)
  have "0 AND RWNX_TXQ_IN_HWQ_LIST = 0" by simp
  then show ?thesis using st_unk_init tx_inv_init(1) [OF assms(2)] unfolding rwnx_txq_unk_vif_init_def by blast
next
  case (st_offchan_init vif)
  then show ?thesis
    using tx_inv_init(1) [OF assms(2) _ flag_disjoint(3)] unfolding rwnx_txq_offchan_init_def by blast
qed (use assms(2) stop_reason_bit tx_inv_switch in
    \<open>auto simp: tx_inv_credit_update tx_inv_deinit tx_inv_deinit_all rwnx_txq_vif_deinit_def rwnx_txq_sta_deinit_def
       rwnx_txq_unk_vif_deinit_def rwnx_txq_offchan_deinit_def rwnx_txq_offchan_start_def tx_inv_start
       rwnx_txq_tdls_sta_start_def rwnx_txq_tdls_sta_stop_def
       split: if_splits intro: tx_inv_vif_start tx_inv_vif_stop tx_inv_vif_init tx_inv_sta_init
         tx_inv_sta_start tx_inv_sta_stop\<close>)

interpretation txq_sys: invariant_of tx_boot "tx_step old" tx_inv for old
  by unfold_locales (auto intro: tx_inv_boot tx_inv_step)

end
