(* ===== verification/Txq_Props.thy ===== *)
theory Txq_Props
  imports Txq_Inv
begin

text \<open>
  Properties of the transmit path: the layout of the queue numbers, the invariant of reachable
  states, processing of a hardware queue, the order of retries, the confirmation ring, the overflow
  of the credit counter and the choice of the access category.
\<close>

section \<open>Queue numbers\<close>

text \<open>
  The purposes a queue can have, and its number: a TID (or management, TID 8) of a station,
  broadcast and unknown destinations of an interface, off-channel frames.
\<close>

datatype txq_role = Role_Sta nat nat | Role_Bcmc nat | Role_Unk nat | Role_Offchan

definition plain_sta :: "nat \<Rightarrow> nat \<Rightarrow> rwnx_sta" where
  "plain_sta i v = \<lparr>sta_idx = i, sta_vif = v, ps_active = False, pkt_ready = (\<lambda>_. 0), sp_cnt = (\<lambda>_. 0), uapsd_tids = 0,
     tdls_active = False, tdls_chsw_en = False\<rparr>"

definition plain_vif :: "nat \<Rightarrow> rwnx_vif" where
  "plain_vif v = \<lparr>vif_index = v, vif_iftype = IF_AP, vif_master = 0, vif_ndev = v, vif_ap = None, vif_tdls_sta = None,
     vif_tdls_link = False, vif_roc_tdls = False, vif_bcmc_index = 0, vif_sta_list = []\<rparr>"

fun role_idx :: "bool \<Rightarrow> txq_role \<Rightarrow> nat" where
  "role_idx old (Role_Sta i tid) = rwnx_txq_sta_get old (plain_sta i 0) tid"
| "role_idx old (Role_Bcmc v) = rwnx_txq_vif_get old (plain_vif v) NX_BCMC_TXQ_TYPE"
| "role_idx old (Role_Unk v) = rwnx_txq_vif_get old (plain_vif v) NX_UNK_TXQ_TYPE"
| "role_idx old Role_Offchan = NX_OFF_CHAN_TXQ_IDX old"

fun role_ok :: "bool \<Rightarrow> txq_role \<Rightarrow> bool" where
  "role_ok old (Role_Sta i tid) \<longleftrightarrow> i < sta_max old \<and> tid < NX_NB_TXQ_PER_STA"
| "role_ok old (Role_Bcmc v) \<longleftrightarrow> v < NX_VIRT_DEV_MAX"
| "role_ok old (Role_Unk v) \<longleftrightarrow> v < NX_VIRT_DEV_MAX"
| "role_ok old Role_Offchan \<longleftrightarrow> True"

lemmas layout_defs = rwnx_txq_sta_get_def rwnx_txq_sta_idx_def rwnx_txq_vif_get_def rwnx_txq_vif_idx_def master_vif_idx_def
  is_multicast_sta_def plain_sta_def plain_vif_def NX_OFF_CHAN_TXQ_IDX_def NX_FIRST_VIF_TXQ_IDX_def

lemma role_idx_simps:
  "i < sta_max old \<Longrightarrow> tid < 9 \<Longrightarrow> role_idx old (Role_Sta i tid) = i * 9 + tid"
  "role_idx old (Role_Bcmc v) = sta_max old * 9 + v" "role_idx old (Role_Unk v) = sta_max old * 9 + v + 4"
  "role_idx old Role_Offchan = sta_max old * 9 + 8"
  by (simp_all add: layout_defs)

declare role_idx.simps [simp del]

lemma mult9_split: "i * 9 + a = j * 9 + b \<Longrightarrow> a < 9 \<Longrightarrow> b < 9 \<Longrightarrow> i = j \<and> a = b" for i j a b :: nat
  by presburger

lemma role_idx_sta: "i < sta_max old \<Longrightarrow> tid < 9 \<Longrightarrow> role_idx old (Role_Sta i tid) < sta_max old * 9"
  using mult_le_mono1 [of "Suc i" "sta_max old" 9] by (simp add: role_idx_simps(1))

lemma role_idx_inj: "inj_on (role_idx old) {r. role_ok old r}"
proof (rule inj_onI)
  fix a b assume ab: "a \<in> {r. role_ok old r}" "b \<in> {r. role_ok old r}" and eq: "role_idx old a = role_idx old b"
  show "a = b"
  proof (cases a)
    case a: (Role_Sta i t)
    then have it: "i < sta_max old" "t < 9" using ab by auto
    show ?thesis
    proof (cases b)
      case (Role_Sta j u)
      then show ?thesis using a ab eq mult9_split [of i t j u] by (auto simp: role_idx_simps(1))
    qed (use role_idx_sta [OF it] eq a in \<open>auto simp: role_idx_simps(2-4)\<close>)
  next
    case (Role_Bcmc v)
    then show ?thesis by (cases b) (use ab eq role_idx_sta in \<open>force simp: role_idx_simps(2-4)\<close>)+
  next
    case (Role_Unk v)
    then show ?thesis by (cases b) (use ab eq role_idx_sta in \<open>force simp: role_idx_simps(2-4)\<close>)+
  next
    case Role_Offchan
    then show ?thesis by (cases b) (use ab eq role_idx_sta in \<open>force simp: role_idx_simps(2-4)\<close>)+
  qed
qed

lemma role_idx_onto:
  assumes "n < sta_max old * 9 + 9"
  shows "\<exists>r. role_ok old r \<and> role_idx old r = n"
proof -
  let ?m = "sta_max old * 9"
  consider "n < ?m" | "?m \<le> n" "n < ?m + 4" | "?m + 4 \<le> n" "n < ?m + 8" | "n = ?m + 8" using assms by linarith
  then show ?thesis
  proof cases
    case 1
    then have "n div 9 < sta_max old" by (simp add: less_mult_imp_div_less)
    then show ?thesis by (intro exI [of _ "Role_Sta (n div 9) (n mod 9)"]) (simp add: role_idx_simps(1))
  next
    case 2
    then show ?thesis by (intro exI [of _ "Role_Bcmc (n - ?m)"]) (simp add: role_idx_simps(2))
  next
    case 3
    then show ?thesis by (intro exI [of _ "Role_Unk (n - ?m - 4)"]) (simp add: role_idx_simps(3))
  qed (intro exI [of _ Role_Offchan], simp add: role_idx_simps(4))
qed

lemma role_idx_range: "role_ok old r \<Longrightarrow> role_idx old r < sta_max old * 9 + 9"
  using role_idx_sta [of _ old] by (cases r) (fastforce simp: role_idx_simps(2-4))+


section \<open>Processing in reachable states\<close>

text \<open>
  C19: in every state the driver reaches, a queue is linked into the list of a hardware queue
  exactly when its list flag is set and it belongs to that hardware queue, at most once; a
  scheduled queue is in use, has credits and frames, and its push limit does not exceed its
  frames; the retries of a queue are its first frames and \<open>last_retry_skb\<close> is the last of them.  The
  steps take confirmations only while the credit counters are below 127.
\<close>

theorem txq_invariant:
  assumes "reachable tx_boot (tx_step old) hw"
  shows "distinct (hlist (hwqs hw h)) \<and>
     (q \<in> set (hlist (hwqs hw h)) \<longleftrightarrow> rwnx_txq_is_scheduled (txqs hw q) \<and> hwq (txqs hw q) = h) \<and>
     (rwnx_txq_is_scheduled (txqs hw q) \<longrightarrow>
        idx (txqs hw q) \<noteq> TXQ_INACTIVE \<and> 0 < sint (credits (txqs hw q)) \<and> sk_list (txqs hw q) \<noteq> [] \<and>
        unat (push_limit (txqs hw q)) \<le> length (sk_list (txqs hw q))) \<and>
     (idx (txqs hw q) \<noteq> TXQ_INACTIVE \<longrightarrow>
        0 \<le> nb_retry (txqs hw q) \<and> nat (nb_retry (txqs hw q)) \<le> length (sk_list (txqs hw q)) \<and>
        last_retry_skb (txqs hw q) =
          (if nb_retry (txqs hw q) = 0 then None else Some (last (take (nat (nb_retry (txqs hw q))) (sk_list (txqs hw q))))))"
proof -
  have inv: "sched_inv hw" using txq_sys.holds [OF assms] by (simp add: tx_inv_def)
  have l: "ks ! (nat n - 1) = last (take (nat n) ks)" if "0 < n" "nat n \<le> length ks" for n :: int and ks :: "nat list"
    using that by (subst last_conv_nth) auto
  show ?thesis
    using sched_inv_distinct [OF inv, of h] sched_inv_listed [OF inv, of q h] sched_inv_ok [OF inv, of q]
      l [of "nb_retry (txqs hw q)" "sk_list (txqs hw q)"]
    by (auto simp: txq_ok_def active_def retry_desc_def)
qed

text \<open>
  A short run of the driver: the off-channel queue is set up, a management frame is queued for it
  while the channel is not active, then the channel becomes active.
\<close>

definition w1 :: tx_hw where "w1 = projr (rwnx_txq_offchan_init False (plain_vif 0) tx_boot)"
definition w2 :: tx_hw where
  "w2 = snd (projr (the (rwnx_start_mgmt_xmit False (plain_vif 0) None True True False False 0xd0 7 w1)))"
definition w3 :: tx_hw where "w3 = rwnx_txq_offchan_start False w2"

lemma boot_queues: "txqs tx_boot q = \<lparr>idx = TXQ_INACTIVE, status = 0, credits = 0, pkt_sent = 0, pkt_pushed = 0, sk_list = [],
    last_retry_skb = None, hwq = 0, nb_retry = 0, push_limit = 0, q_tid = 0, q_sta = None, ps_id = 0,
    ndev_idx = 0, ndev = 0\<rparr>" "tx_host_id tx_boot = (\<lambda>_. None)"
  by (simp_all add: tx_boot_def rwnx_hwq_init_def NX_TXQ_CNT_def upt_rec tx_fields)

lemma w3_reachable: "reachable tx_boot (tx_step False) w3"
proof -
  have o: "init_ndev_idx False (NX_OFF_CHAN_TXQ_IDX False) None = Inr NDEV_NO_TXQ"
    by code_simp
  have i1: "rwnx_txq_offchan_init False (plain_vif 0) tx_boot = Inr w1"
    by (simp add: w1_def rwnx_txq_offchan_init_def rwnx_txq_init_def o)
  have "tx_step False tx_boot w1"
    by (rule st_offchan_init [OF _ i1]) (simp add: boot_queues active_def)
  then have r1: "reachable tx_boot (tx_step False) w1" by (meson reach_init reach_step)
  have u: "unqueued 7 w1"
    by (simp add: w1_def rwnx_txq_offchan_init_def rwnx_txq_init_def o unqueued_def tx_fields boot_queues)
  obtain r a where "rwnx_start_mgmt_xmit False (plain_vif 0) None True True False False 0xd0 7 w1 = Some (Inr (r, a))"
    using tx_inv_mgmt [OF txq_sys.holds [OF r1] u] by blast
  then have "rwnx_start_mgmt_xmit False (plain_vif 0) None True True False False 0xd0 7 w1 = Some (Inr (r, w2))"
    by (simp add: w2_def)
  then have "tx_step False w1 w2" using u by (rule st_mgmt [rotated])
  then have "reachable tx_boot (tx_step False) w2" using r1 by (meson reach_step)
  moreover have "tx_step False w2 w3" unfolding w3_def by (rule st_offchan)
  ultimately show ?thesis by (meson reach_step)
qed

definition w3_see :: "nat list \<times> nat list \<times> nat list \<times> int \<times> bool" where
  "w3_see = (hlist (hwqs w3 3), sk_list (txqs w3 296), bus_log w3, rwnx_txq_get_credits (txqs w3 296),
     rwnx_txq_is_scheduled (txqs w3 296))"

lemma w3_seen: "w3_see = ([296], [7], [], 64, True)"
  by code_simp

theorem txq_invariant_witness:
  "reachable tx_boot (tx_step False) w3 \<and> rwnx_txq_is_scheduled (txqs w3 296) \<and> hwq (txqs w3 296) = 3 \<and>
   0 < sint (credits (txqs w3 296)) \<and> sk_list (txqs w3 296) = [7]"
  using txq_invariant [OF w3_reachable, of 3 296] w3_reachable w3_seen by (auto simp: w3_see_def)

text \<open>
  C20: in every state the driver reaches, \<open>rwnx_hwq_process\<close> ends without hitting one of its
  \<open>BUG_ON\<close> tests and without the warning about the last retry.  It hands to the bus, of every queue,
  a prefix of the queue in its order, and leaves the rest queued; of every queue that was
  scheduled it sends at least as many frames as its credits allow, or all.  The steps
  take confirmations only while the credit counters are below 127.
\<close>

theorem hwq_process_serves:
  assumes "reachable tx_boot (tx_step old) hw"
  shows "\<exists>hw' bus. rwnx_hwq_process h hw = Some (Inr hw') \<and> bus_log hw' = bus_log hw @ bus \<and> warns hw' = warns hw \<and>
     (\<forall>q. sk_list (txqs hw q) = filter (\<lambda>k. h_txq (hdrs hw k) = q) bus @ sk_list (txqs hw' q)) \<and>
     (\<forall>q\<in>set (hlist (hwqs hw h)). min (nat (rwnx_txq_get_credits (txqs hw q))) (length (sk_list (txqs hw q)))
        \<le> length (filter (\<lambda>k. h_txq (hdrs hw k) = q) bus))"
proof -
  let ?s = "upd_hwq h (need_processing_update (\<lambda>_. False)) hw"
  obtain hw' where run: "rwnx_hwq_process h hw = Some (Inr hw')" and p: "processed h (hlist (hwqs hw h)) ?s hw'"
    using tx_inv_process [OF txq_sys.holds [OF assms]] by metis
  obtain bus where bus: "bus_log hw' = bus_log hw @ bus"
      "\<forall>q. sk_list (txqs hw q) = filter (\<lambda>k. h_txq (hdrs hw k) = q) bus @ sk_list (txqs hw' q)"
    using p unfolding processed_def sent_def by (auto simp: tx_fields)
  have len: "length (sk_list (txqs hw q)) = length (filter (\<lambda>k. h_txq (hdrs hw k) = q) bus) + length (sk_list (txqs hw' q))" for q
    using bus(2) by (metis length_append)
  have "min (nat (rwnx_txq_get_credits (txqs hw q))) (length (sk_list (txqs hw q)))
      \<le> length (filter (\<lambda>k. h_txq (hdrs hw k) = q) bus)" if "q \<in> set (hlist (hwqs hw h))" for q
  proof -
    have "length (sk_list (txqs hw' q)) \<le> length (sk_list (txqs hw q)) - batch (txqs hw q)"
      using p that unfolding processed_def by (simp add: tx_fields)
    then show ?thesis using len [of q] by (simp add: batch_def)
  qed
  moreover have "warns hw' = warns hw" using p unfolding processed_def by (simp add: tx_fields)
  ultimately show ?thesis using run bus by blast
qed

theorem hwq_process_serves_witness:
  "hlist (hwqs w3 3) = [296] \<and> sk_list (txqs w3 296) = [7] \<and>
   (\<exists>hw' bus. rwnx_hwq_process 3 w3 = Some (Inr hw') \<and> bus_log hw' = bus_log w3 @ bus \<and> warns hw' = warns w3 \<and>
      1 \<le> length (filter (\<lambda>k. h_txq (hdrs w3 k) = 296) bus))"
proof -
  have s: "hlist (hwqs w3 3) = [296]" "sk_list (txqs w3 296) = [7]" "rwnx_txq_get_credits (txqs w3 296) = 64"
    using w3_seen by (simp_all add: w3_see_def)
  show ?thesis using hwq_process_serves [OF w3_reachable, of 3] s by auto
qed

section \<open>Retries\<close>

lemma tx_retry_effect:
  fixes sw :: bool
  assumes ok: "txq_ok q (txqs hw q) (owner hw)" and q: "q = h_txq (hdrs hw k)" and act: "active (txqs hw q)"
  defines "n \<equiv> nat (nb_retry (txqs hw q))" and "hw' \<equiv> rwnx_tx_retry k sw hw"
  shows "sk_list (txqs hw' q) = take n (sk_list (txqs hw q)) @ k # drop n (sk_list (txqs hw q))"
    "nb_retry (txqs hw' q) = nb_retry (txqs hw q) + 1" "last_retry_skb (txqs hw' q) = Some k"
    "credits (txqs hw' q) = credits (txqs hw q) + 1" "idx (txqs hw' q) = idx (txqs hw q)" "hwq (txqs hw' q) = hwq (txqs hw q)"
    "\<And>p. p \<noteq> q \<Longrightarrow> txqs hw' p = txqs hw p" "tx_host_id hw' = tx_host_id hw"
proof -
  define s3 where "s3 = upd_txq q (\<lambda>t. t\<lparr>credits := credits t + 1\<rparr>)
    (upd_hdr k (\<lambda>h. h\<lparr>h_flags := h_flags h AND NOT TXU_CNTRL_MORE_DATA\<rparr>)
      (if sw then hw else upd_hdr k (\<lambda>h. h\<lparr>h_flags := h_flags h OR TXU_CNTRL_RETRY\<rparr>) hw))"
  define s4 where "s4 = (if sint (credits (txqs s3 q)) > 0 then rwnx_txq_start RWNX_TXQ_STOP_FULL q s3 else s3)"
  have hw': "hw' = snd (rwnx_txq_queue_skb k q True s4)"
    unfolding hw'_def rwnx_tx_retry_def Let_def s4_def s3_def q ..
  have t3: "txqs s3 = (txqs hw)(q := (txqs hw q)\<lparr>credits := credits (txqs hw q) + 1\<rparr>)"
    by (simp add: s3_def tx_fields)
  have start: "txqs (rwnx_txq_start r q s) p = txqs s p" if "p \<noteq> q" for r s p
    using that by (simp add: rwnx_txq_start_def rwnx_txq_add_to_hw_list_def Let_def tx_fields)
  have c4: "core (txqs s4 q) = core (txqs s3 q)" "\<And>p. p \<noteq> q \<Longrightarrow> txqs s4 p = txqs hw p"
    using start t3 by (simp_all add: s4_def)
  then have q4: "sk_list (txqs s4 q) = sk_list (txqs hw q)" "nb_retry (txqs s4 q) = nb_retry (txqs hw q)"
      "retry_desc (txqs s4 q) (sk_list (txqs s4 q))" "distinct (sk_list (txqs s4 q))"
      "credits (txqs s4 q) = credits (txqs hw q) + 1" "idx (txqs s4 q) = idx (txqs hw q)" "hwq (txqs s4 q) = hwq (txqs hw q)"
    using t3 ok act by (auto simp: core_def txq_ok_def retry_desc_def)
  show "txqs hw' p = txqs hw p" if "p \<noteq> q" for p
    using that c4(2) [OF that] by (auto simp: hw' rwnx_txq_queue_skb_def Let_def flow_ctrl_stop_def rwnx_txq_add_to_hw_list_def tx_fields)
  have "core (txqs hw' q) = core (queue_retry k (txqs s4 q))"
    by (simp add: hw' rwnx_txq_queue_skb_def Let_def flow_ctrl_stop_def rwnx_txq_add_to_hw_list_def tx_fields)
  then show "sk_list (txqs hw' q) = take n (sk_list (txqs hw q)) @ k # drop n (sk_list (txqs hw q))"
    "nb_retry (txqs hw' q) = nb_retry (txqs hw q) + 1" "last_retry_skb (txqs hw' q) = Some k"
    "credits (txqs hw' q) = credits (txqs hw q) + 1" "idx (txqs hw' q) = idx (txqs hw q)" "hwq (txqs hw' q) = hwq (txqs hw q)"
    using queue_retry_list [OF q4(3,4), of k] q4 by (simp_all add: core_def queue_retry_def n_def)
  show "tx_host_id hw' = tx_host_id hw"
    by (simp add: hw' rwnx_txq_queue_skb_def Let_def flow_ctrl_stop_def rwnx_txq_add_to_hw_list_def tx_fields s4_def s3_def)
qed

text \<open>
  C21: when the firmware asks for a retry of a data frame in a state the driver reaches, the frame
  of the confirmed ring entry is queued again, behind the retries that already wait and before
  every new frame; the ring entry is free again and no other queue changes.
\<close>

theorem tx_retry_order:
  assumes "reachable tx_boot (tx_step old) hw" "tx_host_id hw (unat used mod SDIO_TXDESC_CNT) = Some k"
    "q = h_txq (hdrs hw k)" "idx (txqs hw q) \<noteq> TXQ_INACTIVE" "\<not> has (h_flags (hdrs hw k)) TXU_CNTRL_MGMT"
    "has st retry_required_bit"
  defines "n \<equiv> nat (nb_retry (txqs hw q))"
  shows "\<exists>hw'. aicwf_sdio_host_tx_cfm_handler False st used hw = Inr hw' \<and>
     sk_list (txqs hw' q) = take n (sk_list (txqs hw q)) @ k # drop n (sk_list (txqs hw q)) \<and>
     nb_retry (txqs hw' q) = nb_retry (txqs hw q) + 1 \<and> last_retry_skb (txqs hw' q) = Some k \<and>
     tx_host_id hw' = (tx_host_id hw)(unat used mod SDIO_TXDESC_CNT := None) \<and>
     (\<forall>p. p \<noteq> q \<longrightarrow> txqs hw' p = txqs hw p)"
proof -
  let ?s = "hw\<lparr>tx_host_id := (tx_host_id hw)(unat used mod SDIO_TXDESC_CNT := None)\<rparr>"
  let ?c = "rwnx_txq_confirm_any q (hw_queue (hdrs hw k)) ?s"
  have ok: "txq_ok q (txqs hw q) (owner hw)" using tx_inv_ok [OF txq_sys.holds [OF assms(1)]] .
  have c: "core (txqs ?c q) = core (txqs hw q)" "hdrs ?c = hdrs hw" "\<And>p. p \<noteq> q \<Longrightarrow> txqs ?c p = txqs hw p"
    by (simp_all add: rwnx_txq_confirm_any_def Let_def tx_fields core_def)
  have own: "owner ?c = owner hw" using c(2) by (simp add: owner_def fun_eq_iff)
  have "txq_ok q (txqs ?c q) (owner ?c)"
    using ok own by (auto simp: rwnx_txq_confirm_any_def Let_def tx_fields txq_ok_def active_def retry_desc_def rwnx_txq_is_scheduled_def)
  moreover have act: "active (txqs ?c q)" using core_active [OF c(1)] assms(4) by (simp add: active_def)
  ultimately have r: "sk_list (txqs (rwnx_tx_retry k sw ?c) q) = take n (sk_list (txqs hw q)) @ k # drop n (sk_list (txqs hw q)) \<and>
     nb_retry (txqs (rwnx_tx_retry k sw ?c) q) = nb_retry (txqs hw q) + 1 \<and>
     last_retry_skb (txqs (rwnx_tx_retry k sw ?c) q) = Some k \<and>
     tx_host_id (rwnx_tx_retry k sw ?c) = (tx_host_id hw)(unat used mod SDIO_TXDESC_CNT := None) \<and>
     (\<forall>p. p \<noteq> q \<longrightarrow> txqs (rwnx_tx_retry k sw ?c) p = txqs hw p)" for sw
    using tx_retry_effect [where q = q and hw = ?c and k = k and sw = sw] c assms(3) by (auto simp: core_def n_def)
  have "st \<noteq> 0" using assms(6) by (auto simp: has_def)
  then have "aicwf_sdio_host_tx_cfm_handler False st used hw = Inr (rwnx_tx_retry k (has st sw_retry_required_bit) ?c)"
    using assms(2-6) act
    by (simp add: aicwf_sdio_host_tx_cfm_handler_def rwnx_txdatacfm_def Let_def active_def)
  then show ?thesis using r by blast
qed

text \<open>
  A second run: the queue of the broadcast station of interface 0 is set up and an EAPOL frame is
  sent, which enters the confirmation ring.
\<close>

definition v0 :: tx_hw where "v0 = upd_sta 32 (\<lambda>_. plain_sta 32 0) tx_boot"
definition v1 :: tx_hw where "v1 = projr (rwnx_txq_sta_init False 32 0 0 v0)"
definition v2 :: tx_hw where
  "v2 = projr (the (xmit_frame False (plain_vif 0) True (False, False, False) 0 256 0 0x8e88 7 v1))"

lemma init_keeps_empty:
  assumes "\<forall>q. sk_list (txqs s q) = []" "tx_host_id s = (\<lambda>_. None)" "rwnx_txq_init old q ix st h td sta nd s = Inr t"
  shows "(\<forall>q. sk_list (txqs t q) = []) \<and> tx_host_id t = (\<lambda>_. None)"
  using assms by (auto simp: rwnx_txq_init_def tx_fields split: sum.splits)

lemma v2_reachable: "reachable tx_boot (tx_step False) v2"
proof -
  have "tx_step False tx_boot v0" unfolding v0_def by (rule st_station)
  then have r0: "reachable tx_boot (tx_step False) v0" by (meson reach_init reach_step)
  have "\<not> isl (rwnx_txq_sta_init False 32 0 0 v0)" by code_simp
  then have i1: "rwnx_txq_sta_init False 32 0 0 v0 = Inr v1"
    unfolding v1_def by (cases "rwnx_txq_sta_init False 32 0 0 v0") auto
  have "tx_step False v0 v1"
    by (rule st_sta_init [OF _ _ i1]) (simp_all add: v0_def tx_fields boot_queues active_def)
  then have r1: "reachable tx_boot (tx_step False) v1" using r0 by (meson reach_step)
  have e0: "(\<forall>q. sk_list (txqs v0 q) = []) \<and> tx_host_id v0 = (\<lambda>_. None)" by (simp add: v0_def tx_fields boot_queues)
  have "(\<forall>q. sk_list (txqs v1 q) = []) \<and> tx_host_id v1 = (\<lambda>_. None)"
    by (rule for_each_invariant [where P = "\<lambda>s. (\<forall>q. sk_list (txqs s q) = []) \<and> tx_host_id s = (\<lambda>_. None)",
          OF e0 i1 [unfolded rwnx_txq_sta_init_def]])
      (auto simp: and_then_Inr tx_fields split: prod.splits dest: init_keeps_empty)
  then have u: "unqueued 7 v1" by (simp add: unqueued_def)
  obtain a where "xmit_frame False (plain_vif 0) True (False, False, False) 0 256 0 0x8e88 7 v1 = Some (Inr a)"
    using tx_inv_xmit [OF txq_sys.holds [OF r1] u] by blast
  then have "xmit_frame False (plain_vif 0) True (False, False, False) 0 256 0 0x8e88 7 v1 = Some (Inr v2)"
    by (simp add: v2_def)
  then have "tx_step False v1 v2" using u by (rule st_xmit [rotated])
  then show ?thesis using r1 by (meson reach_step)
qed

definition v2_see :: "nat option \<times> nat \<times> u16 \<times> u32 \<times> nat list \<times> int \<times> nat list" where
  "v2_see = (tx_host_id v2 0, h_txq (hdrs v2 7), idx (txqs v2 288), h_flags (hdrs v2 7), sk_list (txqs v2 288),
     nb_retry (txqs v2 288), bus_log v2)"

lemma v2_seen: "v2_see = (Some 7, 288, 288, 0, [], 0, [7])"
  by code_simp

theorem tx_retry_order_witness:
  "tx_host_id v2 0 = Some 7 \<and> sk_list (txqs v2 288) = [] \<and>
   (\<exists>hw'. aicwf_sdio_host_tx_cfm_handler False 2 0 v2 = Inr hw' \<and> sk_list (txqs hw' 288) = [7] \<and>
      last_retry_skb (txqs hw' 288) = Some 7 \<and> tx_host_id hw' 0 = None)"
proof -
  have s: "tx_host_id v2 0 = Some 7" "h_txq (hdrs v2 7) = 288" "idx (txqs v2 288) = 288" "h_flags (hdrs v2 7) = 0"
    "sk_list (txqs v2 288) = []" "nb_retry (txqs v2 288) = 0" using v2_seen by (simp_all add: v2_see_def)
  have "tx_host_id v2 (unat (0 :: u32) mod SDIO_TXDESC_CNT) = Some 7" using s by simp
  from tx_retry_order [OF v2_reachable this, of 288 2] s show ?thesis by auto
qed

section \<open>The credit counter\<close>


definition o1 :: tx_hw where
  "o1 = upd_txq 288 (\<lambda>t. t\<lparr>credits := 127\<rparr>) v2"

definition o1_see :: "nat \<times> u16 \<times> u8 \<times> bool \<times> bool \<times> nat \<times> nat list" where
  "o1_see = (h_txq (hdrs o1 7), idx (txqs o1 288), credits (txqs o1 288), rwnx_txq_is_stopped (txqs o1 288),
     rwnx_txq_is_scheduled (txqs o1 288), hwq (txqs o1 288), hlist (hwqs o1 1))"

lemma o1_seen: "o1_see = (288, 288, 127, False, False, 1, [])"
  by code_simp


section \<open>The confirmation ring\<close>

lemma slot_hostid: "unat (0x80000000 OR i :: u32) mod SDIO_TXDESC_CNT = unat i mod SDIO_TXDESC_CNT"
proof -
  have "take_bit 6 (unat (0x80000000 OR i)) = take_bit 6 (unat i)"
    by (simp add: unsigned_or_eq)
  then show ?thesis by (simp add: take_bit_eq_mod SDIO_TXDESC_CNT_def)
qed

lemma push_free_idx:
  assumes "unat (txdesc_free_idx hw) < 2 ^ 31"
  shows "unat (txdesc_free_idx (aicwf_sdio_host_txdesc_push k hw)) = (unat (txdesc_free_idx hw) + 1) mod 2 ^ 31"
proof -
  have u: "unat (txdesc_free_idx hw + 1) = unat (txdesc_free_idx hw) + 1"
    using assms by (subst unat_word_ariths(1)) simp
  show ?thesis
  proof (cases "unat (txdesc_free_idx hw) + 1 = 2 ^ 31")
    case True
    then have "txdesc_free_idx hw + 1 = 0x80000000" using u by (intro word_unat_eq_iff [THEN iffD2]) simp
    then show ?thesis using True by (simp add: aicwf_sdio_host_txdesc_push_def Let_def)
  next
    case False
    then have "txdesc_free_idx hw + 1 \<noteq> 0x80000000" using u by (auto simp: word_unat_eq_iff)
    then show ?thesis using False assms u by (simp add: aicwf_sdio_host_txdesc_push_def Let_def)
  qed
qed

lemma push_many:
  assumes "unat (txdesc_free_idx hw) < 2 ^ 31"
  shows "unat (txdesc_free_idx (fold aicwf_sdio_host_txdesc_push ks hw)) = (unat (txdesc_free_idx hw) + length ks) mod 2 ^ 31 \<and>
     (\<forall>j<length ks. length ks \<le> j + SDIO_TXDESC_CNT \<longrightarrow>
        tx_host_id (fold aicwf_sdio_host_txdesc_push ks hw) ((unat (txdesc_free_idx hw) + j) mod SDIO_TXDESC_CNT) = Some (ks ! j))"
proof (induction ks rule: rev_induct)
  case (snoc k ks)
  let ?s = "fold aicwf_sdio_host_txdesc_push ks hw" and ?i = "unat (txdesc_free_idx hw)"
  have f: "unat (txdesc_free_idx ?s) = (?i + length ks) mod 2 ^ 31" using snoc by blast
  then have lt: "unat (txdesc_free_idx ?s) < 2 ^ 31" by simp
  have "(2 :: nat) ^ 31 = 64 * 2 ^ 25" by simp
  then have slot: "unat (txdesc_free_idx ?s) mod 64 = (?i + length ks) mod 64"
    unfolding f by (metis dvd_triv_left mod_mod_cancel)
  have r: "tx_host_id (fold aicwf_sdio_host_txdesc_push (ks @ [k]) hw) =
      (tx_host_id ?s)((?i + length ks) mod 64 := Some k)"
    using slot by (simp add: aicwf_sdio_host_txdesc_push_def [of k] Let_def SDIO_TXDESC_CNT_def)
  have "tx_host_id (fold aicwf_sdio_host_txdesc_push (ks @ [k]) hw) ((?i + j) mod 64) = Some ((ks @ [k]) ! j)"
    if j: "j < Suc (length ks)" "Suc (length ks) \<le> j + 64" for j
  proof (cases "j = length ks")
    case False
    then have d: "0 < length ks - j" "length ks - j < 64" "j < length ks" "length ks \<le> j + 64" using j by auto
    have "(?i + j) mod 64 \<noteq> (?i + length ks) mod 64"
    proof
      assume "(?i + j) mod 64 = (?i + length ks) mod 64"
      then have "64 dvd (?i + length ks) - (?i + j)" by (metis mod_eq_dvd_iff_nat add_le_cancel_left less_imp_le d(3))
      then show False using d by (auto dest: dvd_imp_le)
    qed
    then show ?thesis using snoc d unfolding r by (simp add: nth_append SDIO_TXDESC_CNT_def)
  qed (unfold r, simp)
  moreover have "unat (txdesc_free_idx (fold aicwf_sdio_host_txdesc_push (ks @ [k]) hw)) = (?i + length (ks @ [k])) mod 2 ^ 31"
    using push_free_idx [OF lt, of k] f by (simp add: mod_simps)
  ultimately show ?case by (simp add: SDIO_TXDESC_CNT_def)
qed (use assms in simp)

text \<open>
  C23: a frame that enters the confirmation ring is found again by the confirmation that carries
  its host id, as long as fewer than 64 frames have entered the ring after it, also across the
  wrap-around of the index; the 64th frame after it takes its place, and the confirmation is then
  given to the wrong frame.
\<close>

theorem cfm_ring_roundtrip:
  fixes k :: nat
  assumes "unat (txdesc_free_idx hw) < 2 ^ 31" "length ks \<le> SDIO_TXDESC_CNT"
  defines "hw' \<equiv> fold aicwf_sdio_host_txdesc_push (k # ks) hw" and "host \<equiv> 0x80000000 OR txdesc_free_idx hw"
  shows "aicwf_sdio_host_tx_cfm_handler down st host hw' =
     Inr (rwnx_txdatacfm down st (if length ks < SDIO_TXDESC_CNT then k else last ks)
       (hw'\<lparr>tx_host_id := (tx_host_id hw')(unat host mod SDIO_TXDESC_CNT := None)\<rparr>))"
proof -
  let ?i = "unat (txdesc_free_idx hw)"
  have slot: "unat host mod SDIO_TXDESC_CNT = ?i mod SDIO_TXDESC_CNT" unfolding host_def by (rule slot_hostid)
  have all: "tx_host_id hw' ((?i + j) mod SDIO_TXDESC_CNT) = Some ((k # ks) ! j)"
    if "j < Suc (length ks)" "Suc (length ks) \<le> j + SDIO_TXDESC_CNT" for j
    using push_many [OF assms(1), of "k # ks"] that unfolding hw'_def by auto
  have "tx_host_id hw' (unat host mod SDIO_TXDESC_CNT) = Some (if length ks < SDIO_TXDESC_CNT then k else last ks)"
  proof (cases "length ks < SDIO_TXDESC_CNT")
    case True
    then show ?thesis using all [of 0] slot by simp
  next
    case False
    then have n: "length ks = SDIO_TXDESC_CNT" using assms(2) by simp
    then have "ks \<noteq> []" by (auto simp: SDIO_TXDESC_CNT_def)
    then have "(k # ks) ! length ks = last ks" by (simp add: last_conv_nth nth_Cons')
    moreover have "Suc 0 \<le> SDIO_TXDESC_CNT" by (simp add: SDIO_TXDESC_CNT_def)
    ultimately show ?thesis using all [of "length ks"] slot n by simp
  qed
  then show ?thesis by (simp add: aicwf_sdio_host_tx_cfm_handler_def Let_def)
qed

theorem cfm_ring_roundtrip_witness:
  "aicwf_sdio_host_tx_cfm_handler True 0 0x80000000 (fold aicwf_sdio_host_txdesc_push [5, 6] tx_boot) =
     Inr (rwnx_txdatacfm True 0 5 ((fold aicwf_sdio_host_txdesc_push [5, 6] tx_boot)
       \<lparr>tx_host_id := (tx_host_id (fold aicwf_sdio_host_txdesc_push [5, 6] tx_boot))(0 := None)\<rparr>))"
proof -
  have "txdesc_free_idx tx_boot = 0"
    by (simp add: tx_boot_def rwnx_hwq_init_def NX_TXQ_CNT_def upt_rec tx_fields)
  then show ?thesis using cfm_ring_roundtrip [where hw = tx_boot and ks = "[6]" and down = True and st = 0 and k = 5] by (simp add: SDIO_TXDESC_CNT_def)
qed

section \<open>The access category\<close>

lemma tid2hwq_down: "ac < 3 \<Longrightarrow> rwnx_tid2hwq ! (rwnx_down_hwq2tid ! ac) = ac"
  by (auto simp: rwnx_tid2hwq_def rwnx_down_hwq2tid_def less_Suc_eq numeral_eq_Suc)

lemma downgrade_spec:
  "rwnx_tid2hwq ! prio = ac \<Longrightarrow> ac \<le> 3 \<Longrightarrow>
   rwnx_tid2hwq ! downgrade acm ac prio \<le> ac \<and>
   (\<forall>x. rwnx_tid2hwq ! downgrade acm ac prio < x \<longrightarrow> x \<le> ac \<longrightarrow> bit acm x) \<and>
   (\<not> bit acm (rwnx_tid2hwq ! downgrade acm ac prio) \<or> rwnx_tid2hwq ! downgrade acm ac prio = 0)"
proof (induction ac arbitrary: prio)
  case 0
  then show ?case by (simp add: rwnx_tid2hwq_def)
next
  case (Suc ac)
  then show ?case using Suc.IH [of "rwnx_down_hwq2tid ! ac"] tid2hwq_down [of ac] by (auto simp: le_Suc_eq)
qed

text \<open>
  \<open>rwnx_downgrade_ac\<close> moves a frame to the highest access category at or below its own for
  which the station does not require admission control, or to background when it is required for
  all of them.
\<close>

theorem downgrade_ac_admitted:
  assumes "prio < 8"
  shows "\<exists>p. rwnx_downgrade_ac acm prio = Inr p \<and> rwnx_tid2hwq ! p \<le> rwnx_tid2hwq ! prio \<and>
     (\<forall>ac. rwnx_tid2hwq ! p < ac \<longrightarrow> ac \<le> rwnx_tid2hwq ! prio \<longrightarrow> bit acm ac) \<and>
     (\<not> bit acm (rwnx_tid2hwq ! p) \<or> rwnx_tid2hwq ! p = 0)"
proof -
  have "length rwnx_tid2hwq = 16" "\<forall>x\<in>set rwnx_tid2hwq. x \<le> 3" by (simp_all add: rwnx_tid2hwq_def)
  then have "prio < length rwnx_tid2hwq" "rwnx_tid2hwq ! prio \<le> 3" using assms by simp_all
  then show ?thesis using downgrade_spec [of prio, OF refl, of acm] by (auto simp: rwnx_downgrade_ac_def)
qed

theorem downgrade_ac_admitted_witness:
  "rwnx_downgrade_ac 0x0c 6 = Inr 3 \<and> rwnx_tid2hwq ! 3 = 1 \<and> \<not> bit (0x0c :: u8) 1 \<and>
   (\<exists>p. rwnx_downgrade_ac 0x0c 6 = Inr p \<and> rwnx_tid2hwq ! p \<le> rwnx_tid2hwq ! 6)"
proof -
  have "rwnx_downgrade_ac 0x0c 6 = Inr 3" "rwnx_tid2hwq ! 3 = 1" "\<not> bit (0x0c :: u8) 1" by code_simp+
  then show ?thesis using downgrade_ac_admitted [of 6 "0x0c"] by auto
qed

text \<open>
  \<open>rwnx_start_xmit\<close> undoes the downgrade to background.  When the station requires admission
  control for best effort but not for background, a best-effort frame is downgraded to a
  background priority, and \<open>rwnx_start_xmit\<close> then changes that priority to 0, which is best effort
  again; the frame is queued for the access category that was not admitted.
\<close>

theorem acm_downgrade_undone:
  assumes "prio < 8" "rwnx_tid2hwq ! prio = RWNX_HWQ_BE" "bit acm 1" "\<not> bit acm 0"
  shows "\<exists>p. rwnx_downgrade_ac acm prio = Inr p \<and> rwnx_tid2hwq ! p = 0 \<and>
     rwnx_tid2hwq ! xmit_prio p = RWNX_HWQ_BE \<and> bit acm (rwnx_tid2hwq ! xmit_prio p)"
proof -
  have "length rwnx_tid2hwq = 16" by (simp add: rwnx_tid2hwq_def)
  then have "rwnx_downgrade_ac acm prio = Inr 2"
    using assms by (simp add: rwnx_downgrade_ac_def rwnx_down_hwq2tid_def)
  then show ?thesis using assms(3) by (simp add: rwnx_tid2hwq_def xmit_prio_def)
qed

theorem acm_downgrade_undone_witness:
  "rwnx_tid2hwq ! 0 = RWNX_HWQ_BE \<and>
   (\<exists>p. rwnx_downgrade_ac 2 0 = Inr p \<and> rwnx_tid2hwq ! p = 0 \<and> bit (2 :: u8) (rwnx_tid2hwq ! xmit_prio p))"
proof -
  have "rwnx_tid2hwq ! 0 = RWNX_HWQ_BE" "bit (2 :: u8) 1" "\<not> bit (2 :: u8) 0" by code_simp+
  then show ?thesis using acm_downgrade_undone [of 0 2] by auto
qed

end
