(* ===== verification/Sdio_Tx.thy ===== *)
theory Sdio_Tx
  imports Frame_Queue Cmd_Frame
begin

text \<open>
  The transmit side of the SDIO bus, aicwf\_sdio.c (without scatter-gather DMA, with power control,
  as configured): callers put frames into the priority queue \<open>txq\<close> and commands into the command
  buffer; the thread \<open>sdio_bustx_thread\<close> sends the command, then packs frames into the
  aggregation buffer and writes whole blocks to the device, within the number of buffers that the
  flow-control register grants.  The power thread puts the device to sleep.  A frame is its
  descriptor and its payload, without the headroom.  The aggregation buffer is memory of a
  fixed size that keeps its old contents; a write past its end is \<open>Out_Of_Bounds\<close>.
\<close>

section \<open>Constants\<close>

definition SDIOWIFI_FUNC_BLOCKSIZE :: nat where [simp]: "SDIOWIFI_FUNC_BLOCKSIZE = 512"
definition TXPKT_BLOCKSIZE :: nat where [simp]: "TXPKT_BLOCKSIZE = 512"
definition TX_ALIGNMENT :: nat where [simp]: "TX_ALIGNMENT = 4"
definition TAIL_LEN :: nat where [simp]: "TAIL_LEN = 4"
definition MAX_AGGR_TXPKT_LEN :: nat where "MAX_AGGR_TXPKT_LEN = 98304"
definition DATA_FLOW_CTRL_THRESH :: int where [simp]: "DATA_FLOW_CTRL_THRESH = 2"
definition FLOW_CTRL_RETRY_COUNT :: nat where [simp]: "FLOW_CTRL_RETRY_COUNT = 50"
definition SDIOWIFI_FLOWCTRL_MASK_REG :: u8 where [simp]: "SDIOWIFI_FLOWCTRL_MASK_REG = 0x7F"
definition TXQLEN :: nat where "TXQLEN = 8192"

abbreviation "ENOSR \<equiv> (63 :: int)"
abbreviation "EINVAL \<equiv> (22 :: int)"

section \<open>Data\<close>

record sdio_pkt =
  p_priority :: nat
  p_desc :: "u8 list"
  p_data :: "u8 list"
  p_cfm :: bool

datatype sdio_pwr = SDIO_SLEEP_ST | SDIO_ACTIVE_ST

text \<open>
  \<open>struct aicwf_tx_priv\<close> with the parts of \<open>aic_sdio_dev\<close> and \<open>aicwf_bus\<close> that it works with.
  \<open>tail\<close> is \<open>tail - head\<close>, \<open>bustx_trgg\<close> the count of the completion the thread sleeps on, \<open>pwr_timer\<close>
  whether the power timer runs and \<open>fc_reads\<close> the number of reads of the flow-control register so
  far.  \<open>wire\<close> lists the blocks handed to \<open>sdio_writesb\<close> for data, \<open>cmd_wire\<close> those for commands and
  \<open>freed\<close> the frames that were released.
\<close>

record aicwf_tx_priv =
  txq :: "sdio_pkt frame_queue"
  tx_pktcnt :: int
  aggr_buf :: "u8 list"
  tail :: nat
  aggr_count :: int
  fw_avail_bufcnt :: int
  cmd_txstate :: bool
  cmd_tx_succ :: bool
  cmd_buf :: "u8 list"
  cmd_len :: u32
  bus_up :: bool
  pwr_state :: sdio_pwr
  pwr_timer :: bool
  bustx_trgg :: nat
  fc_reads :: nat
  wire :: "u8 list list"
  cmd_wire :: "u8 list list"
  freed :: "sdio_pkt list"

text \<open>The chip by vendor and device number.\<close>

definition aicwf_sdio_chipmatch :: "u16 \<Rightarrow> u16 \<Rightarrow> AICWF_IC option" where
  "aicwf_sdio_chipmatch vid did =
     (if vid = 0x5449 \<and> did = 0x0145 then Some PRODUCT_ID_AIC8801
      else if vid = 0xc8a1 \<and> did = 0xc08d then Some PRODUCT_ID_AIC8800DC
      else if vid = 0xc8a1 \<and> did = 0x0082 then Some PRODUCT_ID_AIC8800D80
      else if vid = 0xc8a1 \<and> (did = 0x9081 \<or> did = 0x9082 \<or> did = 0x9084 \<or> did = 0x9085) then Some PRODUCT_ID_AIC8800D80N
      else if vid = 0xc8a1 \<and> (did = 0x9083 \<or> did = 0x9086) then Some PRODUCT_ID_AIC8800D80WN
      else if vid = 0xc8a1 \<and> did = 0x2082 then Some PRODUCT_ID_AIC8800D80X2
      else None)"

text \<open>The chips with the older register layout.\<close>

definition sdio_v1 :: "AICWF_IC \<Rightarrow> bool" where
  "sdio_v1 chipid \<longleftrightarrow> chipid \<in> {PRODUCT_ID_AIC8801, PRODUCT_ID_AIC8800DC, PRODUCT_ID_AIC8800DW}"

text \<open>\<open>memcpy\<close> into a buffer at an offset.\<close>

definition mem_write :: "nat \<Rightarrow> u8 list \<Rightarrow> u8 list \<Rightarrow> u8 list outcome" where
  "mem_write off bs mem =
     (if off + length bs \<le> length mem then Inr (take off mem @ bs @ drop (off + length bs) mem) else Inl Out_Of_Bounds)"

definition roundup :: "nat \<Rightarrow> nat \<Rightarrow> nat" where
  "roundup n k = (n + (k - 1)) div k * k"

section \<open>Flow control\<close>

text \<open>
  \<open>fc i\<close> is the result of the \<open>i\<close>-th read of the flow-control register, None a failed transfer.  The
  first argument of the loop is the number of retries left.
\<close>

definition fc_value :: "AICWF_IC \<Rightarrow> u8 \<Rightarrow> u8" where
  "fc_value chipid r = (if sdio_v1 chipid then r AND SDIOWIFI_FLOWCTRL_MASK_REG else r)"

fun flow_ctrl_loop :: "nat \<Rightarrow> AICWF_IC \<Rightarrow> (nat \<Rightarrow> u8 option) \<Rightarrow> nat \<Rightarrow> int \<times> nat" where
  "flow_ctrl_loop 0 chipid fc i =
     (case fc i of
        None \<Rightarrow> (- 1, Suc i)
      | Some r \<Rightarrow> (if uint (fc_value chipid r) > DATA_FLOW_CTRL_THRESH then uint (fc_value chipid r)
                   else - uint (fc_value chipid r), Suc i))"
| "flow_ctrl_loop (Suc n) chipid fc i =
     (case fc i of
        None \<Rightarrow> (- 1, Suc i)
      | Some r \<Rightarrow> if uint (fc_value chipid r) > DATA_FLOW_CTRL_THRESH then (uint (fc_value chipid r), Suc i)
                   else flow_ctrl_loop n chipid fc (Suc i))"

text \<open>The caller stores the result in \<open>fw_avail_bufcnt\<close>.\<close>

definition aicwf_sdio_flow_ctrl :: "AICWF_IC \<Rightarrow> (nat \<Rightarrow> u8 option) \<Rightarrow> aicwf_tx_priv \<Rightarrow> aicwf_tx_priv" where
  "aicwf_sdio_flow_ctrl chipid fc s =
     (case flow_ctrl_loop FLOW_CTRL_RETRY_COUNT chipid fc (fc_reads s) of
        (n, i) \<Rightarrow> s\<lparr>fw_avail_bufcnt := n, fc_reads := i\<rparr>)"

section \<open>Power control\<close>

text \<open>\<open>aicwf_sdio_pwrctl_timer\<close>: a duration of 0 stops the timer.\<close>

definition aicwf_sdio_pwrctl_timer :: "bool \<Rightarrow> aicwf_tx_priv \<Rightarrow> aicwf_tx_priv" where
  "aicwf_sdio_pwrctl_timer run s = (if \<not> bus_up s \<and> run then s else s\<lparr>pwr_timer := run\<rparr>)"

text \<open>
  \<open>aicwf_sdio_wakeup\<close>: \<open>wr\<close> is the result of the write of the wake-up register and \<open>rd i\<close> that of the
  \<open>i\<close>-th read, None a failed transfer; the result is the return value.
\<close>

fun wakeup_reads :: "nat \<Rightarrow> (nat \<Rightarrow> u8 option) \<Rightarrow> nat \<Rightarrow> int \<Rightarrow> int" where
  "wakeup_reads 0 rd i ret = ret"
| "wakeup_reads (Suc n) rd i ret =
     (case rd i of
        None \<Rightarrow> wakeup_reads n rd (Suc i) (- 1)
      | Some v \<Rightarrow> if v AND 1 = 0 then 0 else wakeup_reads n rd (Suc i) 0)"

definition aicwf_sdio_wakeup :: "bool \<Rightarrow> (nat \<Rightarrow> u8 option) \<Rightarrow> aicwf_tx_priv \<Rightarrow> int \<times> aicwf_tx_priv" where
  "aicwf_sdio_wakeup wr rd s =
     (if pwr_state s = SDIO_SLEEP_ST
      then (if wr then wakeup_reads 50 rd 0 0 else - 1,
            aicwf_sdio_pwrctl_timer True (s\<lparr>pwr_state := SDIO_ACTIVE_ST\<rparr>))
      else (0, s))"

text \<open>
  \<open>aicwf_sdio_sleep_allow\<close>, without the register accesses, whose results it only logs: \<open>quiet\<close> says that
  neither a scan nor peer-to-peer operation is going on, \<open>rx_cnt\<close> is the receive counter.
\<close>

definition aicwf_sdio_sleep_allow :: "bool \<Rightarrow> int \<Rightarrow> aicwf_tx_priv \<Rightarrow> aicwf_tx_priv" where
  "aicwf_sdio_sleep_allow quiet rx_cnt s =
     (if \<not> bus_up s then aicwf_sdio_pwrctl_timer False s
      else if pwr_state s = SDIO_ACTIVE_ST \<and> quiet \<and> tx_pktcnt s \<le> 0 \<and> \<not> cmd_txstate s \<and> rx_cnt = 0
      then aicwf_sdio_pwrctl_timer False (s\<lparr>pwr_state := SDIO_SLEEP_ST\<rparr>)
      else aicwf_sdio_pwrctl_timer True s)"

definition aicwf_sdio_pwr_stctl ::
  "sdio_pwr \<Rightarrow> bool \<Rightarrow> (nat \<Rightarrow> u8 option) \<Rightarrow> bool \<Rightarrow> int \<Rightarrow> aicwf_tx_priv \<Rightarrow> int \<times> aicwf_tx_priv" where
  "aicwf_sdio_pwr_stctl target wr rd quiet rx_cnt s =
     (if \<not> bus_up s then (- 1, s)
      else if pwr_state s = target
      then (0, if target = SDIO_ACTIVE_ST then aicwf_sdio_pwrctl_timer True s else s)
      else (0, case target of
                 SDIO_ACTIVE_ST \<Rightarrow> snd (aicwf_sdio_wakeup wr rd s)
               | SDIO_SLEEP_ST \<Rightarrow> aicwf_sdio_sleep_allow quiet rx_cnt s))"

text \<open>One round of \<open>aicwf_sdio_pwrctl_thread\<close>.\<close>

definition aicwf_sdio_pwrctl_thread :: "bool \<Rightarrow> int \<Rightarrow> aicwf_tx_priv \<Rightarrow> aicwf_tx_priv" where
  "aicwf_sdio_pwrctl_thread quiet rx_cnt s =
     (if \<not> bus_up s then s
      else if tx_pktcnt s \<le> 0 \<and> \<not> cmd_txstate s \<and> rx_cnt = 0
      then snd (aicwf_sdio_pwr_stctl SDIO_SLEEP_ST True (\<lambda>_. None) quiet rx_cnt s)
      else aicwf_sdio_pwrctl_timer True s)"

section \<open>The callers\<close>

definition aicwf_sdio_bus_txdata :: "sdio_pkt \<Rightarrow> aicwf_tx_priv \<Rightarrow> int \<times> aicwf_tx_priv" where
  "aicwf_sdio_bus_txdata p s =
     (if \<not> bus_up s then (- 1, s\<lparr>freed := freed s @ [p]\<rparr>)
      else case aicwf_frame_enq (p_priority p mod 8) p (txq s) of
             (False, _) \<Rightarrow> (- ENOSR, s\<lparr>freed := freed s @ [p]\<rparr>)
           | (True, q) \<Rightarrow> (0, s\<lparr>txq := q, tx_pktcnt := tx_pktcnt s + 1, bustx_trgg := bustx_trgg s + 1\<rparr>))"

text \<open>
  \<open>aicwf_sdio_bus_txmsg\<close>: \<open>msg\<close> is the memory of the command buffer, \<open>CMD_BUF_MAX\<close> bytes of it, and
  \<open>msglen\<close> the length of the command in it.
\<close>

definition aicwf_sdio_bus_txmsg :: "u8 list \<Rightarrow> u32 \<Rightarrow> aicwf_tx_priv \<Rightarrow> int \<times> aicwf_tx_priv" where
  "aicwf_sdio_bus_txmsg msg msglen s =
     (let s1 = s\<lparr>cmd_txstate := True, cmd_tx_succ := False, cmd_buf := msg, cmd_len := msglen\<rparr>
      in if \<not> bus_up s then (- 1, s1) else (0, s1\<lparr>bustx_trgg := bustx_trgg s + 1\<rparr>))"

definition aicwf_sdio_bus_stop :: "bool \<Rightarrow> int \<Rightarrow> aicwf_tx_priv \<Rightarrow> aicwf_tx_priv" where
  "aicwf_sdio_bus_stop quiet rx_cnt s =
     (let s1 = (aicwf_sdio_pwrctl_timer False s)\<lparr>bus_up := False\<rparr>;
          s2 = snd (aicwf_sdio_pwr_stctl SDIO_SLEEP_ST True (\<lambda>_. None) quiet rx_cnt s1)
      in case aicwf_frame_queue_flush (txq s2) of (ps, q) \<Rightarrow> s2\<lparr>txq := q, freed := freed s2 @ ps\<rparr>)"

section \<open>Sending a command\<close>

text \<open>\<open>ok\<close> is the result of the transfer.\<close>

definition aicwf_sdio_tx_msg :: "AICWF_IC \<Rightarrow> bool \<Rightarrow> aicwf_tx_priv \<Rightarrow> (int \<times> aicwf_tx_priv) outcome" where
  "aicwf_sdio_tx_msg chipid ok s =
     (let n0 = unat (ucast (cmd_len s) :: u16);
          n1 = (if n0 mod TX_ALIGNMENT \<noteq> 0 then roundup n0 TX_ALIGNMENT else n0);
          n2 = (if n1 mod SDIOWIFI_FUNC_BLOCKSIZE \<noteq> 0 then n1 + TAIL_LEN else n1);
          len = (if n1 mod SDIOWIFI_FUNC_BLOCKSIZE \<noteq> 0 then (n2 div SDIOWIFI_FUNC_BLOCKSIZE + 1) * SDIOWIFI_FUNC_BLOCKSIZE
                 else n1)
      in and_then (mem_write n0 (replicate (n1 - n0) 0) (cmd_buf s))
           (\<lambda>b1. and_then (mem_write n1 (replicate (n2 - n1) 0) b1)
             (\<lambda>b2. if chipid = PRODUCT_ID_AIC8800DW then Inr (- 1, s\<lparr>cmd_buf := b2\<rparr>)
                    else if len > length b2 then Inl Out_Of_Bounds
                    else Inr (if ok then 0 else - 1,
                           s\<lparr>cmd_buf := b2, cmd_wire := cmd_wire s @ [take len b2], cmd_txstate := False, cmd_tx_succ := ok\<rparr>))))"

section \<open>Packing frames\<close>

definition data_header :: "AICWF_IC \<Rightarrow> nat \<Rightarrow> u8 list" where
  "data_header chipid n =
     (let h = [ucast (word_of_nat n AND (0xff :: u64)), ucast (drop_bit 8 (word_of_nat n) AND (0x0f :: u64)), 0x01]
      in h @ [if sdio_v1 chipid then 0 else (case crc8_ponl_107 h 3 of Inr c \<Rightarrow> c | Inl _ \<Rightarrow> 0)])"

text \<open>The last step of \<open>aicwf_sdio_aggr\<close> on the older chips: the length in the header at \<open>start\<close> is set again.\<close>

definition fix_length :: "AICWF_IC \<Rightarrow> nat \<Rightarrow> nat \<Rightarrow> u8 list \<Rightarrow> u8 list" where
  "fix_length chipid start t mem =
     (if sdio_v1 chipid
      then mem[start := ucast (word_of_nat (t - start - 4) AND (0xff :: u64)),
               Suc start := ucast (drop_bit 8 (word_of_nat (t - start - 4)) AND (0x0f :: u64))]
      else mem)"

definition aicwf_sdio_aggr :: "AICWF_IC \<Rightarrow> sdio_pkt \<Rightarrow> aicwf_tx_priv \<Rightarrow> aicwf_tx_priv outcome" where
  "aicwf_sdio_aggr chipid p s =
     (let start = tail s;
          frame = data_header chipid (length (p_data p) + length (p_desc p)) @ p_desc p @ p_data p;
          curr_len = start + length frame;
          t = (if curr_len mod TX_ALIGNMENT \<noteq> 0 then roundup curr_len TX_ALIGNMENT else curr_len)
      in and_then (mem_write start (frame @ replicate (t - curr_len) 0) (aggr_buf s))
           (\<lambda>mem. Inr (s\<lparr>aggr_buf := fix_length chipid start t mem, tail := t, aggr_count := aggr_count s + 1,
                          freed := (if p_cfm p then freed s else freed s @ [p])\<rparr>)))"

definition aicwf_sdio_aggrbuf_reset :: "aicwf_tx_priv \<Rightarrow> aicwf_tx_priv" where
  "aicwf_sdio_aggrbuf_reset s = s\<lparr>tail := 0, aggr_count := 0\<rparr>"

text \<open>\<open>aicwf_sdio_txpkt\<close> for the first \<open>n\<close> bytes of the aggregation buffer.\<close>

definition aicwf_sdio_txpkt :: "nat \<Rightarrow> aicwf_tx_priv \<Rightarrow> aicwf_tx_priv outcome" where
  "aicwf_sdio_txpkt n s =
     (let len = roundup n SDIOWIFI_FUNC_BLOCKSIZE in
      if \<not> bus_up s then Inr s
      else if len > length (aggr_buf s) then Inl Out_Of_Bounds
      else Inr (s\<lparr>wire := wire s @ [take len (aggr_buf s)]\<rparr>))"

definition aicwf_sdio_aggr_send :: "aicwf_tx_priv \<Rightarrow> aicwf_tx_priv outcome" where
  "aicwf_sdio_aggr_send s =
     and_then
       (if tail s mod TXPKT_BLOCKSIZE \<noteq> 0
        then and_then (mem_write (tail s) (replicate TAIL_LEN 0) (aggr_buf s))
               (\<lambda>mem. Inr (s\<lparr>aggr_buf := mem, tail := tail s + TAIL_LEN\<rparr>))
        else Inr s)
       (\<lambda>s1. and_then (aicwf_sdio_txpkt (tail s1) s1) (\<lambda>s2. Inr (aicwf_sdio_aggrbuf_reset s2)))"

section \<open>Sending frames\<close>

text \<open>
  \<open>aicwf_sdio_send\<close> in two parts, because callers may queue frames in between: up to the release of
  \<open>txqlock\<close>, with the frame that was taken, and from the aggregation of that frame on.  \<open>lim\<close> is the
  module parameter \<open>tx_aggr_counter\<close>.
\<close>

definition flush_aggr :: "aicwf_tx_priv \<Rightarrow> aicwf_tx_priv outcome" where
  "flush_aggr s = aicwf_sdio_aggr_send (s\<lparr>fw_avail_bufcnt := fw_avail_bufcnt s - aggr_count s\<rparr>)"

definition aggr_full :: "int \<Rightarrow> aicwf_tx_priv \<Rightarrow> bool" where
  "aggr_full lim s \<longleftrightarrow> aggr_count s = fw_avail_bufcnt s - DATA_FLOW_CTRL_THRESH \<or> aggr_count s \<ge> lim"

definition send_take :: "int \<Rightarrow> aicwf_tx_priv \<Rightarrow> (sdio_pkt option \<times> aicwf_tx_priv) outcome" where
  "send_take lim s =
     (if aggr_count s = 0 \<and> tail s \<noteq> 0 \<or> aggr_count s \<noteq> 0 \<and> tail s = 0
      then Inr (None, if tail s > 0 then aicwf_sdio_aggrbuf_reset s else s)
      else if aggr_full lim s
      then and_then (if aggr_count s > 0 then flush_aggr s else Inr s) (\<lambda>s1. Inr (None, s1))
      else case aicwf_frame_dequeue (txq s) of (r, q) \<Rightarrow> Inr (r, s\<lparr>txq := q\<rparr>))"

definition send_put :: "AICWF_IC \<Rightarrow> int \<Rightarrow> bool \<Rightarrow> sdio_pkt \<Rightarrow> aicwf_tx_priv \<Rightarrow> aicwf_tx_priv outcome" where
  "send_put chipid lim txnow p s =
     and_then (aicwf_sdio_aggr chipid p s)
       (\<lambda>s1. and_then (if tx_pktcnt s1 = 1 \<or> txnow \<or> aggr_full lim s1 then flush_aggr s1 else Inr s1)
          (\<lambda>s2. Inr (s2\<lparr>tx_pktcnt := tx_pktcnt s2 - 1\<rparr>)))"

definition aicwf_sdio_send :: "AICWF_IC \<Rightarrow> int \<Rightarrow> bool \<Rightarrow> aicwf_tx_priv \<Rightarrow> aicwf_tx_priv outcome" where
  "aicwf_sdio_send chipid lim txnow s =
     and_then (send_take lim s)
       (\<lambda>(r, s1). case r of None \<Rightarrow> Inr s1 | Some p \<Rightarrow> send_put chipid lim txnow p s1)"

text \<open>The data loop of \<open>aicwf_sdio_tx_process\<close>, when no caller interferes.\<close>

partial_function (option) tx_data_loop ::
  "AICWF_IC \<Rightarrow> int \<Rightarrow> (nat \<Rightarrow> u8 option) \<Rightarrow> aicwf_tx_priv \<Rightarrow> aicwf_tx_priv outcome option" where
  [code]: "tx_data_loop chipid lim fc s =
     (if aicwf_is_framequeue_empty (txq s) \<or> \<not> bus_up s then Some (Inr s)
      else if fw_avail_bufcnt s \<le> DATA_FLOW_CTRL_THRESH
      then if cmd_txstate s then Some (Inr s) else tx_data_loop chipid lim fc (aicwf_sdio_flow_ctrl chipid fc s)
      else (case aicwf_sdio_send chipid lim (cmd_txstate s) s of
              Inl f \<Rightarrow> Some (Inl f)
            | Inr s1 \<Rightarrow> if cmd_txstate s then Some (Inr s1) else tx_data_loop chipid lim fc s1))"

definition tx_data ::
  "AICWF_IC \<Rightarrow> int \<Rightarrow> (nat \<Rightarrow> u8 option) \<Rightarrow> aicwf_tx_priv \<Rightarrow> aicwf_tx_priv outcome option" where
  "tx_data chipid lim fc s =
     (if pwr_state s \<noteq> SDIO_ACTIVE_ST then Some (Inr s)
      else tx_data_loop chipid lim fc
             (if aicwf_is_framequeue_empty (txq s) then s else aicwf_sdio_flow_ctrl chipid fc s))"

text \<open>The command part of \<open>aicwf_sdio_tx_process\<close>; False: the function returns because the device sleeps.\<close>

definition tx_cmd :: "AICWF_IC \<Rightarrow> bool \<Rightarrow> aicwf_tx_priv \<Rightarrow> (bool \<times> aicwf_tx_priv) outcome" where
  "tx_cmd chipid ok s =
     (if cmd_txstate s
      then if pwr_state s \<noteq> SDIO_ACTIVE_ST then Inr (False, s)
           else and_then (aicwf_sdio_tx_msg chipid ok s) (\<lambda>(_, s1). Inr (True, s1))
      else Inr (True, s))"

definition aicwf_sdio_tx_process ::
  "AICWF_IC \<Rightarrow> int \<Rightarrow> bool \<Rightarrow> (nat \<Rightarrow> u8 option) \<Rightarrow> bool \<Rightarrow> (nat \<Rightarrow> u8 option) \<Rightarrow> aicwf_tx_priv \<Rightarrow> aicwf_tx_priv outcome option" where
  "aicwf_sdio_tx_process chipid lim wr rd ok fc s =
     (if \<not> bus_up s then Some (Inr s)
      else case tx_cmd chipid ok (snd (aicwf_sdio_pwr_stctl SDIO_ACTIVE_ST wr rd True 0 s)) of
             Inl f \<Rightarrow> Some (Inl f)
           | Inr (go, s1) \<Rightarrow> if go then tx_data chipid lim fc s1 else Some (Inr s1))"

definition aicwf_tx_init :: aicwf_tx_priv where
  "aicwf_tx_init =
     \<lparr>txq = aicwf_frame_queue_init 8 TXQLEN, tx_pktcnt = 0, aggr_buf = replicate MAX_AGGR_TXPKT_LEN 0, tail = 0, aggr_count = 0,
      fw_avail_bufcnt = 0, cmd_txstate = False, cmd_tx_succ = False, cmd_buf = replicate CMD_BUF_MAX 0, cmd_len = 0,
      bus_up = True, pwr_state = SDIO_SLEEP_ST, pwr_timer = False, bustx_trgg = 0, fc_reads = 0, wire = [], cmd_wire = [],
      freed = []\<rparr>"

end
