(* ===== verification/Sdio_Pack.thy ===== *)
theory Sdio_Pack
  imports Sdio_Tx
begin

text \<open>
  What \<open>aicwf_sdio_aggr\<close> and \<open>aicwf_sdio_aggr_send\<close> write, and that the device can cut it into frames
  again: \<open>sdio_unpack\<close> reads a length, a type and a body until it finds a length of 0 or the end of the
  blocks.  The bytes behind the last frame are old contents of the buffer.
\<close>

section \<open>Format\<close>

definition pkt_len :: "sdio_pkt \<Rightarrow> nat" where
  "pkt_len p = length (p_data p) + length (p_desc p)"

definition pkt_pad :: "sdio_pkt \<Rightarrow> nat" where
  "pkt_pad p = (4 - pkt_len p mod 4) mod 4"

definition pkt_size :: "sdio_pkt \<Rightarrow> nat" where
  "pkt_size p = 4 + pkt_len p + pkt_pad p"

definition pkt_body :: "AICWF_IC \<Rightarrow> sdio_pkt \<Rightarrow> u8 list" where
  "pkt_body chipid p = p_desc p @ p_data p @ replicate (if sdio_v1 chipid then pkt_pad p else 0) 0"

definition pkt_bytes :: "AICWF_IC \<Rightarrow> sdio_pkt \<Rightarrow> u8 list" where
  "pkt_bytes chipid p =
     data_header chipid (length (pkt_body chipid p)) @ p_desc p @ p_data p @ replicate (pkt_pad p) 0"

text \<open>The device's view.\<close>

definition hdr_len :: "u8 list \<Rightarrow> nat" where
  "hdr_len bs = unat (bs ! 0) + 256 * unat (bs ! 1)"

function sdio_unpack :: "u8 list \<Rightarrow> (u8 \<times> u8 list) list" where
  "sdio_unpack bs =
     (if length bs < 4 \<or> hdr_len bs = 0 then []
      else (bs ! 2, take (hdr_len bs) (drop 4 bs)) # sdio_unpack (drop (roundup (4 + hdr_len bs) TX_ALIGNMENT) bs))"
  by pat_completeness auto
termination
  by (relation "measure length") (auto simp: roundup_def)

declare sdio_unpack.simps [simp del]

text \<open>Frames that fit: their length fits the header and \<open>lim\<close> of them fit the buffer.\<close>

definition pkt_fits :: "int \<Rightarrow> sdio_pkt \<Rightarrow> bool" where
  "pkt_fits lim p \<longleftrightarrow> 0 < pkt_len p \<and> pkt_size p \<le> 4096 \<and> lim * int (pkt_size p) \<le> int MAX_AGGR_TXPKT_LEN"

section \<open>Lemmas\<close>

lemma pad4: "(n :: nat) + (4 - n mod 4) mod 4 = roundup n 4"
proof -
  obtain q r where n: "n = 4 * q + r" and r: "r < 4"
    by (metis mod_div_mult_eq mod_less_divisor mult.commute zero_less_numeral add.commute)
  have "n mod 4 = r" using n r by simp
  moreover from r have "r = 0 \<or> r = 1 \<or> r = 2 \<or> r = 3" by linarith
  ultimately show ?thesis by (elim disjE) (simp_all add: n roundup_def)
qed

lemma roundup_mod: "k \<noteq> 0 \<Longrightarrow> roundup n k mod k = 0"
  by (simp add: roundup_def)

lemma roundup_mult:
  assumes "k \<noteq> 0" "n mod k = 0"
  shows "roundup n k = n"
proof -
  obtain q where n: "n = q * k" using assms(2) by (metis mod_0_imp_dvd dvdE mult.commute)
  have "(q * k + (k - 1)) div k = q + (k - 1) div k" by (rule div_mult_self3 [OF assms(1)])
  then have "(q * k + (k - 1)) div k = q" using assms(1) by simp
  then show ?thesis by (simp add: roundup_def n)
qed

lemma roundup_add_mult: "k \<noteq> 0 \<Longrightarrow> m mod k = 0 \<Longrightarrow> roundup (m + n) k = m + roundup n k"
proof -
  assume k: "k \<noteq> 0" and "m mod k = 0"
  then obtain q where m: "m = q * k" by (metis mod_0_imp_dvd dvdE mult.commute)
  have "(q * k + (n + (k - 1))) div k = q + (n + (k - 1)) div k" by (rule div_mult_self3 [OF k])
  then show ?thesis by (simp add: roundup_def m add.assoc add_mult_distrib del: One_nat_def)
qed

lemma roundup_ge: "k \<noteq> 0 \<Longrightarrow> n \<le> roundup n k"
proof -
  assume k: "k \<noteq> 0"
  have "(n + (k - 1)) mod k < k" using k by simp
  moreover have "(n + (k - 1)) div k * k + (n + (k - 1)) mod k = n + (k - 1)" by simp
  ultimately show ?thesis unfolding roundup_def by linarith
qed

lemma roundup_le:
  assumes "k \<noteq> 0" "n \<le> m" "m mod k = 0"
  shows "roundup n k \<le> m"
proof -
  have "roundup n k \<le> roundup m k" using assms(2) by (simp add: roundup_def div_le_mono)
  then show ?thesis using roundup_mult [OF assms(1,3)] by simp
qed

lemma pkt_size_mod: "pkt_size p mod 4 = 0" and pkt_size_roundup: "pkt_size p = roundup (4 + pkt_len p) 4"
proof -
  show r: "pkt_size p = roundup (4 + pkt_len p) 4"
    using pad4 [of "pkt_len p"] roundup_add_mult [of 4 4 "pkt_len p"] by (simp add: pkt_size_def pkt_pad_def)
  show "pkt_size p mod 4 = 0" using roundup_mod [of 4] r by simp
qed

lemma header_lo: "unat (ucast (word_of_nat m AND (0xff :: u64)) :: u8) = m mod 256"
proof -
  have "ucast (word_of_nat m AND (0xff :: u64)) = (word_of_nat m :: u8)"
    by (rule bit_word_eqI) (auto simp: bit_simps bit_255_int)
  then show ?thesis by (simp add: unat_of_nat)
qed

lemma bit_15_int: "bit (15 :: int) n \<longleftrightarrow> n < 4"
proof -
  have "(15 :: int) = mask 4" by (simp add: mask_eq_exp_minus_1)
  then show ?thesis by (simp only: bit_mask_iff) simp
qed

lemma header_hi: "unat (ucast (drop_bit 8 (word_of_nat m) AND (0x0f :: u64)) :: u8) = m div 256 mod 16"
proof -
  have "ucast (drop_bit 8 (word_of_nat m) AND (0x0f :: u64)) = (word_of_nat (m div 256 mod 16) :: u8)"
  proof (rule bit_word_eqI)
    fix n assume "n < LENGTH(8)"
    have "m div 256 mod 16 = take_bit 4 (drop_bit 8 m)" by (simp add: take_bit_eq_mod drop_bit_eq_div)
    then show "bit (ucast (drop_bit 8 (word_of_nat m) AND (0x0f :: u64)) :: u8) n = bit (word_of_nat (m div 256 mod 16) :: u8) n"
      using \<open>n < LENGTH(8)\<close> by (auto simp: bit_simps bit_15_int)
  qed
  moreover have "m div 256 mod 16 < 256" by (rule less_trans [of _ 16]) simp_all
  ultimately show ?thesis by (simp add: unat_of_nat)
qed

lemma length_data_header [simp]: "length (data_header chipid n) = 4"
  by (simp add: data_header_def Let_def)

lemma hdr_len_header: "m < 4096 \<Longrightarrow> hdr_len (data_header chipid m @ r) = m"
proof -
  assume "m < 4096"
  then have "m div 256 mod 16 = m div 256" by simp
  moreover have "m mod 256 + 256 * (m div 256) = m" by simp
  ultimately have "m mod 256 + 256 * (m div 256 mod 16) = m" by simp
  then show ?thesis by (simp add: hdr_len_def data_header_def Let_def header_lo header_hi)
qed

lemma length_pkt_body: "length (pkt_body chipid p) = (if sdio_v1 chipid then pkt_len p + pkt_pad p else pkt_len p)"
  by (simp add: pkt_body_def pkt_len_def)

lemma length_pkt_bytes [simp]: "length (pkt_bytes chipid p) = pkt_size p"
  by (simp add: pkt_bytes_def pkt_size_def pkt_len_def)

lemma body_size:
  assumes "pkt_fits lim p"
  shows "0 < length (pkt_body chipid p)" "length (pkt_body chipid p) < 4096"
    "roundup (4 + length (pkt_body chipid p)) 4 = pkt_size p"
proof -
  show "0 < length (pkt_body chipid p)" "length (pkt_body chipid p) < 4096"
    using assms by (auto simp: pkt_fits_def length_pkt_body pkt_size_def)
  have "roundup (pkt_size p) 4 = pkt_size p" by (rule roundup_mult) (simp_all add: pkt_size_mod)
  then show "roundup (4 + length (pkt_body chipid p)) 4 = pkt_size p"
    by (simp add: length_pkt_body pkt_size_roundup [of p, symmetric]) (simp add: pkt_size_def add.assoc)
qed

lemma unpack_pkt:
  assumes "pkt_fits lim p"
  shows "sdio_unpack (pkt_bytes chipid p @ r) = (1, pkt_body chipid p) # sdio_unpack r"
proof -
  let ?n = "length (pkt_body chipid p)" and ?bs = "pkt_bytes chipid p @ r"
  have h: "hdr_len ?bs = ?n" using body_size(2) [OF assms] by (simp add: pkt_bytes_def hdr_len_header)
  have "take ?n (drop 4 ?bs) = pkt_body chipid p"
    by (simp add: pkt_bytes_def pkt_body_def)
  moreover have "drop (pkt_size p) ?bs = r" by simp
  moreover have "?bs ! 2 = 1" by (simp add: pkt_bytes_def data_header_def Let_def nth_append)
  moreover have "\<not> length ?bs < 4" by (simp add: pkt_size_def)
  ultimately show ?thesis
    using h body_size(1,3) [OF assms, of chipid] by (subst sdio_unpack.simps) simp
qed

lemma unpack_frames:
  assumes "\<forall>p\<in>set ps. pkt_fits lim p" "r = [] \<or> hdr_len r = 0"
  shows "sdio_unpack (concat (map (pkt_bytes chipid) ps) @ r) = map (\<lambda>p. (1, pkt_body chipid p)) ps"
  using assms(1)
proof (induction ps)
  case Nil
  then show ?case using assms(2) by (subst sdio_unpack.simps) auto
qed (simp add: unpack_pkt [where lim = lim])

lemma mem_write_ok: "off + length bs \<le> length mem \<Longrightarrow> mem_write off bs mem = Inr (take off mem @ bs @ drop (off + length bs) mem)"
  by (simp add: mem_write_def)

lemma v1_header: "sdio_v1 chipid \<Longrightarrow> data_header chipid m =
    [ucast (word_of_nat m AND (0xff :: u64)), ucast (drop_bit 8 (word_of_nat m) AND (0x0f :: u64)), 1, 0]"
  by (simp add: data_header_def Let_def)

lemma fix_length_frame:
  assumes "k \<le> length mem" "length r = pkt_len p + pkt_pad p"
  shows "fix_length chipid k (k + pkt_size p) (take k mem @ (data_header chipid (pkt_len p) @ r) @ d) =
    take k mem @ (data_header chipid (length (pkt_body chipid p)) @ r) @ d"
proof (cases "sdio_v1 chipid")
  case True
  have "k + pkt_size p - k - 4 = pkt_len p + pkt_pad p" by (simp add: pkt_size_def)
  then show ?thesis
    using assms True by (simp add: fix_length_def v1_header length_pkt_body list_update_append)
qed (simp add: fix_length_def length_pkt_body)

lemma aggr_step:
  assumes "tail s mod 4 = 0" "tail s + pkt_size p \<le> length (aggr_buf s)"
  shows "aicwf_sdio_aggr chipid p s =
    Inr (s\<lparr>aggr_buf := take (tail s) (aggr_buf s) @ pkt_bytes chipid p @ drop (tail s + pkt_size p) (aggr_buf s),
           tail := tail s + pkt_size p, aggr_count := aggr_count s + 1,
           freed := (if p_cfm p then freed s else freed s @ [p])\<rparr>)"
proof -
  let ?c = "tail s + (4 + pkt_len p)"
  have t: "(if ?c mod TX_ALIGNMENT \<noteq> 0 then roundup ?c TX_ALIGNMENT else ?c) = tail s + pkt_size p"
    using roundup_add_mult [of 4 "tail s" "4 + pkt_len p"] roundup_mult [of 4 ?c] assms(1)
    by (simp add: pkt_size_roundup)
  have l: "length (data_header chipid (length (p_data p) + length (p_desc p)) @ p_desc p @ p_data p) = 4 + pkt_len p"
    by (simp add: pkt_len_def)
  have pad: "tail s + pkt_size p - ?c = pkt_pad p" by (simp add: pkt_size_def)
  let ?r = "p_desc p @ p_data p @ replicate (pkt_pad p) 0"
  have r: "length ?r = pkt_len p + pkt_pad p" by (simp add: pkt_len_def)
  have w: "mem_write (tail s) ((data_header chipid (length (p_data p) + length (p_desc p)) @ p_desc p @ p_data p) @
        replicate (pkt_pad p) 0) (aggr_buf s) =
      Inr (take (tail s) (aggr_buf s) @ (data_header chipid (pkt_len p) @ ?r) @ drop (tail s + pkt_size p) (aggr_buf s))"
    using assms(2) by (subst mem_write_ok) (simp_all add: pkt_size_def pkt_len_def add.commute add.left_commute)
  have fx: "fix_length chipid (tail s) (tail s + pkt_size p)
      (take (tail s) (aggr_buf s) @ (data_header chipid (pkt_len p) @ ?r) @ drop (tail s + pkt_size p) (aggr_buf s)) =
      take (tail s) (aggr_buf s) @ pkt_bytes chipid p @ drop (tail s + pkt_size p) (aggr_buf s)"
    using assms(2) r by (subst fix_length_frame) (simp_all add: pkt_bytes_def)
  show ?thesis unfolding aicwf_sdio_aggr_def Let_def l t pad w and_then.simps fx ..
qed

lemma aggr_send_step:
  assumes "tail s mod 4 = 0" "tail s \<le> length (aggr_buf s)" "length (aggr_buf s) = MAX_AGGR_TXPKT_LEN" "bus_up s"
  shows "\<exists>mem r. aicwf_sdio_aggr_send s = Inr (s\<lparr>aggr_buf := mem, tail := 0, aggr_count := 0,
      wire := wire s @ [take (tail s) (aggr_buf s) @ r]\<rparr>) \<and> length mem = MAX_AGGR_TXPKT_LEN \<and>
      (r = [] \<or> hdr_len r = 0) \<and> (tail s + length r) mod 512 = 0"
proof (cases "tail s mod 512 = 0")
  case True
  have "roundup (tail s) 512 = tail s" using True by (intro roundup_mult) simp_all
  then have "aicwf_sdio_aggr_send s = Inr (s\<lparr>aggr_buf := aggr_buf s, tail := 0, aggr_count := 0,
      wire := wire s @ [take (tail s) (aggr_buf s) @ []]\<rparr>)"
    using True assms by (cases s) (simp add: aicwf_sdio_aggr_send_def aicwf_sdio_txpkt_def aicwf_sdio_aggrbuf_reset_def)
  with True assms show ?thesis by (metis add.right_neutral list.size(3))
next
  case False
  let ?m = "aggr_buf s" let ?t = "tail s" let ?n = "roundup (?t + 4) 512"
  have max: "MAX_AGGR_TXPKT_LEN = 98304" by (simp add: MAX_AGGR_TXPKT_LEN_def)
  have t4: "?t + 4 \<le> 98304"
  proof -
    have "?t \<noteq> 98304" using False by auto
    moreover have "?t mod 4 = 0" "?t \<le> 98304" using assms max by auto
    ultimately show ?thesis by presburger
  qed
  have n: "?n \<le> 98304" "?t + 4 \<le> ?n" "?n mod 512 = 0"
    using roundup_le [of 512 "?t + 4" 98304] roundup_ge [of 512 "?t + 4"] roundup_mod [of 512 "?t + 4"] t4 by auto
  define mem where "mem = take ?t ?m @ replicate 4 0 @ drop (?t + 4) ?m"
  define r where "r = replicate 4 0 @ take (?n - (?t + 4)) (drop (?t + 4) ?m)"
  have lm: "length mem = 98304" using t4 assms(2,3) max by (simp add: mem_def)
  have "min (?n - ?t) 4 = 4" "?n - ?t - 4 = ?n - (?t + 4)" "min ?n ?t = ?t" using n(2) by simp_all
  then have tk: "take ?n mem = take ?t ?m @ r"
    using assms(2) unfolding mem_def r_def by (simp only: take_append take_take take_replicate length_take length_replicate min.absorb2)
  have "mem_write ?t (replicate TAIL_LEN 0) ?m = Inr mem"
    using t4 assms(3) max by (subst mem_write_ok) (simp_all add: mem_def)
  then have "aicwf_sdio_aggr_send s = Inr (s\<lparr>aggr_buf := mem, tail := 0, aggr_count := 0, wire := wire s @ [take ?t ?m @ r]\<rparr>)"
    using False assms(4) n(1) lm tk
    by (cases s) (simp add: aicwf_sdio_aggr_send_def aicwf_sdio_txpkt_def aicwf_sdio_aggrbuf_reset_def)
  moreover have "hdr_len r = 0" by (simp add: r_def hdr_len_def numeral_eq_Suc)
  moreover have "?t + length r = ?n" using n(1,2) assms(3) max by (simp add: r_def)
  ultimately show ?thesis using lm max n(3) by metis
qed

end
