(* ===== verification/Sdio_Sys.thy ===== *)
theory Sdio_Sys
  imports Sdio_Pack
begin

text \<open>
  The transmit thread, the callers, the power thread and the receive thread, which only wakes the device,
  of the SDIO bus as a step relation.  The
  thread's program counter separates the parts of \<open>aicwf_sdio_tx_process\<close> between which the others
  run; a caller first queues its frame or command and later completes \<open>bustx_trgg\<close>.  The invariant
  says that frames are neither lost nor reordered within their priority, that the aggregation
  buffer holds exactly the frames packed so far, that the grants of the device are kept and that
  no wake-up is lost.
\<close>

named_theorems tx_simps \<open>fields that an operation of the bus leaves unchanged\<close>

section \<open>Steps\<close>

datatype tx_pc = Tx_Wait | Tx_Cmd | Tx_Data | Tx_Loop | Tx_Taken bool sdio_pkt | Tx_End

text \<open>
  \<open>completing\<close> counts the callers that have queued and not yet completed.  The rest are logs: the frames
  accepted, those in the aggregation buffer, those of every write to the device, the last grant
  read from the flow-control register and the number of frames written since.
\<close>

record tx_sys =
  tx :: aicwf_tx_priv
  pc :: tx_pc
  completing :: nat
  accepted :: "sdio_pkt list"
  packed :: "sdio_pkt list"
  sent :: "sdio_pkt list list"
  granted :: int
  since :: nat

fun taken :: "tx_pc \<Rightarrow> sdio_pkt list" where
  "taken (Tx_Taken b p) = [p]"
| "taken _ = []"

text \<open>The thread has changed its state to \<open>s\<close> with the frames \<open>fs\<close> in the buffer, or has written them.\<close>

definition note_sent :: "sdio_pkt list \<Rightarrow> aicwf_tx_priv \<Rightarrow> tx_sys \<Rightarrow> tx_sys" where
  "note_sent fs s y =
     (if aggr_count s = 0 \<and> fs \<noteq> [] then y\<lparr>tx := s, packed := [], sent := sent y @ [fs], since := since y + length fs\<rparr>
      else y\<lparr>tx := s, packed := fs\<rparr>)"

definition read_grant :: "AICWF_IC \<Rightarrow> (nat \<Rightarrow> u8 option) \<Rightarrow> tx_sys \<Rightarrow> tx_sys" where
  "read_grant chipid fc y =
     (let s = aicwf_sdio_flow_ctrl chipid fc (tx y) in y\<lparr>tx := s, granted := fw_avail_bufcnt s, since := 0\<rparr>)"

definition loop_pc :: "bool \<Rightarrow> tx_pc" where
  "loop_pc txnow = (if txnow then Tx_Wait else Tx_Loop)"

inductive sdio_step :: "AICWF_IC \<Rightarrow> int \<Rightarrow> (nat \<Rightarrow> u8 option) \<Rightarrow> tx_sys \<Rightarrow> tx_sys \<Rightarrow> bool" for chipid lim fc where
  st_enq: "pkt_fits lim p \<Longrightarrow> aicwf_sdio_bus_txdata p (tx y) = (0, s) \<Longrightarrow>
    sdio_step chipid lim fc y (y\<lparr>tx := s\<lparr>bustx_trgg := bustx_trgg (tx y)\<rparr>, completing := Suc (completing y),
      accepted := accepted y @ [p]\<rparr>)"
| st_refused: "aicwf_sdio_bus_txdata p (tx y) = (r, s) \<Longrightarrow> r \<noteq> 0 \<Longrightarrow> sdio_step chipid lim fc y (y\<lparr>tx := s\<rparr>)"
| st_cmd: "length msg = CMD_BUF_MAX \<Longrightarrow> unat n \<le> 1528 \<Longrightarrow> aicwf_sdio_bus_txmsg msg n (tx y) = (r, s) \<Longrightarrow>
    sdio_step chipid lim fc y (y\<lparr>tx := s\<lparr>bustx_trgg := bustx_trgg (tx y)\<rparr>,
      completing := (if r = 0 then Suc (completing y) else completing y)\<rparr>)"
| st_complete: "completing y = Suc n \<Longrightarrow>
    sdio_step chipid lim fc y (y\<lparr>tx := (tx y)\<lparr>bustx_trgg := Suc (bustx_trgg (tx y))\<rparr>, completing := n\<rparr>)"
| st_power: "sdio_step chipid lim fc y (y\<lparr>tx := aicwf_sdio_pwrctl_thread quiet rx_cnt (tx y)\<rparr>)"
| st_rx_active: "sdio_step chipid lim fc y (y\<lparr>tx := snd (aicwf_sdio_pwr_stctl SDIO_ACTIVE_ST wr rd quiet rx_cnt (tx y))\<rparr>)"
| st_stop: "sdio_step chipid lim fc y (y\<lparr>tx := aicwf_sdio_bus_stop quiet rx_cnt (tx y)\<rparr>)"
| st_wake: "pc y = Tx_Wait \<Longrightarrow> bustx_trgg (tx y) = Suc n \<Longrightarrow> bus_up (tx y) \<Longrightarrow> tx_pktcnt (tx y) > 0 \<or> cmd_txstate (tx y) \<Longrightarrow>
    sdio_step chipid lim fc y (y\<lparr>tx := snd (aicwf_sdio_pwr_stctl SDIO_ACTIVE_ST wr rd True 0 ((tx y)\<lparr>bustx_trgg := n\<rparr>)),
      pc := Tx_Cmd\<rparr>)"
| st_idle: "pc y = Tx_Wait \<Longrightarrow> bustx_trgg (tx y) = Suc n \<Longrightarrow> bus_up (tx y) \<Longrightarrow> \<not> (tx_pktcnt (tx y) > 0 \<or> cmd_txstate (tx y)) \<Longrightarrow>
    sdio_step chipid lim fc y (y\<lparr>tx := (tx y)\<lparr>bustx_trgg := n\<rparr>\<rparr>)"
| st_end: "pc y = Tx_Wait \<Longrightarrow> bustx_trgg (tx y) = Suc n \<Longrightarrow> \<not> bus_up (tx y) \<Longrightarrow> sdio_step chipid lim fc y (y\<lparr>pc := Tx_End\<rparr>)"
| st_cmd_part: "pc y = Tx_Cmd \<Longrightarrow> tx_cmd chipid ok (tx y) = Inr (go, s) \<Longrightarrow>
    sdio_step chipid lim fc y (y\<lparr>tx := s, pc := (if go then Tx_Data else Tx_Wait)\<rparr>)"
| st_asleep: "pc y = Tx_Data \<Longrightarrow> pwr_state (tx y) \<noteq> SDIO_ACTIVE_ST \<Longrightarrow> sdio_step chipid lim fc y (y\<lparr>pc := Tx_Wait\<rparr>)"
| st_data: "pc y = Tx_Data \<Longrightarrow> pwr_state (tx y) = SDIO_ACTIVE_ST \<Longrightarrow>
    sdio_step chipid lim fc y ((if aicwf_is_framequeue_empty (txq (tx y)) then y else read_grant chipid fc y)\<lparr>pc := Tx_Loop\<rparr>)"
| st_leave: "pc y = Tx_Loop \<Longrightarrow> aicwf_is_framequeue_empty (txq (tx y)) \<or> \<not> bus_up (tx y) \<or>
      fw_avail_bufcnt (tx y) \<le> DATA_FLOW_CTRL_THRESH \<and> cmd_txstate (tx y) \<Longrightarrow>
    sdio_step chipid lim fc y (y\<lparr>pc := Tx_Wait\<rparr>)"
| st_grant: "pc y = Tx_Loop \<Longrightarrow> \<not> aicwf_is_framequeue_empty (txq (tx y)) \<Longrightarrow> bus_up (tx y) \<Longrightarrow>
      fw_avail_bufcnt (tx y) \<le> DATA_FLOW_CTRL_THRESH \<Longrightarrow> \<not> cmd_txstate (tx y) \<Longrightarrow>
    sdio_step chipid lim fc y (read_grant chipid fc y)"
| st_take: "pc y = Tx_Loop \<Longrightarrow> \<not> aicwf_is_framequeue_empty (txq (tx y)) \<Longrightarrow> bus_up (tx y) \<Longrightarrow>
      fw_avail_bufcnt (tx y) > DATA_FLOW_CTRL_THRESH \<Longrightarrow> send_take lim (tx y) = Inr (Some p, s) \<Longrightarrow>
    sdio_step chipid lim fc y (y\<lparr>tx := s, pc := Tx_Taken (cmd_txstate (tx y)) p\<rparr>)"
| st_flush: "pc y = Tx_Loop \<Longrightarrow> \<not> aicwf_is_framequeue_empty (txq (tx y)) \<Longrightarrow> bus_up (tx y) \<Longrightarrow>
      fw_avail_bufcnt (tx y) > DATA_FLOW_CTRL_THRESH \<Longrightarrow> send_take lim (tx y) = Inr (None, s) \<Longrightarrow>
    sdio_step chipid lim fc y ((note_sent (packed y) s y)\<lparr>pc := loop_pc (cmd_txstate (tx y))\<rparr>)"
| st_put: "pc y = Tx_Taken txnow p \<Longrightarrow> send_put chipid lim txnow p (tx y) = Inr s \<Longrightarrow>
    sdio_step chipid lim fc y ((note_sent (packed y @ [p]) s y)\<lparr>pc := loop_pc txnow\<rparr>)"

definition tx_sys_init :: tx_sys where
  "tx_sys_init = \<lparr>tx = aicwf_tx_init, pc = Tx_Wait, completing = 0, accepted = [], packed = [], sent = [], granted = 0, since = 0\<rparr>"

section \<open>Effect of the operations\<close>

text \<open>The aggregation buffer holds the frames \<open>fs\<close>.\<close>

definition buf_ok :: "AICWF_IC \<Rightarrow> int \<Rightarrow> sdio_pkt list \<Rightarrow> aicwf_tx_priv \<Rightarrow> bool" where
  "buf_ok chipid lim fs s \<longleftrightarrow>
     length (aggr_buf s) = MAX_AGGR_TXPKT_LEN \<and> tail s = length (concat (map (pkt_bytes chipid) fs)) \<and>
     take (tail s) (aggr_buf s) = concat (map (pkt_bytes chipid) fs) \<and> aggr_count s = int (length fs) \<and>
     (\<forall>p\<in>set fs. pkt_fits lim p)"

text \<open>A write to the device carries the frames \<open>fs\<close>.\<close>

definition write_ok :: "AICWF_IC \<Rightarrow> int \<Rightarrow> u8 list \<Rightarrow> sdio_pkt list \<Rightarrow> bool" where
  "write_ok chipid lim w fs \<longleftrightarrow>
     sdio_unpack w = map (\<lambda>p. (1, pkt_body chipid p)) fs \<and> length w mod 512 = 0 \<and> fs \<noteq> [] \<and> int (length fs) \<le> lim"

definition rest :: "aicwf_tx_priv \<Rightarrow> sdio_pkt frame_queue \<times> bool \<times> u8 list \<times> u32 \<times> bool \<times> sdio_pwr \<times> nat" where
  "rest s = (txq s, cmd_txstate s, cmd_buf s, cmd_len s, bus_up s, pwr_state s, bustx_trgg s)"

lemma buf_ok_frame:
  "buf_ok chipid lim fs s \<Longrightarrow> aggr_buf s' = aggr_buf s \<Longrightarrow> tail s' = tail s \<Longrightarrow> aggr_count s' = aggr_count s \<Longrightarrow>
    buf_ok chipid lim fs s'"
  unfolding buf_ok_def by metis

lemma bytes_length: "length (concat (map (pkt_bytes chipid) fs)) = sum_list (map pkt_size fs)"
  by (induction fs) simp_all

lemma bytes_mod: "sum_list (map pkt_size fs) mod 4 = 0"
proof (induction fs)
  case (Cons p fs)
  then show ?case using pkt_size_mod [of p] by (simp add: mod_add_eq [symmetric])
qed simp

lemma bytes_bound:
  assumes "\<forall>p\<in>set fs. pkt_fits lim p" "int (length fs) \<le> lim"
  shows "sum_list (map pkt_size fs) \<le> MAX_AGGR_TXPKT_LEN"
proof (cases fs)
  case (Cons a list)
  let ?m = "Max (pkt_size ` set fs)"
  have "?m \<in> pkt_size ` set fs" using Cons by (intro Max_in) auto
  then have m: "lim * int ?m \<le> int MAX_AGGR_TXPKT_LEN" using assms(1) by (auto simp: pkt_fits_def)
  have "sum_list (map pkt_size fs) \<le> sum_list (map (\<lambda>_. ?m) fs)"
    by (rule sum_list_mono) (simp add: Max_ge)
  then have "int (sum_list (map pkt_size fs)) \<le> int (length fs) * int ?m" by (simp add: sum_list_triv flip: of_nat_mult)
  also have "\<dots> \<le> lim * int ?m" using assms(2) by (simp add: mult_right_mono)
  finally show ?thesis using m by linarith
qed simp

lemma flush_effect:
  assumes b: "buf_ok chipid lim fs s" and n: "int (length fs) \<le> lim" and up: "bus_up s"
  obtains w s' where "flush_aggr s = Inr s'" "buf_ok chipid lim [] s'" "rest s' = rest s" "tx_pktcnt s' = tx_pktcnt s"
    "wire s' = wire s @ [w]" "fw_avail_bufcnt s' = fw_avail_bufcnt s - int (length fs)"
    "sdio_unpack w = map (\<lambda>p. (1, pkt_body chipid p)) fs" "length w mod 512 = 0"
proof -
  let ?s = "s\<lparr>fw_avail_bufcnt := fw_avail_bufcnt s - aggr_count s\<rparr>"
  have t: "tail s = sum_list (map pkt_size fs)" using b by (simp add: buf_ok_def bytes_length)
  have pre: "tail ?s mod 4 = 0" "tail ?s \<le> length (aggr_buf ?s)" "length (aggr_buf ?s) = MAX_AGGR_TXPKT_LEN" "bus_up ?s"
    using b up bytes_mod [of fs] bytes_bound [of fs lim] n t by (auto simp: buf_ok_def)
  obtain mem r where e: "aicwf_sdio_aggr_send ?s = Inr (?s\<lparr>aggr_buf := mem, tail := 0, aggr_count := 0,
      wire := wire ?s @ [take (tail ?s) (aggr_buf ?s) @ r]\<rparr>)" and mem: "length mem = MAX_AGGR_TXPKT_LEN"
      and r: "r = [] \<or> hdr_len r = 0" "(tail ?s + length r) mod 512 = 0"
    using aggr_send_step [OF pre] by (elim exE conjE) (rule that)
  define w where "w = concat (map (pkt_bytes chipid) fs) @ r"
  have w: "sdio_unpack w = map (\<lambda>p. (1, pkt_body chipid p)) fs" "length w mod 512 = 0"
    using b r unpack_frames [of fs lim r chipid] by (simp_all add: w_def buf_ok_def)
  define s' where "s' = ?s\<lparr>aggr_buf := mem, tail := 0, aggr_count := 0, wire := wire ?s @ [take (tail ?s) (aggr_buf ?s) @ r]\<rparr>"
  have "flush_aggr s = Inr s'" using e by (simp add: flush_aggr_def s'_def)
  moreover have "take (tail s) (aggr_buf s) = concat (map (pkt_bytes chipid) fs)" using b unfolding buf_ok_def by blast
  then have "wire s' = wire s @ [w]" by (simp add: s'_def w_def)
  moreover have "buf_ok chipid lim [] s'" "rest s' = rest s" "tx_pktcnt s' = tx_pktcnt s"
      "fw_avail_bufcnt s' = fw_avail_bufcnt s - int (length fs)"
    using b mem by (simp_all add: s'_def buf_ok_def rest_def)
  ultimately show ?thesis using w by (intro that)
qed

lemma aggr_effect:
  assumes b: "buf_ok chipid lim fs s" and n: "int (length fs) < lim" and p: "pkt_fits lim p"
  obtains s' where "aicwf_sdio_aggr chipid p s = Inr s'" "buf_ok chipid lim (fs @ [p]) s'" "rest s' = rest s"
    "tx_pktcnt s' = tx_pktcnt s" "wire s' = wire s" "fw_avail_bufcnt s' = fw_avail_bufcnt s"
proof -
  have t: "tail s = sum_list (map pkt_size fs)" using b by (simp add: buf_ok_def bytes_length)
  have "sum_list (map pkt_size (fs @ [p])) \<le> MAX_AGGR_TXPKT_LEN"
    using b n p by (intro bytes_bound [where lim = lim]) (auto simp: buf_ok_def)
  then have pre: "tail s mod 4 = 0" "tail s + pkt_size p \<le> length (aggr_buf s)"
    using b bytes_mod [of fs] t by (auto simp: buf_ok_def)
  show ?thesis
    by (rule that, rule aggr_step [OF pre]) (use b p pre in \<open>auto simp: buf_ok_def rest_def\<close>)
qed

lemma flush_down:
  assumes b: "buf_ok chipid lim fs s" and n: "int (length fs) \<le> lim" and up: "\<not> bus_up s"
  obtains s' where "flush_aggr s = Inr s'" "buf_ok chipid lim [] s'" "rest s' = rest s" "tx_pktcnt s' = tx_pktcnt s"
proof -
  have t: "tail s = sum_list (map pkt_size fs)" using b by (simp add: buf_ok_def bytes_length)
  have max: "MAX_AGGR_TXPKT_LEN = 98304" by (simp add: MAX_AGGR_TXPKT_LEN_def)
  have pre: "tail s mod 4 = 0" "tail s \<le> 98304" "length (aggr_buf s) = 98304"
    using b bytes_mod [of fs] bytes_bound [of fs lim] n t max by (auto simp: buf_ok_def)
  have "tail s + 4 \<le> 98304" if "tail s mod 512 \<noteq> 0"
  proof -
    have "tail s \<noteq> 98304" using that by auto
    with pre show ?thesis by presburger
  qed
  then show ?thesis
    using pre up b max
    by (intro that [OF _ _ _ _, of "if tail s mod 512 = 0 then s\<lparr>fw_avail_bufcnt := fw_avail_bufcnt s - aggr_count s, tail := 0, aggr_count := 0\<rparr>
        else s\<lparr>fw_avail_bufcnt := fw_avail_bufcnt s - aggr_count s, tail := 0, aggr_count := 0,
          aggr_buf := take (tail s) (aggr_buf s) @ replicate 4 0 @ drop (tail s + 4) (aggr_buf s)\<rparr>"])
      (auto simp: flush_aggr_def aicwf_sdio_aggr_send_def aicwf_sdio_txpkt_def aicwf_sdio_aggrbuf_reset_def mem_write_def
        buf_ok_def rest_def)
qed

text \<open>\<open>send_put\<close> while the bus is up: the frame is packed, and then all packed frames are written or stay.\<close>

lemma put_effect:
  assumes b: "buf_ok chipid lim fs s" and n: "int (length fs) < lim" and p: "pkt_fits lim p" and up: "bus_up s"
    and full: "int (length fs) < fw_avail_bufcnt s - 2"
  obtains (written) w s' where "send_put chipid lim txnow p s = Inr s'" "buf_ok chipid lim [] s'" "rest s' = rest s"
      "tx_pktcnt s' = tx_pktcnt s - 1" "wire s' = wire s @ [w]" "write_ok chipid lim w (fs @ [p])"
      "fw_avail_bufcnt s' = fw_avail_bufcnt s - int (length (fs @ [p]))"
    | (kept) s' where "send_put chipid lim txnow p s = Inr s'" "buf_ok chipid lim (fs @ [p]) s'" "rest s' = rest s"
      "tx_pktcnt s' = tx_pktcnt s - 1" "wire s' = wire s" "fw_avail_bufcnt s' = fw_avail_bufcnt s"
      "tx_pktcnt s \<noteq> 1" "\<not> txnow" "int (length (fs @ [p])) < fw_avail_bufcnt s - 2" "int (length (fs @ [p])) < lim"
proof -
  obtain s1 where s1: "aicwf_sdio_aggr chipid p s = Inr s1" "buf_ok chipid lim (fs @ [p]) s1" "rest s1 = rest s"
      "tx_pktcnt s1 = tx_pktcnt s" "wire s1 = wire s" "fw_avail_bufcnt s1 = fw_avail_bufcnt s"
    using aggr_effect [OF b n p] .
  have up1: "bus_up s1" using s1(3) up by (simp add: rest_def)
  have c1: "aggr_count s1 = int (length (fs @ [p]))" using s1(2) by (simp add: buf_ok_def)
  have n1: "int (length (fs @ [p])) \<le> lim" using n by simp
  show ?thesis
  proof (cases "tx_pktcnt s1 = 1 \<or> txnow \<or> aggr_full lim s1")
    case True
    obtain w s2 where s2: "flush_aggr s1 = Inr s2" "buf_ok chipid lim [] s2" "rest s2 = rest s1" "tx_pktcnt s2 = tx_pktcnt s1"
        "wire s2 = wire s1 @ [w]" "fw_avail_bufcnt s2 = fw_avail_bufcnt s1 - int (length (fs @ [p]))"
        "sdio_unpack w = map (\<lambda>p. (1, pkt_body chipid p)) (fs @ [p])" "length w mod 512 = 0"
      using flush_effect [OF s1(2) n1 up1] .
    have "send_put chipid lim txnow p s = Inr (s2\<lparr>tx_pktcnt := tx_pktcnt s2 - 1\<rparr>)"
      using True s1(1) s2(1) by (simp add: send_put_def)
    then show ?thesis
      by (rule written) (use s1 s2 n1 in \<open>simp_all add: rest_def buf_ok_def write_ok_def\<close>)
  next
    case False
    have "send_put chipid lim txnow p s = Inr (s1\<lparr>tx_pktcnt := tx_pktcnt s1 - 1\<rparr>)"
      using False s1(1) by (simp add: send_put_def)
    then show ?thesis
    proof (rule kept)
      show "buf_ok chipid lim (fs @ [p]) (s1\<lparr>tx_pktcnt := tx_pktcnt s1 - 1\<rparr>)"
        by (rule buf_ok_frame [OF s1(2)]) simp_all
    qed (use False s1 c1 full in \<open>auto simp: rest_def aggr_full_def\<close>)
  qed
qed

lemma put_down:
  assumes b: "buf_ok chipid lim fs s" and n: "int (length fs) < lim" and p: "pkt_fits lim p" and up: "\<not> bus_up s"
  obtains s' gs where "send_put chipid lim txnow p s = Inr s'" "buf_ok chipid lim gs s'" "rest s' = rest s"
    "gs = [] \<or> gs = fs @ [p]"
proof -
  obtain s1 where s1: "aicwf_sdio_aggr chipid p s = Inr s1" "buf_ok chipid lim (fs @ [p]) s1" "rest s1 = rest s"
    using aggr_effect [OF b n p] .
  have "\<not> bus_up s1" "int (length (fs @ [p])) \<le> lim" using s1(3) up n by (simp_all add: rest_def)
  then obtain s2 where s2: "flush_aggr s1 = Inr s2" "buf_ok chipid lim [] s2" "rest s2 = rest s1"
    using flush_down [OF s1(2)] by metis
  show ?thesis
  proof (cases "tx_pktcnt s1 = 1 \<or> txnow \<or> aggr_full lim s1")
    case True
    then show ?thesis using s1 s2 that [of "s2\<lparr>tx_pktcnt := tx_pktcnt s2 - 1\<rparr>" "[]"]
      by (simp add: send_put_def rest_def buf_ok_def)
  next
    case False
    have "buf_ok chipid lim (fs @ [p]) (s1\<lparr>tx_pktcnt := tx_pktcnt s1 - 1\<rparr>)" by (rule buf_ok_frame [OF s1(2)]) simp_all
    then show ?thesis using False s1 that [of "s1\<lparr>tx_pktcnt := tx_pktcnt s1 - 1\<rparr>" "fs @ [p]"]
      by (simp add: send_put_def rest_def)
  qed
qed

text \<open>\<open>send_take\<close> in the loop: a frame is taken, or all packed frames are written.\<close>

lemma take_effect:
  assumes b: "buf_ok chipid lim fs s" and lim: "0 < lim" and up: "bus_up s" and av: "fw_avail_bufcnt s > 2"
    and fs: "int (length fs) \<le> fw_avail_bufcnt s - 2" "int (length fs) \<le> lim"
  obtains (taken) r q where "send_take lim s = Inr (r, s\<lparr>txq := q\<rparr>)" "aicwf_frame_dequeue (txq s) = (r, q)"
      "int (length fs) < fw_avail_bufcnt s - 2" "int (length fs) < lim"
    | (written) w s' where "send_take lim s = Inr (None, s')" "buf_ok chipid lim [] s'" "rest s' = rest s"
      "tx_pktcnt s' = tx_pktcnt s" "wire s' = wire s @ [w]" "write_ok chipid lim w fs"
      "fw_avail_bufcnt s' = fw_avail_bufcnt s - int (length fs)" "fs \<noteq> []"
proof -
  have c: "aggr_count s = int (length fs)" and t: "tail s = sum_list (map pkt_size fs)"
    using b by (simp_all add: buf_ok_def bytes_length)
  have t0: "tail s = 0 \<longleftrightarrow> fs = []" using t by (cases fs) (simp_all add: pkt_size_def)
  then have ok: "\<not> (aggr_count s = 0 \<and> tail s \<noteq> 0 \<or> aggr_count s \<noteq> 0 \<and> tail s = 0)" using c by auto
  show ?thesis
  proof (cases "aggr_full lim s")
    case True
    then have ne: "fs \<noteq> []" using c av lim by (auto simp: aggr_full_def)
    obtain w s' where w: "flush_aggr s = Inr s'" "buf_ok chipid lim [] s'" "rest s' = rest s" "tx_pktcnt s' = tx_pktcnt s"
        "wire s' = wire s @ [w]" "fw_avail_bufcnt s' = fw_avail_bufcnt s - int (length fs)"
        "sdio_unpack w = map (\<lambda>p. (1, pkt_body chipid p)) fs" "length w mod 512 = 0"
      using flush_effect [OF b fs(2) up] .
    have "aggr_count s > 0" using c ne by simp
    then have "send_take lim s = Inr (None, s')" unfolding send_take_def if_not_P [OF ok] using True w(1) by simp
    then show ?thesis by (rule written) (use w ne fs in \<open>simp_all add: write_ok_def\<close>)
  next
    case False
    obtain r q where d: "aicwf_frame_dequeue (txq s) = (r, q)" by force
    then have "send_take lim s = Inr (r, s\<lparr>txq := q\<rparr>)" unfolding send_take_def if_not_P [OF ok] if_not_P [OF False] by simp
    then show ?thesis by (rule taken) (use d False c fs in \<open>auto simp: aggr_full_def\<close>)
  qed
qed

section \<open>Invariant\<close>

definition mem_inv :: "AICWF_IC \<Rightarrow> int \<Rightarrow> tx_sys \<Rightarrow> bool" where
  "mem_inv chipid lim y \<longleftrightarrow>
     buf_ok chipid lim (packed y) (tx y) \<and> int (length (packed y)) \<le> lim \<and>
     length (cmd_buf (tx y)) = CMD_BUF_MAX \<and> unat (ucast (cmd_len (tx y)) :: u16) \<le> 1528 \<and>
     (\<forall>b p. pc y = Tx_Taken b p \<longrightarrow> pkt_fits lim p \<and> int (length (packed y)) < lim)"

definition queue_ok :: "int \<Rightarrow> sdio_pkt frame_queue \<Rightarrow> bool" where
  "queue_ok lim q \<longleftrightarrow> frame_queue_inv q \<and> num_prio q = 8 \<and>
     (\<forall>i. \<forall>p\<in>set (queuelist q i). p_priority p mod 8 = i \<and> pkt_fits lim p)"

definition order_ok :: "tx_sys \<Rightarrow> bool" where
  "order_ok y \<longleftrightarrow> (\<forall>i < 8. filter (\<lambda>p. p_priority p mod 8 = i) (accepted y) =
     filter (\<lambda>p. p_priority p mod 8 = i) (concat (sent y) @ packed y @ taken (pc y)) @ queuelist (txq (tx y)) i)"

definition flow_ok :: "int \<Rightarrow> tx_sys \<Rightarrow> bool" where
  "flow_ok lim y \<longleftrightarrow>
     tx_pktcnt (tx y) = int (unat (qcnt (txq (tx y)))) + int (length (taken (pc y))) \<and>
     fw_avail_bufcnt (tx y) = granted y - int (since y) \<and> (since y = 0 \<or> int (since y) \<le> granted y - 2) \<and>
     (packed y \<noteq> [] \<longrightarrow> int (length (packed y)) < fw_avail_bufcnt (tx y) - 2 \<and> int (length (packed y)) < lim \<and>
        (pc y = Tx_Loop \<and> qcnt (txq (tx y)) \<noteq> 0 \<or> taken (pc y) \<noteq> [])) \<and>
     (taken (pc y) \<noteq> [] \<longrightarrow> int (length (packed y)) < fw_avail_bufcnt (tx y) - 2)"

definition wake_ok :: "tx_sys \<Rightarrow> bool" where
  "wake_ok y \<longleftrightarrow>
     (let pend = bustx_trgg (tx y) + completing y > 0; data = tx_pktcnt (tx y) > 0; cmd = cmd_txstate (tx y);
          act = (pwr_state (tx y) = SDIO_ACTIVE_ST)
      in case pc y of
           Tx_Wait \<Rightarrow> data \<or> cmd \<longrightarrow> pend
         | Tx_Cmd \<Rightarrow> act \<and> (data \<or> cmd)
         | Tx_Data \<Rightarrow> (cmd \<longrightarrow> pend) \<and> (data \<and> \<not> act \<longrightarrow> pend)
         | Tx_Loop \<Rightarrow> cmd \<longrightarrow> pend
         | Tx_Taken txnow p \<Rightarrow> cmd \<or> txnow \<longrightarrow> pend
         | Tx_End \<Rightarrow> False)"

definition wire_ok :: "AICWF_IC \<Rightarrow> int \<Rightarrow> tx_sys \<Rightarrow> bool" where
  "wire_ok chipid lim y \<longleftrightarrow> list_all2 (write_ok chipid lim) (wire (tx y)) (sent y)"

definition run_inv :: "AICWF_IC \<Rightarrow> int \<Rightarrow> tx_sys \<Rightarrow> bool" where
  "run_inv chipid lim y \<longleftrightarrow> queue_ok lim (txq (tx y)) \<and> order_ok y \<and> flow_ok lim y \<and> wake_ok y \<and> wire_ok chipid lim y"

definition sdio_inv :: "AICWF_IC \<Rightarrow> int \<Rightarrow> tx_sys \<Rightarrow> bool" where
  "sdio_inv chipid lim y \<longleftrightarrow>
     (chipid \<noteq> PRODUCT_ID_AIC8800DW \<and> 0 < lim \<longrightarrow> mem_inv chipid lim y \<and> (bus_up (tx y) \<longrightarrow> run_inv chipid lim y))"

section \<open>Preservation\<close>

text \<open>Power control changes the power state and its timer only.\<close>

lemma timer_fields [tx_simps]:
  "txq (aicwf_sdio_pwrctl_timer b s) = txq s" "tx_pktcnt (aicwf_sdio_pwrctl_timer b s) = tx_pktcnt s"
  "aggr_buf (aicwf_sdio_pwrctl_timer b s) = aggr_buf s" "tail (aicwf_sdio_pwrctl_timer b s) = tail s"
  "aggr_count (aicwf_sdio_pwrctl_timer b s) = aggr_count s" "fw_avail_bufcnt (aicwf_sdio_pwrctl_timer b s) = fw_avail_bufcnt s"
  "cmd_txstate (aicwf_sdio_pwrctl_timer b s) = cmd_txstate s" "cmd_buf (aicwf_sdio_pwrctl_timer b s) = cmd_buf s"
  "cmd_len (aicwf_sdio_pwrctl_timer b s) = cmd_len s" "bus_up (aicwf_sdio_pwrctl_timer b s) = bus_up s"
  "pwr_state (aicwf_sdio_pwrctl_timer b s) = pwr_state s" "bustx_trgg (aicwf_sdio_pwrctl_timer b s) = bustx_trgg s"
  "wire (aicwf_sdio_pwrctl_timer b s) = wire s"
  by (simp_all add: aicwf_sdio_pwrctl_timer_def)

lemmas pwr_defs = aicwf_sdio_pwr_stctl_def aicwf_sdio_wakeup_def aicwf_sdio_sleep_allow_def

lemma pwr_fields [tx_simps]:
  fixes s :: aicwf_tx_priv and t :: sdio_pwr and wr quiet :: bool and rd :: "nat \<Rightarrow> u8 option" and rx_cnt :: int
  defines "s' \<equiv> snd (aicwf_sdio_pwr_stctl t wr rd quiet rx_cnt s)"
  shows "txq s' = txq s" "tx_pktcnt s' = tx_pktcnt s" "aggr_buf s' = aggr_buf s" "tail s' = tail s"
    "aggr_count s' = aggr_count s" "fw_avail_bufcnt s' = fw_avail_bufcnt s" "cmd_txstate s' = cmd_txstate s"
    "cmd_buf s' = cmd_buf s" "cmd_len s' = cmd_len s" "bus_up s' = bus_up s" "bustx_trgg s' = bustx_trgg s" "wire s' = wire s"
  unfolding s'_def by (cases t; simp add: pwr_defs tx_simps)+

lemma thread_fields [tx_simps]:
  fixes s :: aicwf_tx_priv and quiet :: bool and rx_cnt :: int
  defines "s' \<equiv> aicwf_sdio_pwrctl_thread quiet rx_cnt s"
  shows "txq s' = txq s" "tx_pktcnt s' = tx_pktcnt s" "aggr_buf s' = aggr_buf s" "tail s' = tail s"
    "aggr_count s' = aggr_count s" "fw_avail_bufcnt s' = fw_avail_bufcnt s" "cmd_txstate s' = cmd_txstate s"
    "cmd_buf s' = cmd_buf s" "cmd_len s' = cmd_len s" "bus_up s' = bus_up s" "bustx_trgg s' = bustx_trgg s" "wire s' = wire s"
  unfolding s'_def by (simp_all add: aicwf_sdio_pwrctl_thread_def tx_simps)

lemma stop_fields [tx_simps]:
  fixes s :: aicwf_tx_priv and quiet :: bool and rx_cnt :: int
  defines "s' \<equiv> aicwf_sdio_bus_stop quiet rx_cnt s"
  shows "aggr_buf s' = aggr_buf s" "tail s' = tail s" "aggr_count s' = aggr_count s"
    "cmd_buf s' = cmd_buf s" "cmd_len s' = cmd_len s" "\<not> bus_up s'"
  unfolding s'_def
  by (simp_all add: aicwf_sdio_bus_stop_def Let_def tx_simps split: prod.splits)

lemma grant_fields [tx_simps]:
  fixes s :: aicwf_tx_priv and chipid :: AICWF_IC and fc :: "nat \<Rightarrow> u8 option"
  defines "s' \<equiv> aicwf_sdio_flow_ctrl chipid fc s"
  shows "txq s' = txq s" "tx_pktcnt s' = tx_pktcnt s" "aggr_buf s' = aggr_buf s" "tail s' = tail s"
    "aggr_count s' = aggr_count s" "cmd_txstate s' = cmd_txstate s" "pwr_state s' = pwr_state s"
    "cmd_buf s' = cmd_buf s" "cmd_len s' = cmd_len s" "bus_up s' = bus_up s" "bustx_trgg s' = bustx_trgg s" "wire s' = wire s"
  unfolding s'_def by (simp_all add: aicwf_sdio_flow_ctrl_def split: prod.splits)

lemma buf_ok_fields [tx_simps]:
  "buf_ok chipid lim fs (aicwf_sdio_pwrctl_thread quiet rx_cnt s) = buf_ok chipid lim fs s"
  "buf_ok chipid lim fs (snd (aicwf_sdio_pwr_stctl t wr rd quiet rx_cnt s)) = buf_ok chipid lim fs s"
  "buf_ok chipid lim fs (aicwf_sdio_bus_stop quiet rx_cnt s) = buf_ok chipid lim fs s"
  "buf_ok chipid lim fs (aicwf_sdio_flow_ctrl chipid' fc s) = buf_ok chipid lim fs s"
  "buf_ok chipid lim fs (s\<lparr>bustx_trgg := n\<rparr>) = buf_ok chipid lim fs s"
  by (simp_all only: buf_ok_def tx_simps) simp

subsection \<open>The queue\<close>

lemma queue_count: "frame_queue_inv q \<Longrightarrow> unat (qcnt q) = length (by_prio (unat (num_prio q)) (queuelist q))"
  by (simp add: frame_queue_inv_def)

lemma queue_ok_enq:
  assumes q: "queue_ok lim q" and e: "aicwf_frame_enq (p_priority p mod 8) p q = (True, q')" and p: "pkt_fits lim p"
  shows "queue_ok lim q'" "queuelist q' = (queuelist q)(p_priority p mod 8 := queuelist q (p_priority p mod 8) @ [p])"
    "unat (qcnt q') = unat (qcnt q) + 1"
proof -
  let ?i = "p_priority p mod 8"
  have i: "?i < unat (num_prio q)" using q by (simp add: queue_ok_def)
  have inv: "frame_queue_inv q'" "num_prio q' = num_prio q" "queuelist q' = (queuelist q)(?i := queuelist q ?i @ [p])"
    using inv_enq [OF _ i e] q by (simp_all add: queue_ok_def)
  then show "queue_ok lim q'" "queuelist q' = (queuelist q)(?i := queuelist q ?i @ [p])"
    using q p by (auto simp: queue_ok_def)
  show "unat (qcnt q') = unat (qcnt q) + 1"
    using queue_count [of q] queue_count [OF inv(1)] inv(2,3) q by_prio_length_upd [OF i, of "queuelist q" "queuelist q ?i @ [p]"]
    by (simp add: queue_ok_def)
qed

lemma queue_ok_deq:
  assumes q: "queue_ok lim q" and d: "aicwf_frame_dequeue q = (Some p, q')"
  shows "queue_ok lim q'" "pkt_fits lim p" "queuelist q (p_priority p mod 8) = p # queuelist q' (p_priority p mod 8)"
    "j \<noteq> p_priority p mod 8 \<Longrightarrow> queuelist q' j = queuelist q j" "unat (qcnt q) = unat (qcnt q') + 1"
proof -
  have "frame_queue_inv q" using q by (simp add: queue_ok_def)
  from inv_deq [OF this d] obtain i where inv: "frame_queue_inv q'" "num_prio q' = num_prio q" and i: "i < unat (num_prio q)"
      "queuelist q i = p # queuelist q' i" "\<And>j. j \<noteq> i \<Longrightarrow> queuelist q' j = queuelist q j" "\<And>j. j > i \<Longrightarrow> queuelist q j = []"
    by blast
  have "p \<in> set (queuelist q i)" using i(2) by simp
  then have p: "p_priority p mod 8 = i" "pkt_fits lim p" using q by (auto simp: queue_ok_def)
  show "pkt_fits lim p" "queuelist q (p_priority p mod 8) = p # queuelist q' (p_priority p mod 8)"
    "j \<noteq> p_priority p mod 8 \<Longrightarrow> queuelist q' j = queuelist q j" using p i by auto
  have sub: "set (queuelist q' k) \<subseteq> set (queuelist q k)" for k using i(2,3) by (cases "k = i") auto
  show "queue_ok lim q'"
    unfolding queue_ok_def
  proof (intro conjI allI ballI)
    show "frame_queue_inv q'" "num_prio q' = 8" using inv q by (simp_all add: queue_ok_def)
    fix k x assume "x \<in> set (queuelist q' k)"
    then have "x \<in> set (queuelist q k)" using sub by blast
    then show "p_priority x mod 8 = k" "pkt_fits lim x" using q by (simp_all add: queue_ok_def)
  qed
  have "by_prio (unat (num_prio q)) (queuelist q) = p # by_prio (unat (num_prio q)) (queuelist q')"
    using i by (intro by_prio_head [where i = i])
  then show "unat (qcnt q) = unat (qcnt q') + 1"
    using queue_count [OF inv(1)] queue_count [of q] inv(2) q by (simp add: queue_ok_def)
qed

lemma queue_ok_empty: "queue_ok lim q \<Longrightarrow> aicwf_is_framequeue_empty q \<longleftrightarrow> qcnt q = 0"
  by (simp add: queue_ok_def is_empty_iff)

lemma queue_deq_None: "queue_ok lim q \<Longrightarrow> qcnt q \<noteq> 0 \<Longrightarrow> aicwf_frame_dequeue q \<noteq> (None, q')"
proof
  assume q: "queue_ok lim q" and n: "qcnt q \<noteq> 0" and d: "aicwf_frame_dequeue q = (None, q')"
  then have "\<forall>i < unat (num_prio q). queuelist q i = []" using deq_empty [of q q'] by (simp add: queue_ok_def)
  then have "by_prio (unat (num_prio q)) (queuelist q) = []" by (simp add: by_prio_Nil)
  then have "unat (qcnt q) = 0" using queue_count [of q] q by (simp add: queue_ok_def)
  then show False using n by (simp add: unat_eq_zero)
qed

subsection \<open>Callers and power\<close>

lemma run_frame:
  assumes r: "run_inv chipid lim y" and w: "wake_ok z" and t: "txq (tx z) = txq (tx y)" "tx_pktcnt (tx z) = tx_pktcnt (tx y)"
      "fw_avail_bufcnt (tx z) = fw_avail_bufcnt (tx y)" "wire (tx z) = wire (tx y)"
    and l: "accepted z = accepted y" "packed z = packed y" "sent z = sent y" "granted z = granted y" "since z = since y"
    and p: "taken (pc z) = taken (pc y)" "packed y = [] \<or> pc z = pc y"
  shows "run_inv chipid lim z"
proof -
  have "order_ok z" using r by (simp add: run_inv_def order_ok_def t l p)
  moreover have f: "flow_ok lim y" using r by (simp add: run_inv_def)
  have "flow_ok lim z" unfolding flow_ok_def t l p(1) using f p(2) unfolding flow_ok_def by metis
  moreover have "wire_ok chipid lim z" using r by (simp add: run_inv_def wire_ok_def t l)
  ultimately show ?thesis using r w by (simp add: run_inv_def t)
qed

lemma txdata_ok:
  assumes "aicwf_sdio_bus_txdata p s = (0, s')"
  obtains q where "bus_up s" "aicwf_frame_enq (p_priority p mod 8) p (txq s) = (True, q)"
    "s' = s\<lparr>txq := q, tx_pktcnt := tx_pktcnt s + 1, bustx_trgg := bustx_trgg s + 1\<rparr>"
  using assms that by (auto simp: aicwf_sdio_bus_txdata_def split: if_splits prod.splits bool.splits)

lemma inv_enq_step:
  assumes inv: "mem_inv chipid lim y" "run_inv chipid lim y" and p: "pkt_fits lim p"
    and e: "aicwf_sdio_bus_txdata p (tx y) = (0, s)"
  defines "z \<equiv> y\<lparr>tx := s\<lparr>bustx_trgg := bustx_trgg (tx y)\<rparr>, completing := Suc (completing y), accepted := accepted y @ [p]\<rparr>"
  shows "mem_inv chipid lim z \<and> run_inv chipid lim z"
proof -
  obtain q where q: "bus_up (tx y)" "aicwf_frame_enq (p_priority p mod 8) p (txq (tx y)) = (True, q)"
      "s = (tx y)\<lparr>txq := q, tx_pktcnt := tx_pktcnt (tx y) + 1, bustx_trgg := bustx_trgg (tx y) + 1\<rparr>"
    using txdata_ok [OF e] .
  have qo: "queue_ok lim (txq (tx y))" using inv by (simp add: run_inv_def)
  note ql = queue_ok_enq [OF qo q(2) p]
  have "buf_ok chipid lim (packed z) (tx z)"
    using inv(1) by - (rule buf_ok_frame [of _ _ _ "tx y"], simp_all add: mem_inv_def z_def q(3))
  then have "mem_inv chipid lim z" using inv(1) by (simp add: mem_inv_def z_def q(3))
  moreover have "order_ok z" using inv(2) by (auto simp: run_inv_def order_ok_def z_def q(3) ql(2))
  moreover have "qcnt q \<noteq> 0" using ql(3) by auto
  then have "flow_ok lim z" using inv(2) ql(3) by (auto simp: run_inv_def flow_ok_def z_def q(3))
  moreover have "wake_ok z" using inv(2) by (auto simp: run_inv_def wake_ok_def z_def q(3) Let_def split: tx_pc.splits)
  moreover have "wire_ok chipid lim z" using inv(2) by (simp add: run_inv_def wire_ok_def z_def q(3))
  ultimately show ?thesis using ql(1) by (simp add: run_inv_def z_def q(3))
qed

lemma inv_txmsg_step:
  assumes inv: "mem_inv chipid lim y" "bus_up (tx y) \<longrightarrow> run_inv chipid lim y" and m: "length msg = CMD_BUF_MAX" "unat n \<le> 1528"
    and e: "aicwf_sdio_bus_txmsg msg n (tx y) = (r, s)"
  defines "z \<equiv> y\<lparr>tx := s\<lparr>bustx_trgg := bustx_trgg (tx y)\<rparr>, completing := (if r = 0 then Suc (completing y) else completing y)\<rparr>"
  shows "mem_inv chipid lim z \<and> (bus_up (tx z) \<longrightarrow> run_inv chipid lim z)"
proof -
  have s: "tx z = (tx y)\<lparr>cmd_txstate := True, cmd_tx_succ := False, cmd_buf := msg, cmd_len := n\<rparr>"
      "bus_up (tx y) \<Longrightarrow> completing z = Suc (completing y)"
    using e by (cases "tx y"; auto simp: aicwf_sdio_bus_txmsg_def Let_def z_def split: if_splits)+
  have f: "pc z = pc y" "packed z = packed y" "accepted z = accepted y" "sent z = sent y" "granted z = granted y" "since z = since y"
    by (simp_all add: z_def)
  have "unat (ucast n :: u16) \<le> 1528" using m(2) by (simp add: unsigned_ucast_eq take_bit_nat_eq_self)
  moreover have "buf_ok chipid lim (packed z) (tx z)"
    using inv(1) by - (rule buf_ok_frame [of _ _ _ "tx y"], simp_all add: mem_inv_def s f)
  ultimately have "mem_inv chipid lim z" using inv(1) m by (simp add: mem_inv_def s f)
  moreover have "run_inv chipid lim z" if "bus_up (tx z)"
  proof -
    have up: "bus_up (tx y)" using that s(1) by simp
    with inv(2) have r: "run_inv chipid lim y" by blast
    then have "wake_ok z" using s(2) [OF up] by (auto simp: run_inv_def wake_ok_def s(1) f Let_def split: tx_pc.splits)
    then show ?thesis by - (rule run_frame [OF r], simp_all add: s(1) f)
  qed
  ultimately show ?thesis by blast
qed

lemma inv_power_step:
  fixes quiet :: bool and rx_cnt :: int
  assumes inv: "mem_inv chipid lim y" "bus_up (tx y) \<longrightarrow> run_inv chipid lim y"
  defines "z \<equiv> y\<lparr>tx := aicwf_sdio_pwrctl_thread quiet rx_cnt (tx y)\<rparr>"
  shows "mem_inv chipid lim z \<and> (bus_up (tx z) \<longrightarrow> run_inv chipid lim z)"
proof -
  have "mem_inv chipid lim z" using inv(1) by (simp add: mem_inv_def z_def tx_simps)
  moreover have "run_inv chipid lim z" if "bus_up (tx z)"
  proof -
    have r: "run_inv chipid lim y" using inv(2) that by (simp add: z_def tx_simps)
    have "pwr_state (tx z) = pwr_state (tx y) \<or> \<not> tx_pktcnt (tx y) > 0 \<and> \<not> cmd_txstate (tx y)"
      by (auto simp: z_def aicwf_sdio_pwrctl_thread_def tx_simps)
    then have "wake_ok z" using r by (auto simp: run_inv_def wake_ok_def z_def tx_simps Let_def split: tx_pc.splits)
    then show ?thesis by - (rule run_frame [OF r], simp_all add: z_def tx_simps)
  qed
  ultimately show ?thesis by blast
qed

lemma stctl_active: "bus_up s \<Longrightarrow> pwr_state (snd (aicwf_sdio_pwr_stctl SDIO_ACTIVE_ST wr rd quiet rx_cnt s)) = SDIO_ACTIVE_ST"
  by (cases "pwr_state s") (auto simp: pwr_defs tx_simps)

lemma inv_active_step:
  fixes wr quiet :: bool and rd :: "nat \<Rightarrow> u8 option" and rx_cnt :: int
  assumes inv: "mem_inv chipid lim y" "bus_up (tx y) \<longrightarrow> run_inv chipid lim y"
  defines "z \<equiv> y\<lparr>tx := snd (aicwf_sdio_pwr_stctl SDIO_ACTIVE_ST wr rd quiet rx_cnt (tx y))\<rparr>"
  shows "mem_inv chipid lim z \<and> (bus_up (tx z) \<longrightarrow> run_inv chipid lim z)"
proof -
  have "mem_inv chipid lim z" using inv(1) by (simp add: mem_inv_def z_def tx_simps)
  moreover have "run_inv chipid lim z" if "bus_up (tx z)"
  proof -
    have r: "run_inv chipid lim y" "bus_up (tx y)" using inv(2) that by (simp_all add: z_def tx_simps)
    then have "wake_ok z" by (auto simp: run_inv_def wake_ok_def z_def tx_simps stctl_active Let_def split: tx_pc.splits)
    then show ?thesis by - (rule run_frame [OF r(1)], simp_all add: z_def tx_simps)
  qed
  ultimately show ?thesis by blast
qed

subsection \<open>The thread\<close>

lemma inv_wake_step:
  fixes wr :: bool and rd :: "nat \<Rightarrow> u8 option"
  assumes inv: "mem_inv chipid lim y" "run_inv chipid lim y" and pc: "pc y = Tx_Wait" and n: "bustx_trgg (tx y) = Suc n"
    and up: "bus_up (tx y)" and work: "tx_pktcnt (tx y) > 0 \<or> cmd_txstate (tx y)"
  defines "z \<equiv> y\<lparr>tx := snd (aicwf_sdio_pwr_stctl SDIO_ACTIVE_ST wr rd True 0 ((tx y)\<lparr>bustx_trgg := n\<rparr>)), pc := Tx_Cmd\<rparr>"
  shows "mem_inv chipid lim z \<and> run_inv chipid lim z"
proof -
  have "mem_inv chipid lim z" using inv(1) pc by (simp add: mem_inv_def z_def tx_simps)
  moreover have "pwr_state (tx z) = SDIO_ACTIVE_ST"
    using up by (cases "pwr_state (tx y)") (simp_all add: z_def pwr_defs tx_simps)
  then have "wake_ok z" using work by (simp add: wake_ok_def z_def tx_simps)
  moreover have "packed y = []" using inv(2) pc by (auto simp: run_inv_def flow_ok_def)
  ultimately show ?thesis using pc by - (rule conjI, assumption, rule run_frame [OF inv(2)], simp_all add: z_def tx_simps)
qed

lemma tx_msg_runs:
  assumes "length (cmd_buf s) = CMD_BUF_MAX" "unat (ucast (cmd_len s) :: u16) \<le> 1528" "chipid \<noteq> PRODUCT_ID_AIC8800DW"
  obtains b w where "aicwf_sdio_tx_msg chipid ok s = Inr (if ok then 0 else - 1,
      s\<lparr>cmd_buf := b, cmd_wire := cmd_wire s @ [w], cmd_txstate := False, cmd_tx_succ := ok\<rparr>)" "length b = CMD_BUF_MAX"
proof -
  define n0 where "n0 = unat (ucast (cmd_len s) :: u16)"
  define n1 where "n1 = (if n0 mod 4 \<noteq> 0 then roundup n0 4 else n0)"
  define n2 where "n2 = (if n1 mod 512 \<noteq> 0 then n1 + 4 else n1)"
  define len where "len = (if n1 mod 512 \<noteq> 0 then (n2 div 512 + 1) * 512 else n1)"
  have max: "CMD_BUF_MAX = 1536" by (simp add: CMD_BUF_MAX_def)
  have r: "n1 \<le> 1528" "n0 \<le> n1"
    using assms(2) roundup_le [of 4 n0 1528] roundup_ge [of 4 n0] by (auto simp: n1_def n0_def)
  have r2: "n2 \<le> 1532" "n1 \<le> n2" "len \<le> 1536" using r by (auto simp: n2_def len_def)
  define b1 where "b1 = take n0 (cmd_buf s) @ replicate (n1 - n0) 0 @ drop (n0 + (n1 - n0)) (cmd_buf s)"
  define b2 where "b2 = take n1 b1 @ replicate (n2 - n1) 0 @ drop (n1 + (n2 - n1)) b1"
  have w1: "mem_write n0 (replicate (n1 - n0) 0) (cmd_buf s) = Inr b1" and l1: "length b1 = 1536"
    using assms(1) r max by (simp_all add: mem_write_def b1_def)
  have w2: "mem_write n1 (replicate (n2 - n1) 0) b1 = Inr b2" and l2: "length b2 = 1536"
    using l1 r r2 by (simp_all add: mem_write_def b2_def)
  have "aicwf_sdio_tx_msg chipid ok s = Inr (if ok then 0 else - 1,
      s\<lparr>cmd_buf := b2, cmd_wire := cmd_wire s @ [take len b2], cmd_txstate := False, cmd_tx_succ := ok\<rparr>)"
    using assms(3) l2 r2
    unfolding aicwf_sdio_tx_msg_def Let_def SDIOWIFI_FUNC_BLOCKSIZE_def TX_ALIGNMENT_def TAIL_LEN_def
      n0_def [symmetric] n1_def [symmetric] n2_def [symmetric] len_def [symmetric] w1 and_then.simps w2
    by simp
  then show ?thesis using that l2 max by metis
qed

lemma inv_cmd_part:
  assumes inv: "mem_inv chipid lim y" "bus_up (tx y) \<longrightarrow> run_inv chipid lim y" and pc: "pc y = Tx_Cmd"
    and dw: "chipid \<noteq> PRODUCT_ID_AIC8800DW" and e: "tx_cmd chipid ok (tx y) = Inr (go, s)"
  defines "z \<equiv> y\<lparr>tx := s, pc := (if go then Tx_Data else Tx_Wait)\<rparr>"
  shows "mem_inv chipid lim z \<and> (bus_up (tx z) \<longrightarrow> run_inv chipid lim z)"
proof (cases "cmd_txstate (tx y) \<and> pwr_state (tx y) = SDIO_ACTIVE_ST")
  case True
  obtain b w where t: "aicwf_sdio_tx_msg chipid ok (tx y) = Inr (if ok then 0 else - 1,
      (tx y)\<lparr>cmd_buf := b, cmd_wire := cmd_wire (tx y) @ [w], cmd_txstate := False, cmd_tx_succ := ok\<rparr>)" "length b = CMD_BUF_MAX"
    using tx_msg_runs [of "tx y" chipid ok] inv(1) dw unfolding mem_inv_def by metis
  have s: "go" "s = (tx y)\<lparr>cmd_buf := b, cmd_wire := cmd_wire (tx y) @ [w], cmd_txstate := False, cmd_tx_succ := ok\<rparr>"
    using e True t(1) by (auto simp: tx_cmd_def)
  have "buf_ok chipid lim (packed z) (tx z)"
    using inv(1) by - (rule buf_ok_frame [of _ _ _ "tx y"], simp_all add: mem_inv_def z_def s)
  then have "mem_inv chipid lim z" using inv(1) t(2) by (simp add: mem_inv_def z_def s)
  moreover have "run_inv chipid lim z" if "bus_up (tx z)"
  proof -
    have r: "run_inv chipid lim y" using inv(2) that by (simp add: z_def s)
    moreover have "packed y = []" using r pc by (auto simp: run_inv_def flow_ok_def)
    moreover have "wake_ok z" using True by (simp add: wake_ok_def z_def s)
    ultimately show ?thesis using pc by - (rule run_frame [OF r], simp_all add: z_def s)
  qed
  ultimately show ?thesis by blast
next
  case False
  then have s: "s = tx y" "go \<longleftrightarrow> \<not> cmd_txstate (tx y)" using e by (auto simp: tx_cmd_def split: if_splits)
  have "mem_inv chipid lim z" using inv(1) by (simp add: mem_inv_def z_def s)
  moreover have "run_inv chipid lim z" if "bus_up (tx z)"
  proof -
    have r: "run_inv chipid lim y" using inv(2) that by (simp add: z_def s)
    moreover have "packed y = []" using r pc by (auto simp: run_inv_def flow_ok_def)
    moreover have "wake_ok y" using r by (simp add: run_inv_def)
    then have "wake_ok z" using False pc by (auto simp: wake_ok_def z_def s)
    ultimately show ?thesis using pc by - (rule run_frame [OF r], simp_all add: z_def s)
  qed
  ultimately show ?thesis by blast
qed

lemma inv_grant:
  fixes fc :: "nat \<Rightarrow> u8 option"
  assumes inv: "mem_inv chipid lim y" "bus_up (tx y) \<longrightarrow> run_inv chipid lim y" and pc: "pc y = Tx_Data \<or> pc y = Tx_Loop"
    and av: "pc y = Tx_Data \<and> pwr_state (tx y) = SDIO_ACTIVE_ST \<or> fw_avail_bufcnt (tx y) \<le> 2"
  defines "z \<equiv> (read_grant chipid fc y)\<lparr>pc := Tx_Loop\<rparr>"
  shows "mem_inv chipid lim z \<and> (bus_up (tx z) \<longrightarrow> run_inv chipid lim z)"
proof -
  have "mem_inv chipid lim z" using inv(1) by (simp add: mem_inv_def z_def read_grant_def Let_def tx_simps)
  moreover have "run_inv chipid lim z" if "bus_up (tx z)"
  proof -
    have r: "run_inv chipid lim y" using inv(2) that by (simp add: z_def read_grant_def Let_def tx_simps)
    then have "packed y = []" using pc av by (auto simp: run_inv_def flow_ok_def)
    moreover have "wake_ok z" using r pc by (auto simp: run_inv_def wake_ok_def z_def read_grant_def Let_def tx_simps)
    moreover have "flow_ok lim z" using calculation(1) r pc by (auto simp: run_inv_def flow_ok_def z_def read_grant_def Let_def tx_simps)
    ultimately show ?thesis using r pc
      by (auto simp: run_inv_def order_ok_def wire_ok_def z_def read_grant_def Let_def tx_simps)
  qed
  ultimately show ?thesis by blast
qed

lemma inv_leave:
  assumes inv: "mem_inv chipid lim y" "bus_up (tx y) \<longrightarrow> run_inv chipid lim y" and pc: "pc y = Tx_Loop"
    and l: "aicwf_is_framequeue_empty (txq (tx y)) \<or> \<not> bus_up (tx y) \<or> fw_avail_bufcnt (tx y) \<le> 2 \<and> cmd_txstate (tx y)"
  defines "z \<equiv> y\<lparr>pc := Tx_Wait\<rparr>"
  shows "mem_inv chipid lim z \<and> (bus_up (tx z) \<longrightarrow> run_inv chipid lim z)"
proof -
  have "mem_inv chipid lim z" using inv(1) by (simp add: mem_inv_def z_def)
  moreover have "run_inv chipid lim z" if "bus_up (tx z)"
  proof -
    have r: "run_inv chipid lim y" using inv(2) that by (simp add: z_def)
    then have e: "aicwf_is_framequeue_empty (txq (tx y)) \<longleftrightarrow> qcnt (txq (tx y)) = 0"
      using queue_ok_empty unfolding run_inv_def by blast
    with r have "packed y = []" using pc l that by (auto simp: run_inv_def flow_ok_def z_def)
    moreover have "wake_ok y" "flow_ok lim y" using r by (simp_all add: run_inv_def)
    then have "wake_ok z" using pc l that e by (auto simp: wake_ok_def flow_ok_def z_def)
    ultimately show ?thesis using pc by - (rule run_frame [OF r], simp_all add: z_def)
  qed
  ultimately show ?thesis by blast
qed

lemma rest_fields: "rest s' = rest s \<Longrightarrow> txq s' = txq s \<and> cmd_txstate s' = cmd_txstate s \<and> cmd_buf s' = cmd_buf s \<and>
    cmd_len s' = cmd_len s \<and> bus_up s' = bus_up s \<and> pwr_state s' = pwr_state s \<and> bustx_trgg s' = bustx_trgg s"
  by (simp add: rest_def)

text \<open>What holds after the packed frames \<open>fs\<close> have been written or the frame has been kept, in terms of the state \<open>s\<close> it leaves.\<close>

lemma note_written:
  assumes "buf_ok chipid lim [] s" "fs \<noteq> []"
  shows "note_sent fs s y = y\<lparr>tx := s, packed := [], sent := sent y @ [fs], since := since y + length fs\<rparr>"
  using assms by (simp add: note_sent_def buf_ok_def)

lemma note_kept:
  assumes "buf_ok chipid lim fs s"
  shows "note_sent fs s y = y\<lparr>tx := s, packed := fs\<rparr>"
  using assms by (simp add: note_sent_def buf_ok_def)

lemma inv_take:
  assumes inv: "mem_inv chipid lim y" "run_inv chipid lim y" and lim: "0 < lim" and pc: "pc y = Tx_Loop"
    and ne: "\<not> aicwf_is_framequeue_empty (txq (tx y))" and up: "bus_up (tx y)" and av: "fw_avail_bufcnt (tx y) > 2"
    and e: "send_take lim (tx y) = Inr (Some p, s)"
  defines "z \<equiv> y\<lparr>tx := s, pc := Tx_Taken (cmd_txstate (tx y)) p\<rparr>"
  shows "mem_inv chipid lim z \<and> run_inv chipid lim z"
proof -
  have b: "buf_ok chipid lim (packed y) (tx y)" and l: "int (length (packed y)) \<le> lim" using inv(1) by (simp_all add: mem_inv_def)
  have qo: "queue_ok lim (txq (tx y))" and fl: "flow_ok lim y" using inv(2) by (simp_all add: run_inv_def)
  have fs: "int (length (packed y)) \<le> fw_avail_bufcnt (tx y) - 2" using fl av by (cases "packed y = []") (simp_all add: flow_ok_def)
  show ?thesis
  proof (cases rule: take_effect [OF b lim up av fs l, case_names taken written])
    case (taken r q)
    then have r: "r = Some p" and s: "s = (tx y)\<lparr>txq := q\<rparr>" using e by simp_all
    note d = queue_ok_deq [OF qo taken(2) [unfolded r]]
    have "buf_ok chipid lim (packed z) (tx z)" using b by - (rule buf_ok_frame [of _ _ _ "tx y"], simp_all add: z_def s)
    then have "mem_inv chipid lim z" using inv(1) d(2) taken(4) by (simp add: mem_inv_def z_def s)
    moreover have "order_ok z"
    proof -
      have "filter (\<lambda>x. p_priority x mod 8 = i) [p] @ queuelist q i = queuelist (txq (tx y)) i" for i
        using d(3) d(4) [of i] by (cases "p_priority p mod 8 = i") auto
      then show ?thesis using inv(2) pc by (simp add: run_inv_def order_ok_def z_def s)
    qed
    moreover have "flow_ok lim z" using fl d(5) taken(3,4) pc by (simp add: flow_ok_def z_def s)
    moreover have "wake_ok z" using inv(2) pc by (auto simp: run_inv_def wake_ok_def z_def s Let_def)
    moreover have "wire_ok chipid lim z" using inv(2) by (simp add: run_inv_def wire_ok_def z_def s)
    ultimately show ?thesis using d(1) by (simp add: run_inv_def z_def s)
  qed (use e in simp)
qed

lemma inv_flush:
  assumes inv: "mem_inv chipid lim y" "run_inv chipid lim y" and lim: "0 < lim" and pc: "pc y = Tx_Loop"
    and ne: "\<not> aicwf_is_framequeue_empty (txq (tx y))" and up: "bus_up (tx y)" and av: "fw_avail_bufcnt (tx y) > 2"
    and e: "send_take lim (tx y) = Inr (None, s)"
  defines "z \<equiv> (note_sent (packed y) s y)\<lparr>pc := loop_pc (cmd_txstate (tx y))\<rparr>"
  shows "mem_inv chipid lim z \<and> run_inv chipid lim z"
proof -
  have b: "buf_ok chipid lim (packed y) (tx y)" and l: "int (length (packed y)) \<le> lim" using inv(1) by (simp_all add: mem_inv_def)
  have qo: "queue_ok lim (txq (tx y))" and fl: "flow_ok lim y" using inv(2) by (simp_all add: run_inv_def)
  have n: "qcnt (txq (tx y)) \<noteq> 0" using ne queue_ok_empty [OF qo] by simp
  have fs: "int (length (packed y)) \<le> fw_avail_bufcnt (tx y) - 2" using fl av by (cases "packed y = []") (simp_all add: flow_ok_def)
  show ?thesis
  proof (cases rule: take_effect [OF b lim up av fs l, case_names taken written])
    case (taken r q)
    then show ?thesis using e queue_deq_None [OF qo n, of q] by simp
  next
    case (written w s')
    then have s: "s' = s" using e by simp
    note w = written [unfolded s] and rs = rest_fields [OF written(3) [unfolded s]]
    have z: "z = y\<lparr>tx := s, packed := [], sent := sent y @ [packed y], since := since y + length (packed y),
        pc := loop_pc (cmd_txstate (tx y))\<rparr>"
      unfolding z_def note_written [OF w(2,8)] by simp
    have "mem_inv chipid lim z" using inv(1) w(2) lim rs by (simp add: mem_inv_def z loop_pc_def)
    moreover have "order_ok z" using inv(2) pc rs by (simp add: run_inv_def order_ok_def z loop_pc_def)
    moreover have "flow_ok lim z" using fl w(4,7) fs pc rs by (auto simp: flow_ok_def z loop_pc_def)
    moreover have "wake_ok z" using inv(2) pc rs by (auto simp: run_inv_def wake_ok_def z loop_pc_def Let_def)
    moreover have "wire_ok chipid lim z" using inv(2) w(5,6) by (simp add: run_inv_def wire_ok_def z list_all2_appendI)
    ultimately show ?thesis using qo rs by (simp add: run_inv_def z)
  qed
qed

lemma inv_put:
  assumes inv: "mem_inv chipid lim y" "bus_up (tx y) \<longrightarrow> run_inv chipid lim y" and lim: "0 < lim" and pc: "pc y = Tx_Taken txnow p"
    and e: "send_put chipid lim txnow p (tx y) = Inr s"
  defines "z \<equiv> (note_sent (packed y @ [p]) s y)\<lparr>pc := loop_pc txnow\<rparr>"
  shows "mem_inv chipid lim z \<and> (bus_up (tx z) \<longrightarrow> run_inv chipid lim z)"
proof -
  have b: "buf_ok chipid lim (packed y) (tx y)" and l: "int (length (packed y)) < lim" and p: "pkt_fits lim p"
    using inv(1) pc by (auto simp: mem_inv_def)
  show ?thesis
  proof (cases "bus_up (tx y)")
    case False
    obtain gs where g: "buf_ok chipid lim gs s" "rest s = rest (tx y)" "gs = [] \<or> gs = packed y @ [p]"
      using put_down [OF b l p False, of txnow thesis] e by auto
    note rs = rest_fields [OF g(2)]
    have "tx z = s" "packed z = gs" "pc z = loop_pc txnow"
      using g note_written [of chipid lim s "packed y @ [p]" y] note_kept [of chipid lim "packed y @ [p]" s y]
      by (auto simp: z_def)
    then show ?thesis using inv(1) g l lim rs False by (auto simp: mem_inv_def loop_pc_def)
  next
    case up: True
    then have r: "run_inv chipid lim y" using inv(2) by blast
    then have qo: "queue_ok lim (txq (tx y))" and fl: "flow_ok lim y" by (simp_all add: run_inv_def)
    have av: "int (length (packed y)) < fw_avail_bufcnt (tx y) - 2" using fl pc by (simp add: flow_ok_def)
    show ?thesis
    proof (cases rule: put_effect [OF b l p up av, of txnow, case_names written kept])
      case (written w s')
      then have s: "s' = s" using e by simp
      note w = written [unfolded s] and rs = rest_fields [OF written(3) [unfolded s]]
      have z: "z = y\<lparr>tx := s, packed := [], sent := sent y @ [packed y @ [p]], since := since y + length (packed y @ [p]),
          pc := loop_pc txnow\<rparr>"
        unfolding z_def using note_written [OF w(2), of "packed y @ [p]" y] by simp
      have "mem_inv chipid lim z" using inv(1) w(2) lim rs by (simp add: mem_inv_def z loop_pc_def)
      moreover have "order_ok z" using r pc rs by (simp add: run_inv_def order_ok_def z loop_pc_def)
      moreover have "flow_ok lim z" using fl w(4,7) av pc rs by (auto simp: flow_ok_def z loop_pc_def)
      moreover have "wake_ok z" using r pc rs by (auto simp: run_inv_def wake_ok_def z loop_pc_def Let_def)
      moreover have "wire_ok chipid lim z" using r w(5,6) by (simp add: run_inv_def wire_ok_def z list_all2_appendI)
      ultimately show ?thesis using qo rs by (simp add: run_inv_def z)
    next
      case (kept s')
      then have s: "s' = s" using e by simp
      note k = kept [unfolded s] and rs = rest_fields [OF kept(3) [unfolded s]]
      have z: "z = y\<lparr>tx := s, packed := packed y @ [p], pc := Tx_Loop\<rparr>"
        unfolding z_def using note_kept [OF k(2), of y] k(8) by (simp add: loop_pc_def)
      have "mem_inv chipid lim z" using inv(1) k(2) k(10) rs by (simp add: mem_inv_def z)
      moreover have "order_ok z" using r pc rs by (simp add: run_inv_def order_ok_def z)
      moreover have "qcnt (txq (tx y)) \<noteq> 0" using fl k(7) pc by (auto simp: flow_ok_def)
      then have "flow_ok lim z" using fl k(4,6,9,10) pc rs by (auto simp: flow_ok_def z)
      moreover have "wake_ok z" using r pc rs k(8) by (auto simp: run_inv_def wake_ok_def z Let_def)
      moreover have "wire_ok chipid lim z" using r k(5) by (simp add: run_inv_def wire_ok_def z)
      ultimately show ?thesis using qo rs by (simp add: run_inv_def z)
    qed
  qed
qed

section \<open>Reachable states\<close>

lemma inv_idle_step:
  fixes n :: nat
  assumes inv: "mem_inv chipid lim y" "run_inv chipid lim y" and pc: "pc y = Tx_Wait" "\<not> (tx_pktcnt (tx y) > 0 \<or> cmd_txstate (tx y))"
  defines "z \<equiv> y\<lparr>tx := (tx y)\<lparr>bustx_trgg := n\<rparr>\<rparr>"
  shows "mem_inv chipid lim z \<and> run_inv chipid lim z"
proof -
  have "mem_inv chipid lim z" using inv(1) by (simp add: mem_inv_def z_def tx_simps)
  moreover have "wake_ok z" using pc by (simp add: wake_ok_def z_def)
  then have "run_inv chipid lim z" by - (rule run_frame [OF inv(2)], simp_all add: z_def)
  ultimately show ?thesis by blast
qed

lemma inv_complete_step:
  assumes inv: "mem_inv chipid lim y" "bus_up (tx y) \<longrightarrow> run_inv chipid lim y" and n: "completing y = Suc n"
  defines "z \<equiv> y\<lparr>tx := (tx y)\<lparr>bustx_trgg := Suc (bustx_trgg (tx y))\<rparr>, completing := n\<rparr>"
  shows "mem_inv chipid lim z \<and> (bus_up (tx z) \<longrightarrow> run_inv chipid lim z)"
proof -
  have "mem_inv chipid lim z" using inv(1) by (simp add: mem_inv_def z_def tx_simps)
  moreover have "run_inv chipid lim z" if "bus_up (tx z)"
  proof -
    have r: "run_inv chipid lim y" using inv(2) that by (simp add: z_def)
    then have "wake_ok z" by (auto simp: run_inv_def wake_ok_def z_def Let_def split: tx_pc.splits)
    then show ?thesis by - (rule run_frame [OF r], simp_all add: z_def)
  qed
  ultimately show ?thesis by blast
qed

lemma inv_refused_step:
  assumes inv: "mem_inv chipid lim y" "bus_up (tx y) \<longrightarrow> run_inv chipid lim y"
    and e: "aicwf_sdio_bus_txdata p (tx y) = (r, s)" "r \<noteq> 0"
  defines "z \<equiv> y\<lparr>tx := s\<rparr>"
  shows "mem_inv chipid lim z \<and> (bus_up (tx z) \<longrightarrow> run_inv chipid lim z)"
proof -
  have s: "s = (tx y)\<lparr>freed := freed (tx y) @ [p]\<rparr>"
    using e by (auto simp: aicwf_sdio_bus_txdata_def split: if_splits prod.splits bool.splits)
  have "buf_ok chipid lim (packed z) (tx z)"
    using inv(1) by - (rule buf_ok_frame [of _ _ _ "tx y"], simp_all add: mem_inv_def z_def s)
  then have "mem_inv chipid lim z" using inv(1) by (simp add: mem_inv_def z_def s)
  moreover have "run_inv chipid lim z" if "bus_up (tx z)"
  proof -
    have r: "run_inv chipid lim y" using inv(2) that by (simp add: z_def s)
    then have "wake_ok z" by (simp add: run_inv_def wake_ok_def z_def s)
    then show ?thesis by - (rule run_frame [OF r], simp_all add: z_def s)
  qed
  ultimately show ?thesis by blast
qed

lemma inv_stop_step:
  fixes quiet :: bool and rx_cnt :: int
  assumes "mem_inv chipid lim y"
  defines "z \<equiv> y\<lparr>tx := aicwf_sdio_bus_stop quiet rx_cnt (tx y)\<rparr>"
  shows "mem_inv chipid lim z \<and> (bus_up (tx z) \<longrightarrow> run_inv chipid lim z)"
  using assms(1) by (simp add: mem_inv_def z_def tx_simps)

lemma inv_asleep_step:
  assumes inv: "mem_inv chipid lim y" "bus_up (tx y) \<longrightarrow> run_inv chipid lim y"
    and pc: "pc y = Tx_Data" "pwr_state (tx y) \<noteq> SDIO_ACTIVE_ST"
  defines "z \<equiv> y\<lparr>pc := Tx_Wait\<rparr>"
  shows "mem_inv chipid lim z \<and> (bus_up (tx z) \<longrightarrow> run_inv chipid lim z)"
proof -
  have "mem_inv chipid lim z" using inv(1) by (simp add: mem_inv_def z_def)
  moreover have "run_inv chipid lim z" if "bus_up (tx z)"
  proof -
    have r: "run_inv chipid lim y" using inv(2) that by (simp add: z_def)
    then have "wake_ok z" using pc by (auto simp: run_inv_def wake_ok_def z_def Let_def)
    moreover have "packed y = []" using r pc by (auto simp: run_inv_def flow_ok_def)
    ultimately show ?thesis using pc by - (rule run_frame [OF r], simp_all add: z_def)
  qed
  ultimately show ?thesis by blast
qed

lemma inv_data_empty:
  assumes inv: "mem_inv chipid lim y" "bus_up (tx y) \<longrightarrow> run_inv chipid lim y"
    and pc: "pc y = Tx_Data"
  defines "z \<equiv> y\<lparr>pc := Tx_Loop\<rparr>"
  shows "mem_inv chipid lim z \<and> (bus_up (tx z) \<longrightarrow> run_inv chipid lim z)"
proof -
  have "mem_inv chipid lim z" using inv(1) by (simp add: mem_inv_def z_def)
  moreover have "run_inv chipid lim z" if "bus_up (tx z)"
  proof -
    have r: "run_inv chipid lim y" using inv(2) that by (simp add: z_def)
    then have "wake_ok z" using pc by (auto simp: run_inv_def wake_ok_def z_def Let_def)
    moreover have "packed y = []" using r pc by (auto simp: run_inv_def flow_ok_def)
    ultimately show ?thesis using pc by - (rule run_frame [OF r], simp_all add: z_def)
  qed
  ultimately show ?thesis by blast
qed

lemma sdio_inv_init: "sdio_inv chipid lim tx_sys_init"
proof -
  have "frame_queue_inv (aicwf_frame_queue_init 8 TXQLEN :: sdio_pkt frame_queue)" by (rule frame_queue_inv_init) simp_all
  then show ?thesis
    by (simp add: sdio_inv_def mem_inv_def run_inv_def queue_ok_def order_ok_def flow_ok_def wake_ok_def wire_ok_def
        tx_sys_init_def aicwf_tx_init_def buf_ok_def aicwf_frame_queue_init_def)
qed

lemma sdio_inv_step:
  assumes "sdio_inv chipid lim y" "sdio_step chipid lim fc y z"
  shows "sdio_inv chipid lim z"
proof -
  have "mem_inv chipid lim z \<and> (bus_up (tx z) \<longrightarrow> run_inv chipid lim z)"
    if dw: "chipid \<noteq> PRODUCT_ID_AIC8800DW" and lim: "0 < lim"
  proof -
    have inv: "mem_inv chipid lim y" "bus_up (tx y) \<longrightarrow> run_inv chipid lim y" using assms(1) dw lim by (simp_all add: sdio_inv_def)
    show ?thesis
      using assms(2)
    proof cases
      case (st_enq p s)
      have "bus_up (tx y)" using txdata_ok [OF st_enq(3)] by blast
      then show ?thesis using inv_enq_step [OF inv(1) _ st_enq(2,3)] inv(2) st_enq(1) by simp
    next
      case (st_wake n wr rd)
      then show ?thesis using inv_wake_step [OF inv(1) _ st_wake(2-5)] inv(2) st_wake(1) by simp
    next
      case (st_idle n)
      then show ?thesis using inv_idle_step [OF inv(1) _ st_idle(2,5)] inv(2) by simp
    next
      case (st_end n)
      then show ?thesis using inv by (simp add: mem_inv_def)
    next
      case st_data
      show ?thesis
      proof (cases "aicwf_is_framequeue_empty (txq (tx y))")
        case True
        then show ?thesis using inv_data_empty [OF inv st_data(2)] st_data(1) by simp
      next
        case False
        then show ?thesis using inv_grant [OF inv, of fc] st_data by simp
      qed
    next
      case st_grant
      have "read_grant chipid fc y = (read_grant chipid fc y)\<lparr>pc := Tx_Loop\<rparr>"
        using st_grant(2) by (simp add: read_grant_def Let_def)
      then show ?thesis using inv_grant [OF inv, of fc] st_grant by simp
    next
      case (st_take p s)
      then show ?thesis using inv_take [OF inv(1) _ lim st_take(2-4) _ st_take(6)] inv(2) by simp
    next
      case (st_flush s)
      then show ?thesis using inv_flush [OF inv(1) _ lim st_flush(2-4) _ st_flush(6)] inv(2) by simp
    qed (use inv_refused_step [OF inv] inv_txmsg_step [OF inv] inv_complete_step [OF inv] inv_power_step [OF inv] inv_active_step [OF inv]
        inv_stop_step [OF inv(1)] inv_cmd_part [OF inv _ dw] inv_asleep_step [OF inv] inv_leave [OF inv] inv_put [OF inv lim]
        in \<open>simp_all\<close>)
  qed
  then show ?thesis by (simp add: sdio_inv_def)
qed

interpretation sdio_tx: invariant_of tx_sys_init "sdio_step chipid lim fc" "sdio_inv chipid lim" for chipid lim fc
  by unfold_locales (auto intro: sdio_inv_init sdio_inv_step)

end
