(* ===== verification/Sdio_Props.thy ===== *)
theory Sdio_Props
  imports Sdio_Sys
begin

text \<open>
  Properties of the SDIO transmit path: order and completeness of what the device receives, no lost
  wake-up, no memory fault, the grants of the flow-control register, and termination of the data
  loop of \<open>aicwf_sdio_tx_process\<close>.
\<close>

section \<open>The data loop by itself\<close>

definition fc_grants :: "AICWF_IC \<Rightarrow> (nat \<Rightarrow> u8 option) \<Rightarrow> nat \<Rightarrow> bool" where
  "fc_grants chipid fc i \<longleftrightarrow> (case fc i of None \<Rightarrow> False | Some r \<Rightarrow> uint (fc_value chipid r) > DATA_FLOW_CTRL_THRESH)"

lemma flow_ctrl_loop_result:
  assumes "flow_ctrl_loop n chipid fc i = (v, k)"
  shows "i < k" "v > 2 \<or> (\<forall>j. i \<le> j \<longrightarrow> j < k \<longrightarrow> \<not> fc_grants chipid fc j)"
proof -
  have "i < k \<and> (v > 2 \<or> (\<forall>j. i \<le> j \<longrightarrow> j < k \<longrightarrow> \<not> fc_grants chipid fc j))"
    using assms
  proof (induction n arbitrary: i)
    case 0
    then show ?case by (auto simp: fc_grants_def less_Suc_eq_le dest: le_antisym split: option.splits if_splits)
  next
    case (Suc n)
    show ?case
    proof (cases "fc_grants chipid fc i")
      case True
      then show ?thesis using Suc.prems by (auto simp: fc_grants_def split: option.splits if_splits)
    next
      case False
      show ?thesis
      proof (cases "fc i")
        case None
        then have "k = Suc i" using Suc.prems by simp
        then show ?thesis using False by (auto simp: less_Suc_eq_le dest: le_antisym)
      next
        case (Some r)
        then have "flow_ctrl_loop n chipid fc (Suc i) = (v, k)" using Suc.prems False by (auto simp: fc_grants_def)
        from Suc.IH [OF this] have h: "Suc i < k" "v > 2 \<or> (\<forall>j. Suc i \<le> j \<longrightarrow> j < k \<longrightarrow> \<not> fc_grants chipid fc j)" by auto
        have "\<not> fc_grants chipid fc j" if "i \<le> j" "j < k" "\<not> v > 2" for j
          using h that False by (cases "j = i") auto
        then show ?thesis using h(1) by auto
      qed
    qed
  qed
  then show "i < k" "v > 2 \<or> (\<forall>j. i \<le> j \<longrightarrow> j < k \<longrightarrow> \<not> fc_grants chipid fc j)" by auto
qed

lemma flow_ctrl_loop_bad:
  assumes "\<And>j. \<not> fc_grants chipid fc j"
  shows "fst (flow_ctrl_loop n chipid fc i) \<le> 2"
proof (induction n arbitrary: i)
  case 0
  have "- uint (fc_value chipid r) \<le> 2" for r by (rule order_trans [of _ 0]) simp_all
  then show ?case using assms [of i] by (auto simp: fc_grants_def split: option.splits)
next
  case (Suc n)
  then show ?case using assms [of i] by (auto simp: fc_grants_def split: option.splits)
qed

text \<open>Reading the register until it grants something.\<close>

lemma loop_reads_grant:
  assumes "\<not> aicwf_is_framequeue_empty (txq s)" "bus_up s" "\<not> cmd_txstate s" "fw_avail_bufcnt s \<le> 2"
    "fc_reads s \<le> j" "fc_grants chipid fc j"
  shows "\<exists>n i. n > 2 \<and> tx_data_loop chipid lim fc s = tx_data_loop chipid lim fc (s\<lparr>fw_avail_bufcnt := n, fc_reads := i\<rparr>)"
  using assms
proof (induction "j - fc_reads s" arbitrary: s rule: less_induct)
  case less
  obtain n i where f: "flow_ctrl_loop FLOW_CTRL_RETRY_COUNT chipid fc (fc_reads s) = (n, i)" by force
  have step: "tx_data_loop chipid lim fc s = tx_data_loop chipid lim fc (s\<lparr>fw_avail_bufcnt := n, fc_reads := i\<rparr>)"
    using less.prems f by (subst tx_data_loop.simps) (simp add: aicwf_sdio_flow_ctrl_def)
  show ?case
  proof (cases "n > 2")
    case True
    then show ?thesis using step by blast
  next
    case False
    let ?s = "s\<lparr>fw_avail_bufcnt := n, fc_reads := i\<rparr>"
    have "\<not> j < i" "fc_reads s < i" using flow_ctrl_loop_result [OF f] less.prems False by auto
    then have "j - fc_reads ?s < j - fc_reads s" "fc_reads ?s \<le> j" using less.prems by auto
    from less.hyps [OF this(1)] this(2) less.prems False obtain m k where
      "m > 2" "tx_data_loop chipid lim fc ?s = tx_data_loop chipid lim fc (?s\<lparr>fw_avail_bufcnt := m, fc_reads := k\<rparr>)"
      by auto
    then show ?thesis using step by (intro exI [of _ m] exI [of _ k]) (cases s, simp)
  qed
qed

definition loop_ok :: "AICWF_IC \<Rightarrow> int \<Rightarrow> sdio_pkt list \<Rightarrow> aicwf_tx_priv \<Rightarrow> bool" where
  "loop_ok chipid lim fs s \<longleftrightarrow>
     buf_ok chipid lim fs s \<and> queue_ok lim (txq s) \<and> bus_up s \<and> \<not> cmd_txstate s \<and>
     tx_pktcnt s = int (unat (qcnt (txq s))) \<and>
     (fs \<noteq> [] \<longrightarrow> qcnt (txq s) \<noteq> 0 \<and> int (length fs) < fw_avail_bufcnt s - 2 \<and> int (length fs) < lim)"

lemma queue_deq_order:
  assumes "queue_ok lim q" "aicwf_frame_dequeue q = (Some p, q')"
  shows "by_prio 8 (queuelist q) = p # by_prio 8 (queuelist q')"
proof -
  have "frame_queue_inv q" "unat (num_prio q) = 8" "unat (num_prio q') = 8"
    using assms queue_ok_deq(1) [OF assms] by (simp_all add: queue_ok_def)
  then show ?thesis using fq.deq_by_prio [OF _ assms(2)] by simp
qed

text \<open>One round that packs the next frame.\<close>

lemma buf_ok_tail: "buf_ok chipid lim fs s \<Longrightarrow> tail s = 0 \<longleftrightarrow> fs = []"
  by (cases fs) (simp_all add: buf_ok_def bytes_length pkt_size_def)

lemma loop_round:
  assumes ok: "loop_ok chipid lim fs s" and lim: "0 < lim" and ne: "qcnt (txq s) \<noteq> 0" and av: "fw_avail_bufcnt s > 2"
  obtains p q s' gs ws gss where "aicwf_frame_dequeue (txq s) = (Some p, q)"
    "\<And>fc. tx_data_loop chipid lim fc s = tx_data_loop chipid lim fc s'"
    "loop_ok chipid lim gs s'" "txq s' = q" "wire s' = wire s @ ws"
    "fs @ [p] = concat gss @ gs" "list_all2 (write_ok chipid lim) ws gss"
proof -
  have b: "buf_ok chipid lim fs s" and qo: "queue_ok lim (txq s)" and up: "bus_up s" and cmd: "\<not> cmd_txstate s"
    and cnt: "tx_pktcnt s = int (unat (qcnt (txq s)))" using ok by (simp_all add: loop_ok_def)
  have fs: "int (length fs) < fw_avail_bufcnt s - 2" "int (length fs) < lim"
    using ok av lim by (cases "fs = []"; simp add: loop_ok_def)+
  obtain p q where pq: "aicwf_frame_dequeue (txq s) = (Some p, q)"
    using queue_deq_None [OF qo ne] by (metis option.exhaust surj_pair)
  note q = queue_ok_deq [OF qo pq]
  define t where "t = s\<lparr>txq := q\<rparr>"
  have "buf_ok chipid lim fs t" by (rule buf_ok_frame [OF b]) (simp_all add: t_def)
  then have put: "buf_ok chipid lim fs t" "int (length fs) < lim" "pkt_fits lim p" "bus_up t" "int (length fs) < fw_avail_bufcnt t - 2"
    using fs q(2) up by (simp_all add: t_def)
  have "\<not> (aggr_count s = 0 \<and> tail s \<noteq> 0 \<or> aggr_count s \<noteq> 0 \<and> tail s = 0)" "\<not> aggr_full lim s"
    using b fs buf_ok_tail [OF b] by (auto simp: buf_ok_def aggr_full_def)
  then have "send_take lim s = Inr (Some p, t)" using pq by (auto simp: send_take_def t_def)
  then have loop: "tx_data_loop chipid lim fc s = tx_data_loop chipid lim fc s'" if "send_put chipid lim False p t = Inr s'" for s' fc
    using that av up cmd ne queue_ok_empty [OF qo] by (subst tx_data_loop.simps) (simp add: aicwf_sdio_send_def)
  have qd: "queue_ok lim q" "unat (qcnt (txq s)) = unat (qcnt q) + 1" using q(1,5) .
  have f: "txq s' = q" "bus_up s'" "\<not> cmd_txstate s'" if "rest s' = rest t" for s'
    using that up cmd by (simp_all add: rest_def t_def)
  from put show ?thesis
  proof (cases rule: put_effect [where txnow = False])
    case (written w s')
    have "loop_ok chipid lim [] s'" using written qd f [OF written(3)] cnt by (simp add: loop_ok_def t_def)
    moreover have "list_all2 (write_ok chipid lim) [w] [fs @ [p]]" using written by simp
    ultimately show ?thesis
      using that [OF pq loop [OF written(1)], of "[]" "[w]" "[fs @ [p]]"] written(5) f [OF written(3)] by (simp add: t_def)
  next
    case (kept s')
    have "qcnt q \<noteq> 0" using kept(7) qd(2) cnt by (auto simp: t_def unat_eq_zero)
    then have "loop_ok chipid lim (fs @ [p]) s'" using kept qd f [OF kept(3)] cnt by (simp add: loop_ok_def t_def)
    then show ?thesis
      using that [OF pq loop [OF kept(1)], of "fs @ [p]" "[]" "[]"] kept(5) f [OF kept(3)] by (simp add: t_def)
  qed
qed

text \<open>The loop ends with every queued frame written, highest priority first.\<close>

lemma loop_drains:
  assumes "loop_ok chipid lim fs s" "0 < lim" "\<And>i. \<exists>j\<ge>i. fc_grants chipid fc j"
  shows "\<exists>s' ws gss. tx_data_loop chipid lim fc s = Some (Inr s') \<and> loop_ok chipid lim [] s' \<and> qcnt (txq s') = 0 \<and>
    wire s' = wire s @ ws \<and> list_all2 (write_ok chipid lim) ws gss \<and> concat gss = fs @ by_prio 8 (queuelist (txq s))"
  using assms(1)
proof (induction "unat (qcnt (txq s))" arbitrary: s fs rule: less_induct)
  case less
  have qo: "queue_ok lim (txq s)" and up: "bus_up s" "\<not> cmd_txstate s" using less.prems by (simp_all add: loop_ok_def)
  show ?case
  proof (cases "qcnt (txq s) = 0")
    case True
    then have "fs = []" "tx_data_loop chipid lim fc s = Some (Inr s)" "by_prio 8 (queuelist (txq s)) = []"
      using less.prems queue_ok_empty [OF qo] queue_count [of "txq s"] qo
      by (auto simp: loop_ok_def queue_ok_def tx_data_loop.simps)
    then show ?thesis using True less.prems by (intro exI [of _ s] exI [of _ "[]"]) simp
  next
    case False
    obtain j where "fc_reads s \<le> j" "fc_grants chipid fc j" using assms(3) by blast
    then have "\<exists>n i. (n > 2 \<and> (fw_avail_bufcnt s > 2 \<longrightarrow> n = fw_avail_bufcnt s)) \<and>
        tx_data_loop chipid lim fc s = tx_data_loop chipid lim fc (s\<lparr>fw_avail_bufcnt := n, fc_reads := i\<rparr>)"
      using loop_reads_grant [of s j chipid fc lim] False up queue_ok_empty [OF qo]
      by (cases "fw_avail_bufcnt s > 2") (auto intro: exI [of _ "fw_avail_bufcnt s"] exI [of _ "fc_reads s"])
    then obtain n i where n: "n > 2" "fw_avail_bufcnt s > 2 \<Longrightarrow> n = fw_avail_bufcnt s"
        "tx_data_loop chipid lim fc s = tx_data_loop chipid lim fc (s\<lparr>fw_avail_bufcnt := n, fc_reads := i\<rparr>)" by blast
    define t where "t = s\<lparr>fw_avail_bufcnt := n, fc_reads := i\<rparr>"
    have "buf_ok chipid lim fs t" by (rule buf_ok_frame [of _ _ _ s]) (use less.prems in \<open>simp_all add: loop_ok_def t_def\<close>)
    then have "loop_ok chipid lim fs t" using less.prems n(2) by (auto simp: loop_ok_def t_def)
    moreover have "qcnt (txq t) \<noteq> 0" "fw_avail_bufcnt t > 2" using False n(1) by (simp_all add: t_def)
    ultimately obtain p q s' gs ws gss where r: "aicwf_frame_dequeue (txq t) = (Some p, q)"
        "tx_data_loop chipid lim fc t = tx_data_loop chipid lim fc s'" "loop_ok chipid lim gs s'" "txq s' = q"
        "wire s' = wire t @ ws" "fs @ [p] = concat gss @ gs" "list_all2 (write_ok chipid lim) ws gss"
      using loop_round [OF _ assms(2)] by metis
    have d: "by_prio 8 (queuelist (txq s)) = p # by_prio 8 (queuelist q)" "unat (qcnt (txq s')) < unat (qcnt (txq s))"
      using queue_deq_order [OF qo, of p q] queue_ok_deq(5) [OF qo, of p q] r(1,4) by (simp_all add: t_def)
    from less.hyps [OF d(2) r(3)] obtain s2 ws2 gss2 where e: "tx_data_loop chipid lim fc s' = Some (Inr s2)"
        "loop_ok chipid lim [] s2" "qcnt (txq s2) = 0" "wire s2 = wire s' @ ws2" "list_all2 (write_ok chipid lim) ws2 gss2"
        "concat gss2 = gs @ by_prio 8 (queuelist (txq s'))" by blast
    have "concat (gss @ gss2) = fs @ by_prio 8 (queuelist (txq s))"
      using e(6) r(4,6) d(1) by (metis append.assoc append_Cons append_Nil concat_append)
    then show ?thesis using e n(3) r(2,5,7)
      by (intro exI [of _ s2] exI [of _ "ws @ ws2"] exI [of _ "gss @ gss2"]) (auto simp: t_def list_all2_appendI)
  qed
qed

text \<open>A register that never grants: the loop does not return.\<close>

lemma loop_starves:
  assumes bad: "\<And>j. \<not> fc_grants chipid fc j"
    and s: "\<not> aicwf_is_framequeue_empty (txq s)" "bus_up s" "\<not> cmd_txstate s" "fw_avail_bufcnt s \<le> 2"
  shows "tx_data_loop chipid lim fc s = None"
proof (rule ccontr)
  assume "tx_data_loop chipid lim fc s \<noteq> None"
  then obtain r where "tx_data_loop chipid lim fc s = Some r" by blast
  then have "\<not> (chipid = chipid \<and> fc = fc \<and> \<not> aicwf_is_framequeue_empty (txq s) \<and> bus_up s \<and> \<not> cmd_txstate s \<and>
      fw_avail_bufcnt s \<le> 2)"
  proof (rule tx_data_loop.raw_induct [where P = "\<lambda>c l f s r. \<not> (c = chipid \<and> f = fc \<and>
      \<not> aicwf_is_framequeue_empty (txq s) \<and> bus_up s \<and> \<not> cmd_txstate s \<and> fw_avail_bufcnt s \<le> 2)", rotated], goal_cases)
    case (1 F c l f s r)
    show ?case
    proof
      assume s: "c = chipid \<and> f = fc \<and> \<not> aicwf_is_framequeue_empty (txq s) \<and> bus_up s \<and> \<not> cmd_txstate s \<and> fw_avail_bufcnt s \<le> 2"
      then have "F chipid l fc (aicwf_sdio_flow_ctrl chipid fc s) = Some r" using 1(2) by simp
      from 1(1) [OF this] show False
        using s flow_ctrl_loop_bad [OF bad, of FLOW_CTRL_RETRY_COUNT "fc_reads s"]
        by (simp add: aicwf_sdio_flow_ctrl_def case_prod_unfold)
    qed
  qed
  then show False using s by simp
qed

section \<open>Properties\<close>

lemma chipmatch_not_DW: "aicwf_sdio_chipmatch vid did = Some chipid \<Longrightarrow> chipid \<noteq> PRODUCT_ID_AIC8800DW"
  by (auto simp: aicwf_sdio_chipmatch_def split: if_splits)

lemma reach_inv:
  assumes "aicwf_sdio_chipmatch vid did = Some chipid" "0 < lim" "reachable tx_sys_init (sdio_step chipid lim fc) y"
  shows "mem_inv chipid lim y" "bus_up (tx y) \<Longrightarrow> run_inv chipid lim y"
  using sdio_tx.holds [OF assms(3)] chipmatch_not_DW [OF assms(1)] assms(2) by (simp_all add: sdio_inv_def)

text \<open>
  C25: Whatever the interleaving of the callers, the transmit thread, the power control and a stop of
  the bus: while the bus is up, the frames of every priority that were accepted are, in the order in
  which they were accepted, those the device finds in the writes so far, then those in the
  aggregation buffer or in the hands of the thread, then those in the queue.  Every write is a
  whole number of 512-byte blocks, holds at least one and at most \<open>lim\<close> frames, and the device,
  which follows the length fields, finds exactly these frames in it.
\<close>
theorem sdio_tx_in_order:
  assumes "aicwf_sdio_chipmatch vid did = Some chipid" "0 < lim" "reachable tx_sys_init (sdio_step chipid lim fc) y"
    "bus_up (tx y)" "i < 8"
  shows "filter (\<lambda>p. p_priority p mod 8 = i) (accepted y) =
      filter (\<lambda>p. p_priority p mod 8 = i) (concat (sent y) @ packed y @ taken (pc y)) @ queuelist (txq (tx y)) i \<and>
    list_all2 (\<lambda>w fs. sdio_unpack w = map (\<lambda>p. (1, pkt_body chipid p)) fs \<and> length w mod 512 = 0 \<and>
      fs \<noteq> [] \<and> int (length fs) \<le> lim) (wire (tx y)) (sent y)"
proof -
  have r: "run_inv chipid lim y" using reach_inv [OF assms(1-3)] assms(4) by simp
  then have "list_all2 (write_ok chipid lim) (wire (tx y)) (sent y)" by (simp add: run_inv_def wire_ok_def)
  then show ?thesis using r assms(5) by (simp add: run_inv_def order_ok_def write_ok_def [abs_def])
qed

text \<open>
  C26: No wake-up of the transmit thread is lost: when the thread waits on the completion with the bus
  up, no completion is pending and no caller is about to complete, then no frame is counted or queued,
  no command waits, and no frame is left behind in the aggregation buffer.
\<close>
theorem sdio_tx_no_lost_wakeup:
  assumes "aicwf_sdio_chipmatch vid did = Some chipid" "0 < lim" "reachable tx_sys_init (sdio_step chipid lim fc) y"
    "bus_up (tx y)" "pc y = Tx_Wait" "bustx_trgg (tx y) = 0" "completing y = 0"
  shows "tx_pktcnt (tx y) = 0 \<and> aicwf_is_framequeue_empty (txq (tx y)) \<and> \<not> cmd_txstate (tx y) \<and>
    packed y = [] \<and> aggr_count (tx y) = 0 \<and> tail (tx y) = 0"
proof -
  have r: "run_inv chipid lim y" "buf_ok chipid lim (packed y) (tx y)"
    using reach_inv [OF assms(1-3)] assms(4) by (simp_all add: mem_inv_def)
  have w: "\<not> tx_pktcnt (tx y) > 0" "\<not> cmd_txstate (tx y)" using r(1) assms(5-7) by (auto simp: run_inv_def wake_ok_def Let_def)
  have f: "tx_pktcnt (tx y) = int (unat (qcnt (txq (tx y))))" "packed y = []"
    using r(1) assms(5) by (auto simp: run_inv_def flow_ok_def)
  then have "unat (qcnt (txq (tx y))) = 0" using w(1) by linarith
  then have "qcnt (txq (tx y)) = 0" by (simp add: unat_eq_zero)
  then show ?thesis using w f r queue_ok_empty [of lim "txq (tx y)"] by (simp add: run_inv_def buf_ok_def)
qed

text \<open>
  C27: The transmit thread never writes outside the aggregation buffer or the command buffer: in every
  reachable state, the bus up or stopped, the next operation of the thread runs to its end, be it
  the sending of a command, the choice of the next frame or the packing of the chosen one.
\<close>
theorem sdio_tx_no_fault:
  assumes "aicwf_sdio_chipmatch vid did = Some chipid" "0 < lim" "reachable tx_sys_init (sdio_step chipid lim fc) y"
  shows "(\<exists>r. tx_cmd chipid ok (tx y) = Inr r) \<and>
    (pc y = Tx_Loop \<longrightarrow> bus_up (tx y) \<longrightarrow> fw_avail_bufcnt (tx y) > DATA_FLOW_CTRL_THRESH \<longrightarrow> (\<exists>r. send_take lim (tx y) = Inr r)) \<and>
    (\<forall>txnow p. pc y = Tx_Taken txnow p \<longrightarrow> (\<exists>s. send_put chipid lim txnow p (tx y) = Inr s))"
proof (intro conjI allI impI)
  note dw = chipmatch_not_DW [OF assms(1)]
  have m: "mem_inv chipid lim y" using reach_inv [OF assms] by simp
  obtain b w where "aicwf_sdio_tx_msg chipid ok (tx y) = Inr (if ok then 0 else - 1,
      (tx y)\<lparr>cmd_buf := b, cmd_wire := cmd_wire (tx y) @ [w], cmd_txstate := False, cmd_tx_succ := ok\<rparr>)"
    using tx_msg_runs [of "tx y" chipid ok] m dw unfolding mem_inv_def by metis
  then show "\<exists>r. tx_cmd chipid ok (tx y) = Inr r" by (auto simp: tx_cmd_def)
  have b: "buf_ok chipid lim (packed y) (tx y)" using m by (simp add: mem_inv_def)
  {
    assume a: "pc y = Tx_Loop" "bus_up (tx y)" "fw_avail_bufcnt (tx y) > DATA_FLOW_CTRL_THRESH"
    have "int (length (packed y)) \<le> fw_avail_bufcnt (tx y) - 2" "int (length (packed y)) \<le> lim"
      using reach_inv [OF assms] a by (cases "packed y = []"; simp add: run_inv_def flow_ok_def mem_inv_def)+
    then show "\<exists>r. send_take lim (tx y) = Inr r" using take_effect [OF b assms(2) a(2)] a(3)
      unfolding DATA_FLOW_CTRL_THRESH_def by metis
  next
    fix txnow p assume a: "pc y = Tx_Taken txnow p"
    then have p: "int (length (packed y)) < lim" "pkt_fits lim p" using m by (simp_all add: mem_inv_def)
    show "\<exists>s. send_put chipid lim txnow p (tx y) = Inr s"
    proof (cases "bus_up (tx y)")
      case True
      moreover from this have "int (length (packed y)) < fw_avail_bufcnt (tx y) - 2"
        using reach_inv [OF assms] a by (simp add: run_inv_def flow_ok_def)
      ultimately show ?thesis by (rule put_effect [OF b p]) blast+
    next
      case False
      then show ?thesis by (rule put_down [OF b p]) blast
    qed
  }
qed

text \<open>
  C28: The flow control is respected: while the bus is up, the frames written to the device since the
  flow-control register was last read are at most the buffers it granted less the two that are kept
  in reserve, or none; and the buffer count the driver keeps is the grant less these frames.
\<close>
theorem sdio_tx_grant_kept:
  assumes "aicwf_sdio_chipmatch vid did = Some chipid" "0 < lim" "reachable tx_sys_init (sdio_step chipid lim fc) y"
    "bus_up (tx y)"
  shows "(since y = 0 \<or> int (since y) \<le> granted y - DATA_FLOW_CTRL_THRESH) \<and> fw_avail_bufcnt (tx y) = granted y - int (since y)"
  using reach_inv [OF assms(1-3)] assms(4) by (simp add: run_inv_def flow_ok_def)

text \<open>
  C29: Whenever the transmit thread wakes up with no command waiting, and the flow-control register
  reads as a grant again and again, \<open>aicwf_sdio_tx_process\<close> returns, and the device has received
  every queued frame, highest priority first and first come first served within a priority.
\<close>
theorem sdio_tx_process_drains:
  assumes "aicwf_sdio_chipmatch vid did = Some chipid" "0 < lim" "reachable tx_sys_init (sdio_step chipid lim fc) y"
    "bus_up (tx y)" "pc y = Tx_Wait" "\<not> cmd_txstate (tx y)" "\<forall>i. \<exists>j\<ge>i. fc_grants chipid fc j"
  shows "\<exists>s' ws. aicwf_sdio_tx_process chipid lim wr rd ok fc (tx y) = Some (Inr s') \<and>
    aicwf_is_framequeue_empty (txq s') \<and> tx_pktcnt s' = 0 \<and> aggr_count s' = 0 \<and> wire s' = wire (tx y) @ ws \<and>
    concat (map sdio_unpack ws) = map (\<lambda>p. (1, pkt_body chipid p)) (by_prio 8 (queuelist (txq (tx y))))"
proof -
  define t where "t = snd (aicwf_sdio_pwr_stctl SDIO_ACTIVE_ST wr rd True 0 (tx y))"
  have "loop_ok chipid lim [] (tx y)"
    using reach_inv [OF assms(1-3)] assms(4-6) by (auto simp: mem_inv_def run_inv_def flow_ok_def loop_ok_def)
  then have t: "loop_ok chipid lim [] t" "pwr_state t = SDIO_ACTIVE_ST" "wire t = wire (tx y)" "txq t = txq (tx y)"
    using assms(4) by (simp_all add: t_def tx_simps stctl_active loop_ok_def)
  define u where "u = (if aicwf_is_framequeue_empty (txq t) then t else aicwf_sdio_flow_ctrl chipid fc t)"
  have u: "loop_ok chipid lim [] u" "wire u = wire (tx y)" "txq u = txq (tx y)"
    using t by (auto simp: u_def loop_ok_def tx_simps)
  have "aicwf_sdio_tx_process chipid lim wr rd ok fc (tx y) = tx_data_loop chipid lim fc u"
    using assms(4,6) t by (simp add: aicwf_sdio_tx_process_def tx_cmd_def tx_data_def u_def t_def tx_simps)
  moreover from loop_drains [OF u(1) assms(2), of fc] assms(7) obtain s' ws gss where
      l: "tx_data_loop chipid lim fc u = Some (Inr s')" "loop_ok chipid lim [] s'" "qcnt (txq s') = 0" "wire s' = wire u @ ws"
      "list_all2 (write_ok chipid lim) ws gss" "concat gss = by_prio 8 (queuelist (txq u))" by auto
  moreover have "concat (map sdio_unpack ws) = map (\<lambda>p. (1, pkt_body chipid p)) (concat gss)"
    using l(5) by (induction rule: list_all2_induct) (simp_all add: write_ok_def)
  moreover have "aicwf_is_framequeue_empty (txq s')" "tx_pktcnt s' = 0" "aggr_count s' = 0"
    using l(2,3) queue_ok_empty [of lim "txq s'"] by (simp_all add: loop_ok_def buf_ok_def)
  ultimately show ?thesis using u(2,3) by (intro exI [of _ s'] exI [of _ ws]) simp
qed

text \<open>
  C30: With a frame queued, no command waiting and a flow-control register that never grants, the
  data loop never returns: \<open>aicwf_sdio_tx_process\<close> has no bound on its rounds of reading the
  register, and it holds \<open>txctl_sema\<close> the whole time.
\<close>
theorem sdio_tx_process_starves:
  assumes "bus_up s" "\<not> cmd_txstate s" "\<not> aicwf_is_framequeue_empty (txq s)" "\<forall>i. \<not> fc_grants chipid fc i"
  shows "aicwf_sdio_tx_process chipid lim wr rd ok fc s = None"
proof -
  define t where "t = snd (aicwf_sdio_pwr_stctl SDIO_ACTIVE_ST wr rd True 0 s)"
  have t: "\<not> aicwf_is_framequeue_empty (txq t)" "bus_up t" "\<not> cmd_txstate t" "pwr_state t = SDIO_ACTIVE_ST"
    using assms by (simp_all add: t_def tx_simps stctl_active)
  have "fw_avail_bufcnt (aicwf_sdio_flow_ctrl chipid fc t) \<le> 2"
    using flow_ctrl_loop_bad [of chipid fc FLOW_CTRL_RETRY_COUNT "fc_reads t"] assms(4)
    by (simp add: aicwf_sdio_flow_ctrl_def case_prod_unfold)
  then have "tx_data_loop chipid lim fc (aicwf_sdio_flow_ctrl chipid fc t) = None"
    using t assms(4) by (intro loop_starves) (simp_all add: tx_simps)
  then show ?thesis using assms(1) t by (simp add: aicwf_sdio_tx_process_def tx_cmd_def tx_data_def t_def)
qed

section \<open>A run\<close>

text \<open>One frame is queued, and the thread wakes up, reads the register, takes the frame and writes it.\<close>

definition demo_pkt :: sdio_pkt where
  "demo_pkt = \<lparr>p_priority = 3, p_desc = [1], p_data = [2, 3], p_cfm = False\<rparr>"

definition demo_q :: "sdio_pkt frame_queue" where
  "demo_q = snd (aicwf_frame_enq 3 demo_pkt (aicwf_frame_queue_init 8 TXQLEN))"

abbreviation demo_step :: "tx_sys \<Rightarrow> tx_sys \<Rightarrow> bool" where
  "demo_step \<equiv> sdio_step PRODUCT_ID_AIC8800D80 24 (\<lambda>_. Some 10)"

definition demo_queued :: tx_sys where
  "demo_queued = tx_sys_init\<lparr>tx := aicwf_tx_init\<lparr>txq := demo_q, tx_pktcnt := 1\<rparr>, completing := 1, accepted := [demo_pkt]\<rparr>"

lemma demo_pkt_fits: "pkt_fits 24 demo_pkt"
  by (simp add: pkt_fits_def pkt_size_def pkt_pad_def pkt_len_def demo_pkt_def MAX_AGGR_TXPKT_LEN_def)

lemma demo_enq: "aicwf_frame_enq 3 demo_pkt (aicwf_frame_queue_init 8 TXQLEN) = (True, demo_q)"
proof -
  have "fst (aicwf_frame_enq 3 demo_pkt (aicwf_frame_queue_init 8 TXQLEN))"
    by (simp add: aicwf_frame_enq_def aicwf_frame_queue_init_def TXQLEN_def)
  then show ?thesis by (simp add: demo_q_def prod_eq_iff)
qed

lemma demo_queued_reach: "reachable tx_sys_init demo_step demo_queued"
proof (rule reach_step [OF reach_init])
  have "aicwf_sdio_bus_txdata demo_pkt aicwf_tx_init = (0, aicwf_tx_init\<lparr>txq := demo_q, tx_pktcnt := 1, bustx_trgg := 1\<rparr>)"
    using demo_enq by (simp add: aicwf_sdio_bus_txdata_def aicwf_tx_init_def demo_pkt_def)
  then show "demo_step tx_sys_init demo_queued"
    using sdio_step.st_enq [OF demo_pkt_fits, of tx_sys_init _ PRODUCT_ID_AIC8800D80 "\<lambda>_. Some 10"]
    by (simp add: tx_sys_init_def demo_queued_def aicwf_tx_init_def)
qed

lemma demo_queue: "queue_ok 24 demo_q" "queuelist demo_q = (\<lambda>i. if i = 3 then [demo_pkt] else [])" "qcnt demo_q = 1"
    "\<not> aicwf_is_framequeue_empty demo_q"
proof -
  let ?q = "aicwf_frame_queue_init 8 TXQLEN :: sdio_pkt frame_queue"
  have "queue_ok 24 ?q" using frame_queue_inv_init [of 8 TXQLEN] by (simp add: queue_ok_def aicwf_frame_queue_init_def)
  moreover have "aicwf_frame_enq (p_priority demo_pkt mod 8) demo_pkt ?q = (True, demo_q)" using demo_enq by (simp add: demo_pkt_def)
  ultimately have q: "queue_ok 24 demo_q" "queuelist demo_q = (queuelist ?q)(3 := queuelist ?q 3 @ [demo_pkt])"
      "unat (qcnt demo_q) = unat (qcnt ?q) + 1"
    using queue_ok_enq [of 24 ?q demo_pkt demo_q] demo_pkt_fits by (simp_all add: demo_pkt_def)
  then show "queue_ok 24 demo_q" "queuelist demo_q = (\<lambda>i. if i = 3 then [demo_pkt] else [])"
    by (auto simp: aicwf_frame_queue_init_def)
  have "unat (qcnt demo_q) = unat (1 :: u16)" using q(3) by (simp add: aicwf_frame_queue_init_def)
  then show "qcnt demo_q = 1" by (rule unsigned_word_eqI)
  then show "\<not> aicwf_is_framequeue_empty demo_q" using queue_ok_empty [OF q(1)] by simp
qed

definition demo_loop :: tx_sys where
  "demo_loop = demo_queued\<lparr>tx := (tx demo_queued)\<lparr>pwr_state := SDIO_ACTIVE_ST, pwr_timer := True, fw_avail_bufcnt := 10, fc_reads := 1\<rparr>,
     completing := 0, granted := 10, pc := Tx_Loop\<rparr>"

lemma demo_loop_reach: "reachable tx_sys_init demo_step demo_loop"
proof -
  let ?s = "tx demo_queued"
  let ?a = "?s\<lparr>pwr_state := SDIO_ACTIVE_ST, pwr_timer := True\<rparr>"
  let ?y2 = "demo_queued\<lparr>tx := ?s\<lparr>bustx_trgg := 1\<rparr>, completing := 0\<rparr>"
  let ?y3 = "demo_queued\<lparr>tx := ?a, completing := 0, pc := Tx_Cmd\<rparr>"
  let ?y4 = "demo_queued\<lparr>tx := ?a, completing := 0, pc := Tx_Data\<rparr>"
  note d = demo_queued_def tx_sys_init_def aicwf_tx_init_def
  have "demo_step demo_queued ?y2" using sdio_step.st_complete [of demo_queued 0] by (simp add: d)
  then have 2: "reachable tx_sys_init demo_step ?y2" using demo_queued_reach reach_step by fast
  have "demo_step ?y2 ?y3"
    using sdio_step.st_wake [of ?y2 0 _ _ _ True "\<lambda>_. Some 0x10"] by (simp add: d pwr_defs aicwf_sdio_pwrctl_timer_def)
  with 2 have 3: "reachable tx_sys_init demo_step ?y3" using reach_step by fast
  have "demo_step ?y3 ?y4"
    using sdio_step.st_cmd_part [of ?y3 _ True True "tx ?y3"] by (simp add: d tx_cmd_def)
  with 3 have 4: "reachable tx_sys_init demo_step ?y4" using reach_step by fast
  have "flow_ctrl_loop FLOW_CTRL_RETRY_COUNT PRODUCT_ID_AIC8800D80 (\<lambda>_. Some 10) 0 = (10, 1)"
    by code_simp
  then have "demo_step ?y4 demo_loop"
    using sdio_step.st_data [of ?y4 PRODUCT_ID_AIC8800D80 24 "\<lambda>_. Some 10"] demo_queue(4)
    by (simp add: d Let_def demo_loop_def read_grant_def aicwf_sdio_flow_ctrl_def)
  with 4 show ?thesis using reach_step by fast
qed

lemma demo_taken_reach: "\<exists>q. reachable tx_sys_init demo_step (demo_loop\<lparr>tx := (tx demo_loop)\<lparr>txq := q\<rparr>, pc := Tx_Taken False demo_pkt\<rparr>)"
proof -
  note d = demo_loop_def demo_queued_def tx_sys_init_def aicwf_tx_init_def
  let ?s = "tx demo_loop"
  obtain p q where pq: "aicwf_frame_dequeue demo_q = (Some p, q)"
    using queue_deq_None [OF demo_queue(1)] demo_queue(3) by (metis option.exhaust surj_pair zero_neq_one)
  have "p = demo_pkt" using queue_deq_order [OF demo_queue(1) pq] demo_queue(2) by (simp add: numeral_eq_Suc)
  then have "send_take 24 ?s = Inr (Some demo_pkt, ?s\<lparr>txq := q\<rparr>)" using pq by (simp add: d send_take_def aggr_full_def)
  then have "demo_step demo_loop (demo_loop\<lparr>tx := ?s\<lparr>txq := q\<rparr>, pc := Tx_Taken False demo_pkt\<rparr>)"
    using sdio_step.st_take [of demo_loop 24 demo_pkt "?s\<lparr>txq := q\<rparr>"] demo_queue(4) by (simp add: d)
  then show ?thesis using demo_loop_reach reach_step by fast
qed

lemma demo_sent_reach: "\<exists>y. reachable tx_sys_init demo_step y \<and> bus_up (tx y) \<and> pc y = Tx_Loop \<and> since y = 1 \<and> granted y = 10 \<and>
  sent y = [[demo_pkt]] \<and> accepted y = [demo_pkt] \<and> tx_pktcnt (tx y) = 0 \<and> bustx_trgg (tx y) = 0 \<and> completing y = 0"
proof -
  note d = demo_loop_def demo_queued_def tx_sys_init_def aicwf_tx_init_def
  obtain q where q: "reachable tx_sys_init demo_step (demo_loop\<lparr>tx := (tx demo_loop)\<lparr>txq := q\<rparr>, pc := Tx_Taken False demo_pkt\<rparr>)"
    using demo_taken_reach by blast
  define y where "y = demo_loop\<lparr>tx := (tx demo_loop)\<lparr>txq := q\<rparr>, pc := Tx_Taken False demo_pkt\<rparr>"
  have b: "buf_ok PRODUCT_ID_AIC8800D80 24 [] (tx y)" "bus_up (tx y)" "fw_avail_bufcnt (tx y) = 10" "tx_pktcnt (tx y) = 1"
    by (simp_all add: y_def d buf_ok_def)
  show ?thesis
  proof (rule put_effect [OF b(1) _ demo_pkt_fits b(2), where txnow = False])
    fix w s' assume a: "send_put PRODUCT_ID_AIC8800D80 24 False demo_pkt (tx y) = Inr s'"
      "buf_ok PRODUCT_ID_AIC8800D80 24 [] s'" "rest s' = rest (tx y)" "tx_pktcnt s' = tx_pktcnt (tx y) - 1"
    have "demo_step y ((note_sent (packed y @ [demo_pkt]) s' y)\<lparr>pc := loop_pc False\<rparr>)"
      using a(1) by (intro sdio_step.st_put) (simp_all add: y_def)
    with q have "reachable tx_sys_init demo_step ((note_sent (packed y @ [demo_pkt]) s' y)\<lparr>pc := loop_pc False\<rparr>)"
      using reach_step unfolding y_def by fast
    then show ?thesis using a(2-4) b(2)
      by - (rule exI, rule conjI, assumption, auto simp: note_sent_def loop_pc_def buf_ok_def rest_def y_def d)
  qed (use b in simp_all)
qed

lemma demo_chip: "aicwf_sdio_chipmatch 0xc8a1 0x0082 = Some PRODUCT_ID_AIC8800D80"
  by (simp add: aicwf_sdio_chipmatch_def)

lemma demo_wait_reach: "\<exists>y. reachable tx_sys_init demo_step y \<and> bus_up (tx y) \<and> pc y = Tx_Wait \<and> sent y = [[demo_pkt]] \<and>
  bustx_trgg (tx y) = 0 \<and> completing y = 0"
proof -
  obtain y where y: "reachable tx_sys_init demo_step y" "bus_up (tx y)" "pc y = Tx_Loop" "sent y = [[demo_pkt]]"
      "tx_pktcnt (tx y) = 0" "bustx_trgg (tx y) = 0" "completing y = 0" using demo_sent_reach by blast
  have r: "run_inv PRODUCT_ID_AIC8800D80 24 y" using reach_inv(2) [OF demo_chip zero_less_numeral y(1)] y(2) by simp
  then have "int (unat (qcnt (txq (tx y)))) = 0" using y(3,5) by (simp only: run_inv_def flow_ok_def) simp
  then have "queue_ok 24 (txq (tx y))" "qcnt (txq (tx y)) = 0" using r by (simp_all add: run_inv_def unsigned_eq_0_iff)
  then have "demo_step y (y\<lparr>pc := Tx_Wait\<rparr>)" using y(3) queue_ok_empty by (intro sdio_step.st_leave) auto
  with y(1) have "reachable tx_sys_init demo_step (y\<lparr>pc := Tx_Wait\<rparr>)" using reach_step by fast
  then show ?thesis using y by (intro exI [of _ "y\<lparr>pc := Tx_Wait\<rparr>"]) simp
qed

lemma demo_grants: "\<forall>i. \<exists>j\<ge>i. fc_grants PRODUCT_ID_AIC8800D80 (\<lambda>_. Some 10) j"
  by (auto simp: fc_grants_def fc_value_def sdio_v1_def)

theorem sdio_tx_in_order_witness:
  "\<exists>y. reachable tx_sys_init demo_step y \<and> accepted y = [demo_pkt] \<and> sent y = [[demo_pkt]] \<and> queuelist (txq (tx y)) 3 = [] \<and>
    map sdio_unpack (wire (tx y)) = [[(1, [1, 2, 3])]]"
proof -
  obtain y where y: "reachable tx_sys_init demo_step y" "bus_up (tx y)" "pc y = Tx_Loop" "sent y = [[demo_pkt]]" "accepted y = [demo_pkt]"
    using demo_sent_reach by blast
  have "(3 :: nat) < 8" by simp
  note o = sdio_tx_in_order [OF demo_chip zero_less_numeral y(1,2) this]
  have "p_priority demo_pkt mod 8 = 3" "pkt_body PRODUCT_ID_AIC8800D80 demo_pkt = [1, 2, 3]" by code_simp+
  then have q: "queuelist (txq (tx y)) 3 = []" using o [THEN conjunct1] unfolding y(3-5) by simp
  obtain w where "wire (tx y) = [w]" "sdio_unpack w = map (\<lambda>p. (1, pkt_body PRODUCT_ID_AIC8800D80 p)) [demo_pkt]"
    using o [THEN conjunct2] unfolding y(4) list_all2_Cons2 list_all2_Nil2 by blast
  then have "map sdio_unpack (wire (tx y)) = [[(1, [1, 2, 3])]]" using \<open>pkt_body _ demo_pkt = _\<close> by simp
  with q show ?thesis using y by (intro exI [of _ y] conjI)
qed

theorem sdio_tx_no_lost_wakeup_witness:
  "\<exists>y. reachable tx_sys_init demo_step y \<and> pc y = Tx_Wait \<and> sent y = [[demo_pkt]] \<and> aicwf_is_framequeue_empty (txq (tx y)) \<and> tail (tx y) = 0"
proof -
  obtain y where y: "reachable tx_sys_init demo_step y" "bus_up (tx y)" "pc y = Tx_Wait" "sent y = [[demo_pkt]]"
      "bustx_trgg (tx y) = 0" "completing y = 0" using demo_wait_reach by blast
  have "aicwf_is_framequeue_empty (txq (tx y))" "tail (tx y) = 0"
    using sdio_tx_no_lost_wakeup [OF demo_chip zero_less_numeral y(1-3,5-6)] by simp_all
  then show ?thesis using y by blast
qed

theorem sdio_tx_no_fault_witness:
  "\<exists>y s. reachable tx_sys_init demo_step y \<and> pc y = Tx_Taken False demo_pkt \<and>
    send_put PRODUCT_ID_AIC8800D80 24 False demo_pkt (tx y) = Inr s"
proof -
  obtain q where q: "reachable tx_sys_init demo_step (demo_loop\<lparr>tx := (tx demo_loop)\<lparr>txq := q\<rparr>, pc := Tx_Taken False demo_pkt\<rparr>)"
    using demo_taken_reach by blast
  define y where "y = demo_loop\<lparr>tx := (tx demo_loop)\<lparr>txq := q\<rparr>, pc := Tx_Taken False demo_pkt\<rparr>"
  have y: "reachable tx_sys_init demo_step y" "pc y = Tx_Taken False demo_pkt" using q by (simp_all add: y_def)
  have "\<exists>s. send_put PRODUCT_ID_AIC8800D80 24 False demo_pkt (tx y) = Inr s"
    using sdio_tx_no_fault [OF demo_chip zero_less_numeral y(1), THEN conjunct2, THEN conjunct2] y(2) by blast
  then show ?thesis using y by blast
qed

theorem sdio_tx_grant_kept_witness:
  "\<exists>y. reachable tx_sys_init demo_step y \<and> since y = 1 \<and> granted y = 10 \<and> fw_avail_bufcnt (tx y) = 9"
proof -
  obtain y where y: "reachable tx_sys_init demo_step y" "bus_up (tx y)" "since y = 1" "granted y = 10" using demo_sent_reach by blast
  have "fw_avail_bufcnt (tx y) = 9" using sdio_tx_grant_kept [OF demo_chip zero_less_numeral y(1,2)] y(3,4) by simp
  then show ?thesis using y by blast
qed

theorem sdio_tx_process_drains_witness:
  "\<exists>s' ws. aicwf_sdio_tx_process PRODUCT_ID_AIC8800D80 24 True (\<lambda>_. Some 0x10) True (\<lambda>_. Some 10) (tx demo_queued) = Some (Inr s') \<and>
    wire s' = ws \<and> concat (map sdio_unpack ws) = [(1, [1, 2, 3])]"
proof -
  have "by_prio 8 (queuelist demo_q) = [demo_pkt]" by (simp add: demo_queue numeral_eq_Suc)
  then show ?thesis
    using sdio_tx_process_drains [OF demo_chip zero_less_numeral demo_queued_reach _ _ _ demo_grants, of True "\<lambda>_. Some 0x10" True]
    by (auto simp: demo_queued_def tx_sys_init_def aicwf_tx_init_def demo_pkt_def pkt_body_def sdio_v1_def)
qed

theorem sdio_tx_process_starves_witness:
  "aicwf_sdio_tx_process PRODUCT_ID_AIC8800D80 24 True (\<lambda>_. Some 0x10) True (\<lambda>_. Some 1) (tx demo_queued) = None"
  using demo_queue(4)
  by (intro sdio_tx_process_starves)
    (simp_all add: demo_queued_def tx_sys_init_def aicwf_tx_init_def fc_grants_def fc_value_def sdio_v1_def)

end
