(* ===== verification/Sdio_Rx.thy ===== *)
theory Sdio_Rx
  imports Rx_Frames Sdio_Tx
begin

text \<open>
  The receive side of the SDIO bus, aicwf\_sdio.c: the interrupt handler, which reads a buffer from
  the device and queues it, and the receive thread, which it wakes and which runs the demultiplexer
  of \<open>Rx_Frames\<close>.  The handler completes \<open>busrx_trgg\<close> only when it finds \<open>rx_cnt\<close> at 1, so that the
  counter, the queue and the completion have to agree in every interleaving of the two.
\<close>

section \<open>State\<close>

definition MAX_RXQLEN :: nat where "MAX_RXQLEN = 2000"
definition SDIO_OTHER_INTERRUPT :: u8 where [simp]: "SDIO_OTHER_INTERRUPT = 0x80"

text \<open>
  The fields of \<open>aicwf_rx_priv\<close> and \<open>aicwf_bus\<close> the two use; \<open>ws_irqrx\<close> is the wake-up source the
  handler holds, \<open>sleep_writes\<close> the values written to the sleep register and \<open>rx_freed\<close> the buffers
  freed because the queue was full.
\<close>

record rx_bus =
  rxq :: "u8 list frame_queue"
  rx_cnt :: int
  data_len :: nat
  busrx_trgg :: nat
  rx_up :: bool
  ws_irqrx :: bool
  sleep_writes :: "u8 list"
  rx_freed :: "u8 list list"

text \<open>\<open>aicwf_sdio_readb\<close>: whether the transfer succeeds, and the value it leaves.\<close>

type_synonym reg_read = "bool \<times> u8"

section \<open>Reading a buffer\<close>

text \<open>\<open>fifo\<close> is the byte stream of the read port, None a failed transfer.\<close>

definition aicwf_sdio_recv_pkt :: "(nat \<Rightarrow> u8) option \<Rightarrow> nat \<Rightarrow> u8 list option" where
  "aicwf_sdio_recv_pkt fifo len =
     (if len = 0 then None else case fifo of None \<Rightarrow> None | Some f \<Rightarrow> Some (map f [0..<len]))"

definition aicwf_sdio_readframes :: "bool \<Rightarrow> (nat \<Rightarrow> u8) option \<Rightarrow> rx_bus \<Rightarrow> u8 list option" where
  "aicwf_sdio_readframes skb fifo s =
     (if \<not> rx_up s \<or> \<not> skb then None else aicwf_sdio_recv_pkt fifo (data_len s))"

definition aicwf_sdio_intr_get_len_bytemode :: "reg_read \<Rightarrow> rx_bus \<Rightarrow> rx_bus" where
  "aicwf_sdio_intr_get_len_bytemode bl s = (if \<not> rx_up s then s else s\<lparr>data_len := unat (snd bl) * 4\<rparr>)"

text \<open>What the status register says: no data, a length in the length register, or a number of blocks.\<close>

datatype irq_mode = No_Data | Byte_Mode | Block_Mode nat

definition v1_mode :: "u8 \<Rightarrow> irq_mode" where
  "v1_mode v = (if v = 0 then No_Data else if v < 64 then Block_Mode (unat v) else Byte_Mode)"

definition d80_mode :: "u8 \<Rightarrow> irq_mode" where
  "d80_mode v =
     (if v = 0 then No_Data
      else let intmaskf2 = v OR push_bit 3 1
           in if intmaskf2 > 120
              then if intmaskf2 = 127 then Byte_Mode else Block_Mode (unat (v AND 0x7))
              else if v = 120 then Byte_Mode else Block_Mode (unat (v AND 0x7F)))"

definition irq_pkt :: "irq_mode \<Rightarrow> reg_read \<Rightarrow> bool \<Rightarrow> (nat \<Rightarrow> u8) option \<Rightarrow> rx_bus \<Rightarrow> u8 list option \<times> rx_bus" where
  "irq_pkt md bl skb fifo s =
     (case md of
        No_Data \<Rightarrow> (None, s)
      | Byte_Mode \<Rightarrow> (let s1 = aicwf_sdio_intr_get_len_bytemode bl s in (aicwf_sdio_readframes skb fifo s1, s1))
      | Block_Mode n \<Rightarrow> (let s1 = s\<lparr>data_len := n * SDIOWIFI_FUNC_BLOCKSIZE\<rparr> in (aicwf_sdio_readframes skb fifo s1, s1)))"

section \<open>The interrupt handler\<close>

text \<open>
  The loop on the older chips: once a read of the status has failed or has shown another interrupt,
  it reads until a transfer succeeds, and then the handler returns.  \<open>st i\<close> is the \<open>i\<close>-th read.
\<close>

partial_function (option) status_retry :: "(nat \<Rightarrow> reg_read) \<Rightarrow> nat \<Rightarrow> nat option" where
  [code]: "status_retry st i = (if fst (st i) then Some i else status_retry st (Suc i))"

text \<open>
  The handler up to the queueing: None when it does not return, \<open>Some None\<close> in the first component
  when it returns early, and otherwise the buffer it has read, if any.
\<close>

definition irq_v1 ::
  "(nat \<Rightarrow> reg_read) \<Rightarrow> reg_read \<Rightarrow> bool \<Rightarrow> (nat \<Rightarrow> u8) option \<Rightarrow> rx_bus \<Rightarrow> (u8 list option option \<times> rx_bus) option" where
  "irq_v1 st bl skb fifo s =
     (if \<not> fst (st 0) \<or> snd (st 0) AND SDIO_OTHER_INTERRUPT \<noteq> 0
      then map_option (\<lambda>_. (None, s)) (status_retry st 1)
      else case irq_pkt (v1_mode (snd (st 0))) bl skb fifo (s\<lparr>data_len := unat (snd (st 0)) * SDIOWIFI_FUNC_BLOCKSIZE\<rparr>) of
             (p, s1) \<Rightarrow> Some (Some p, s1))"

definition irq_d80 ::
  "(nat \<Rightarrow> reg_read) \<Rightarrow> reg_read \<Rightarrow> bool \<Rightarrow> (nat \<Rightarrow> u8) option \<Rightarrow> rx_bus \<Rightarrow> (u8 list option option \<times> rx_bus) option" where
  "irq_d80 st bl skb fifo s =
     (if \<not> fst (st 0) then Some (None, s)
      else let v = snd (st 0);
               s1 = (if v AND SDIO_OTHER_INTERRUPT \<noteq> 0
                     then s\<lparr>sleep_writes := sleep_writes s @ [snd (st 1) AND NOT 1]\<rparr> else s)
           in case irq_pkt (d80_mode v) bl skb fifo s1 of (p, s2) \<Rightarrow> Some (Some p, s2))"

definition irq_read ::
  "AICWF_IC \<Rightarrow> (nat \<Rightarrow> reg_read) \<Rightarrow> reg_read \<Rightarrow> bool \<Rightarrow> (nat \<Rightarrow> u8) option \<Rightarrow> rx_bus \<Rightarrow> (u8 list option option \<times> rx_bus) option" where
  "irq_read chipid st bl skb fifo s =
     (if sdio_v1 chipid then irq_v1 st bl skb fifo s else irq_d80 st bl skb fifo s)"

text \<open>\<open>aicwf_sdio_enq_rxpkt\<close> in its two parts: the queue under its lock, then the counter.\<close>

definition enq_rxq :: "u8 list \<Rightarrow> rx_bus \<Rightarrow> bool \<times> rx_bus" where
  "enq_rxq p s =
     (case aicwf_rxframe_enqueue p (rxq s) of
        (True, q) \<Rightarrow> (True, s\<lparr>rxq := q\<rparr>)
      | (False, _) \<Rightarrow> (False, s\<lparr>rx_freed := rx_freed s @ [p]\<rparr>))"

definition enq_count :: "rx_bus \<Rightarrow> rx_bus" where
  "enq_count s = s\<lparr>rx_cnt := rx_cnt s + 1\<rparr>"

definition aicwf_sdio_enq_rxpkt :: "u8 list \<Rightarrow> rx_bus \<Rightarrow> rx_bus" where
  "aicwf_sdio_enq_rxpkt p s = (case enq_rxq p s of (ok, s1) \<Rightarrow> if ok then enq_count s1 else s1)"

definition irq_complete :: "rx_bus \<Rightarrow> rx_bus" where
  "irq_complete s = (if rx_cnt s = 1 then s\<lparr>busrx_trgg := busrx_trgg s + 1\<rparr> else s)\<lparr>ws_irqrx := False\<rparr>"

definition aicwf_sdio_hal_irqhandler ::
  "AICWF_IC \<Rightarrow> (nat \<Rightarrow> reg_read) \<Rightarrow> reg_read \<Rightarrow> bool \<Rightarrow> (nat \<Rightarrow> u8) option \<Rightarrow> rx_bus \<Rightarrow> rx_bus option" where
  "aicwf_sdio_hal_irqhandler chipid st bl skb fifo s =
     (if \<not> rx_up s then Some (s\<lparr>ws_irqrx := False\<rparr>)
      else map_option
        (\<lambda>(r, s1). case r of
             None \<Rightarrow> s1
           | Some p \<Rightarrow> irq_complete (case p of None \<Rightarrow> s1 | Some b \<Rightarrow> aicwf_sdio_enq_rxpkt b s1))
        (irq_read chipid st bl skb fifo (s\<lparr>ws_irqrx := True\<rparr>)))"

definition rx_bus_init :: rx_bus where
  "rx_bus_init =
     \<lparr>rxq = aicwf_frame_queue_init 1 MAX_RXQLEN, rx_cnt = 0, data_len = 0, busrx_trgg = 0, rx_up = True, ws_irqrx = False,
      sleep_writes = [], rx_freed = []\<rparr>"

section \<open>Handler and thread\<close>

text \<open>
  The program counters: the handler has read a buffer, has queued it, or is about to look at the
  counter; the thread sleeps, is about to look at the queue, or cuts up a buffer.
\<close>

datatype irq_pc = Irq_Idle | Irq_Enq "u8 list" | Irq_Inc | Irq_Check

datatype rx_pc = Rx_Wait | Rx_Loop | Rx_Proc "u8 list" | Rx_Exit

text \<open>
  \<open>allocs\<close> counts the allocations of the thread; \<open>got\<close>, \<open>handled\<close> and \<open>lost\<close> log the buffers queued,
  cut up to the end and given up, \<open>events\<close> what was handed on.
\<close>

record rx_sys =
  rx :: rx_bus
  irq :: irq_pc
  thr :: rx_pc
  allocs :: nat
  got :: "u8 list list"
  handled :: "u8 list list"
  lost :: "u8 list list"
  events :: "rx_event list"

fun held :: "rx_pc \<Rightarrow> u8 list list" where
  "held (Rx_Proc p) = [p]"
| "held _ = []"

inductive rx_step :: "AICWF_IC \<Rightarrow> (nat \<Rightarrow> bool) \<Rightarrow> rx_sys \<Rightarrow> rx_sys \<Rightarrow> bool" for chipid mem where
  rx_irq_early: "irq y = Irq_Idle \<Longrightarrow> rx_up (rx y) \<Longrightarrow>
      irq_read chipid st bl skb fifo ((rx y)\<lparr>ws_irqrx := True\<rparr>) = Some (None, s) \<Longrightarrow>
    rx_step chipid mem y (y\<lparr>rx := s\<rparr>)"
| rx_irq_none: "irq y = Irq_Idle \<Longrightarrow> rx_up (rx y) \<Longrightarrow>
      irq_read chipid st bl skb fifo ((rx y)\<lparr>ws_irqrx := True\<rparr>) = Some (Some None, s) \<Longrightarrow>
    rx_step chipid mem y (y\<lparr>rx := s, irq := Irq_Check\<rparr>)"
| rx_irq_data: "irq y = Irq_Idle \<Longrightarrow> rx_up (rx y) \<Longrightarrow>
      irq_read chipid st bl skb fifo ((rx y)\<lparr>ws_irqrx := True\<rparr>) = Some (Some (Some p), s) \<Longrightarrow>
    rx_step chipid mem y (y\<lparr>rx := s, irq := Irq_Enq p\<rparr>)"
| rx_irq_down: "irq y = Irq_Idle \<Longrightarrow> \<not> rx_up (rx y) \<Longrightarrow> rx_step chipid mem y (y\<lparr>rx := (rx y)\<lparr>ws_irqrx := False\<rparr>\<rparr>)"
| rx_enq: "irq y = Irq_Enq p \<Longrightarrow> enq_rxq p (rx y) = (True, s) \<Longrightarrow>
    rx_step chipid mem y (y\<lparr>rx := s, irq := Irq_Inc, got := got y @ [p]\<rparr>)"
| rx_full: "irq y = Irq_Enq p \<Longrightarrow> enq_rxq p (rx y) = (False, s) \<Longrightarrow> rx_step chipid mem y (y\<lparr>rx := s, irq := Irq_Check\<rparr>)"
| rx_inc: "irq y = Irq_Inc \<Longrightarrow> rx_step chipid mem y (y\<lparr>rx := enq_count (rx y), irq := Irq_Check\<rparr>)"
| rx_check: "irq y = Irq_Check \<Longrightarrow> rx_step chipid mem y (y\<lparr>rx := irq_complete (rx y), irq := Irq_Idle\<rparr>)"
| rx_wake: "thr y = Rx_Wait \<Longrightarrow> busrx_trgg (rx y) = Suc n \<Longrightarrow>
    rx_step chipid mem y (y\<lparr>rx := (rx y)\<lparr>busrx_trgg := n\<rparr>, thr := (if rx_up (rx y) then Rx_Loop else Rx_Exit)\<rparr>)"
| rx_empty: "thr y = Rx_Loop \<Longrightarrow> aicwf_is_framequeue_empty (rxq (rx y)) \<Longrightarrow> rx_step chipid mem y (y\<lparr>thr := Rx_Wait\<rparr>)"
| rx_deq: "thr y = Rx_Loop \<Longrightarrow> \<not> aicwf_is_framequeue_empty (rxq (rx y)) \<Longrightarrow> aicwf_frame_dequeue (rxq (rx y)) = (Some p, q) \<Longrightarrow>
    rx_step chipid mem y (y\<lparr>rx := (rx y)\<lparr>rxq := q\<rparr>, thr := Rx_Proc p\<rparr>)"
| rx_done: "thr y = Rx_Proc p \<Longrightarrow> rx_loop mem (rx_up (rx y)) (allocs y) p = Some (evs, Rx_Done, k) \<Longrightarrow>
    rx_step chipid mem y (y\<lparr>rx := (rx y)\<lparr>rx_cnt := rx_cnt (rx y) - 1\<rparr>, thr := Rx_Loop, allocs := k,
      handled := handled y @ [p], events := events y @ evs\<rparr>)"
| rx_no_mem: "thr y = Rx_Proc p \<Longrightarrow> rx_loop mem (rx_up (rx y)) (allocs y) p = Some (evs, Rx_No_Mem, k) \<Longrightarrow>
    rx_step chipid mem y (y\<lparr>thr := Rx_Wait, allocs := k, lost := lost y @ [p], events := events y @ evs\<rparr>)"
| rx_stop: "rx_step chipid mem y (y\<lparr>rx := (rx y)\<lparr>rx_up := False\<rparr>\<rparr>)"

definition rx_sys_init :: rx_sys where
  "rx_sys_init = \<lparr>rx = rx_bus_init, irq = Irq_Idle, thr = Rx_Wait, allocs = 0, got = [], handled = [], lost = [], events = []\<rparr>"

section \<open>Invariant\<close>

definition rxq_ok :: "u8 list frame_queue \<Rightarrow> bool" where
  "rxq_ok q \<longleftrightarrow> frame_queue_inv q \<and> num_prio q = 1"

lemma rxq_enq:
  assumes "rxq_ok q" "aicwf_rxframe_enqueue p q = (True, q')"
  shows "rxq_ok q'" "queuelist q' 0 = queuelist q 0 @ [p]"
proof -
  have "0 < unat (num_prio q)" "frame_queue_inv q" using assms(1) by (simp_all add: rxq_ok_def)
  from inv_enq [OF this(2,1)] assms show "rxq_ok q'" "queuelist q' 0 = queuelist q 0 @ [p]"
    by (simp_all add: rxq_ok_def aicwf_rxframe_enqueue_def)
qed

lemma rxq_deq:
  assumes "rxq_ok q" "aicwf_frame_dequeue q = (Some p, q')"
  shows "rxq_ok q'" "queuelist q 0 = p # queuelist q' 0"
proof -
  have "frame_queue_inv q" "unat (num_prio q) = 1" using assms(1) by (simp_all add: rxq_ok_def)
  from inv_deq [OF this(1) assms(2)] this(2) assms(1) show "rxq_ok q'" "queuelist q 0 = p # queuelist q' 0"
    by (auto simp: rxq_ok_def)
qed

lemma rxq_empty:
  assumes "rxq_ok q"
  shows "aicwf_is_framequeue_empty q \<longleftrightarrow> queuelist q 0 = []"
proof -
  have inv: "frame_queue_inv q" and "unat (num_prio q) = 1" using assms by (simp_all add: rxq_ok_def)
  then have "unat (qcnt q) = length (queuelist q 0)" unfolding frame_queue_inv_def by simp
  then show ?thesis using is_empty_iff [OF inv] by (metis length_0_conv unat_eq_zero)
qed

text \<open>The buffers, the counter and the completion agree as long as no buffer was given up.\<close>

definition rx_order :: "rx_sys \<Rightarrow> bool" where
  "rx_order y \<longleftrightarrow> (lost y = [] \<longrightarrow> got y = handled y @ held (thr y) @ queuelist (rxq (rx y)) 0)"

definition rx_count :: "rx_sys \<Rightarrow> bool" where
  "rx_count y \<longleftrightarrow> rx_cnt (rx y) = int (length (queuelist (rxq (rx y)) 0)) + int (length (held (thr y))) + int (length (lost y)) -
     (if irq y = Irq_Inc then 1 else 0)"

definition rx_wakes :: "rx_sys \<Rightarrow> bool" where
  "rx_wakes y \<longleftrightarrow> (lost y = [] \<and> thr y = Rx_Wait \<and> queuelist (rxq (rx y)) 0 \<noteq> [] \<and> busrx_trgg (rx y) = 0 \<longrightarrow>
     irq y \<in> {Irq_Inc, Irq_Check} \<and> length (queuelist (rxq (rx y)) 0) = 1)"

definition rx_log :: "(nat \<Rightarrow> bool) \<Rightarrow> rx_sys \<Rightarrow> bool" where
  "rx_log mem y \<longleftrightarrow> (lost y = [] \<and> rx_up (rx y) \<longrightarrow>
     (\<exists>evs. events y = concat evs \<and> list_all2 (\<lambda>p ev. \<exists>k k'. rx_loop mem True k p = Some (ev, Rx_Done, k')) (handled y) evs))"

definition rx_inv :: "(nat \<Rightarrow> bool) \<Rightarrow> rx_sys \<Rightarrow> bool" where
  "rx_inv mem y \<longleftrightarrow> rxq_ok (rxq (rx y)) \<and> rx_order y \<and> rx_count y \<and> rx_wakes y \<and> rx_log mem y"

lemmas rx_inv_defs = rx_inv_def rx_order_def rx_count_def rx_wakes_def rx_log_def

text \<open>Reading a buffer leaves the queue, the counter and the completion alone.\<close>

lemma irq_read_fields:
  assumes "irq_read chipid st bl skb fifo s = Some (r, s')"
  shows "rxq s' = rxq s" "rx_cnt s' = rx_cnt s" "busrx_trgg s' = busrx_trgg s" "rx_up s' = rx_up s"
  using assms
  by (auto simp: irq_read_def irq_v1_def irq_d80_def irq_pkt_def aicwf_sdio_intr_get_len_bytemode_def Let_def
      split: if_splits irq_mode.splits prod.splits)

lemma rx_inv_init: "rx_inv mem rx_sys_init"
proof -
  have "frame_queue_inv (aicwf_frame_queue_init 1 MAX_RXQLEN :: u8 list frame_queue)" by (rule frame_queue_inv_init) simp_all
  then show ?thesis
    by (simp add: rx_inv_defs rx_sys_init_def rx_bus_init_def rxq_ok_def) (simp add: aicwf_frame_queue_init_def)
qed

lemma rx_inv_irq:
  assumes "rx_inv mem y" "irq y = Irq_Idle" "irq_read chipid st bl skb fifo ((rx y)\<lparr>ws_irqrx := True\<rparr>) = Some (r, s)"
    "z = y\<lparr>rx := s, irq := pc\<rparr>" "pc \<noteq> Irq_Inc"
  shows "rx_inv mem z"
  using assms(1,2,5) irq_read_fields [OF assms(3)] unfolding assms(4) by (auto simp: rx_inv_defs)

lemma rx_inv_enq:
  assumes i: "rx_inv mem y" and p: "irq y = Irq_Enq p" and e: "enq_rxq p (rx y) = (True, s)"
  shows "rx_inv mem (y\<lparr>rx := s, irq := Irq_Inc, got := got y @ [p]\<rparr>)"
proof -
  obtain q where q: "aicwf_rxframe_enqueue p (rxq (rx y)) = (True, q)" "s = (rx y)\<lparr>rxq := q\<rparr>"
    using e by (auto simp: enq_rxq_def split: prod.splits bool.splits)
  have ok: "rxq_ok (rxq (rx y))" using i by (simp add: rx_inv_def)
  have w: "queuelist (rxq (rx y)) 0 = []" if "lost y = []" "thr y = Rx_Wait" "busrx_trgg (rx y) = 0"
    using i p that by (auto simp: rx_inv_defs)
  show ?thesis using i p q(2) rxq_enq [OF ok q(1)] w by (auto simp: rx_inv_defs)
qed

lemma rx_inv_check:
  assumes i: "rx_inv mem y" and p: "irq y = Irq_Check"
  shows "rx_inv mem (y\<lparr>rx := irq_complete (rx y), irq := Irq_Idle\<rparr>)"
  using i p by (auto simp: rx_inv_defs irq_complete_def)

lemma rx_inv_deq:
  assumes i: "rx_inv mem y" and t: "thr y = Rx_Loop" and d: "aicwf_frame_dequeue (rxq (rx y)) = (Some p, q)"
  shows "rx_inv mem (y\<lparr>rx := (rx y)\<lparr>rxq := q\<rparr>, thr := Rx_Proc p\<rparr>)"
proof -
  have "rxq_ok (rxq (rx y))" using i by (simp add: rx_inv_def)
  from rxq_deq [OF this d] show ?thesis using i t by (auto simp: rx_inv_defs)
qed

lemma rx_inv_done:
  assumes i: "rx_inv mem y" and t: "thr y = Rx_Proc p"
    and l: "rx_loop mem (rx_up (rx y)) (allocs y) p = Some (evs, Rx_Done, k)"
  shows "rx_inv mem (y\<lparr>rx := (rx y)\<lparr>rx_cnt := rx_cnt (rx y) - 1\<rparr>, thr := Rx_Loop, allocs := k,
      handled := handled y @ [p], events := events y @ evs\<rparr>)" (is "rx_inv mem ?z")
proof -
  have "rx_log mem ?z"
    unfolding rx_log_def
  proof
    assume a: "lost ?z = [] \<and> rx_up (rx ?z)"
    then obtain es where "events y = concat es" "list_all2 (\<lambda>p ev. \<exists>k k'. rx_loop mem True k p = Some (ev, Rx_Done, k')) (handled y) es"
      using i by (auto simp: rx_inv_def rx_log_def)
    then show "\<exists>es. events ?z = concat es \<and>
        list_all2 (\<lambda>p ev. \<exists>k k'. rx_loop mem True k p = Some (ev, Rx_Done, k')) (handled ?z) es"
      using a l by (intro exI [of _ "es @ [evs]"]) (auto intro!: list_all2_appendI)
  qed
  moreover have "rxq_ok (rxq (rx ?z)) \<and> rx_order ?z \<and> rx_count ?z \<and> rx_wakes ?z" using i t by (auto simp: rx_inv_defs)
  ultimately show ?thesis by (simp add: rx_inv_def)
qed

lemma rx_inv_step:
  assumes i: "rx_inv mem y" and s: "rx_step chipid mem y z"
  shows "rx_inv mem z"
  using s
proof cases
  case (rx_irq_early st bl skb fifo s)
  then show ?thesis using rx_inv_irq [OF i rx_irq_early(2,4), of z Irq_Idle] by (cases y) simp
next
  case (rx_irq_none st bl skb fifo s)
  then show ?thesis using rx_inv_irq [OF i rx_irq_none(2,4)] by simp
next
  case (rx_irq_data st bl skb fifo p s)
  then show ?thesis using rx_inv_irq [OF i rx_irq_data(2,4)] by simp
next
  case (rx_enq p s)
  then show ?thesis using rx_inv_enq [OF i] by simp
next
  case (rx_full p s)
  then have "s = (rx y)\<lparr>rx_freed := rx_freed (rx y) @ [p]\<rparr>" by (auto simp: enq_rxq_def split: prod.splits bool.splits)
  then show ?thesis using i rx_full by (auto simp: rx_inv_defs)
next
  case (rx_deq p q)
  then show ?thesis using rx_inv_deq [OF i] by simp
next
  case (rx_done p evs k)
  then show ?thesis using rx_inv_done [OF i] by simp
next
  case rx_check
  then show ?thesis using rx_inv_check [OF i] by simp
next
  case rx_empty
  then show ?thesis using i rxq_empty [of "rxq (rx y)"] by (auto simp: rx_inv_defs)
qed (use i in \<open>auto simp: rx_inv_defs enq_count_def\<close>)

interpretation sdio_rx: invariant_of rx_sys_init "rx_step chipid mem" "rx_inv mem" for chipid mem
  by unfold_locales (auto intro: rx_inv_init rx_inv_step)

section \<open>The thread by itself\<close>

text \<open>Allocations that succeed: the loop over a buffer never gives up.\<close>

lemma rx_loop_mem:
  assumes "rx_loop (\<lambda>_. True) up k d = Some (evs, e, k')"
  shows "e \<noteq> Rx_No_Mem"
proof -
  have "mem = (\<lambda>_. True) \<longrightarrow> fst (snd r) \<noteq> Rx_No_Mem" if "rx_loop mem up k d = Some r" for mem up k d r
    using that
  proof (rule rx_loop.raw_induct [rotated], goal_cases)
    case (1 f mem up k d r)
    show ?case
    proof
      assume m: "mem = (\<lambda>_. True)"
      have "snd x \<noteq> None" if "rx_packet True up d = Inr x" for x
        using that by (auto simp: rx_packet_def Let_def split: if_splits)
      then show "fst (snd r) \<noteq> Rx_No_Mem"
        using 1(2) 1(1) [of "\<lambda>_. True"] m by (fastforce split: sum.splits if_splits option.splits prod.splits simp: bind_eq_Some_conv)
    qed
  qed
  from this [OF assms] show ?thesis by simp
qed

lemma rx_none_lost:
  assumes "reachable rx_sys_init (rx_step chipid (\<lambda>_. True)) y"
  shows "lost y = []"
  using assms
proof (induction rule: reachable.induct)
  case reach_init
  then show ?case by (simp add: rx_sys_init_def)
next
  case (reach_step s t)
  from reach_step.hyps(2) reach_step.IH show ?case by cases (auto dest: rx_loop_mem)
qed

text \<open>\<open>aicwf_process_rxframes\<close> is what the thread does between two looks at the completion when no interrupt comes.\<close>

lemma reach_first:
  assumes "step x y" "reachable y step z"
  shows "reachable x step z"
  using assms(2)
  by (induction rule: reachable.induct) (use assms(1) in \<open>auto intro: reachable.intros\<close>)

lemma rx_first:
  "rx_step chipid mem x y \<Longrightarrow> reachable y (rx_step chipid mem) z \<Longrightarrow> reachable x (rx_step chipid mem) z"
  by (rule reach_first)

lemma rx_one: "rx_step chipid mem x y \<Longrightarrow> reachable x (rx_step chipid mem) y"
  by (rule rx_first [OF _ reach_init])

lemma rxq_deq_Some:
  assumes "rxq_ok q" "\<not> aicwf_is_framequeue_empty q"
  obtains p q1 where "aicwf_frame_dequeue q = (Some p, q1)"
proof (cases "aicwf_frame_dequeue q")
  case (Pair o1 q1)
  have "queuelist q 0 \<noteq> []" using rxq_empty [OF assms(1)] assms(2) by simp
  then have "o1 \<noteq> None" using deq_empty [of q q1] Pair assms(1) by (auto simp: rxq_ok_def)
  then show ?thesis using Pair that by auto
qed

text \<open>From a state in which the thread is about to look at the queue, it comes back to the wait.\<close>

definition rx_thread_runs ::
  "AICWF_IC \<Rightarrow> (nat \<Rightarrow> bool) \<Rightarrow> rx_sys \<Rightarrow> rx_event list \<Rightarrow> u8 list frame_queue \<Rightarrow> int \<Rightarrow> bool" where
  "rx_thread_runs chipid mem y evs q c \<longleftrightarrow>
     (\<exists>z. reachable y (rx_step chipid mem) z \<and> thr z = Rx_Wait \<and> rxq (rx z) = q \<and> rx_cnt (rx z) = c \<and>
        events z = events y @ evs \<and> busrx_trgg (rx z) = busrx_trgg (rx y) \<and> irq z = irq y)"

lemma thread_runs_step:
  assumes "rx_step chipid mem y y1" "rx_thread_runs chipid mem y1 evs q c"
    "events y1 = events y @ evs0" "busrx_trgg (rx y1) = busrx_trgg (rx y)" "irq y1 = irq y"
  shows "rx_thread_runs chipid mem y (evs0 @ evs) q c"
  using assms rx_first [OF assms(1)] unfolding rx_thread_runs_def by fastforce

lemma thread_runs_stop: "thr y = Rx_Wait \<Longrightarrow> rx_thread_runs chipid mem y [] (rxq (rx y)) (rx_cnt (rx y))"
  unfolding rx_thread_runs_def by (auto intro: reach_init)

lemma process_steps:
  assumes "aicwf_process_rxframes mem up k q c = Some res"
  shows "\<forall>(y :: rx_sys) r evs q' c'. res = (Inr r, evs, q', c') \<longrightarrow> thr y = Rx_Loop \<longrightarrow> rxq (rx y) = q \<longrightarrow> rx_cnt (rx y) = c \<longrightarrow>
      rx_up (rx y) = up \<longrightarrow> allocs y = k \<longrightarrow> rxq_ok q \<longrightarrow> rx_thread_runs chipid mem y evs q' c'"
  using assms
proof (rule aicwf_process_rxframes.raw_induct [rotated], goal_cases)
  case (1 f mem up k q c res)
  note IH = 1(1) and eq = 1(2)
  show ?case
  proof (intro allI impI)
    fix y :: rx_sys and r evs q' c'
    assume a: "res = (Inr r, evs, q', c')" "thr y = Rx_Loop" "rxq (rx y) = q" "rx_cnt (rx y) = c" "rx_up (rx y) = up" "allocs y = k" "rxq_ok q"
    show "rx_thread_runs chipid mem y evs q' c'"
    proof (cases "aicwf_is_framequeue_empty q")
      case True
      then have "rx_step chipid mem y (y\<lparr>thr := Rx_Wait\<rparr>)" using a by (intro rx_empty) simp_all
      from thread_runs_step [OF this thread_runs_stop, of "[]"] show ?thesis using True eq a by simp
    next
      case False
      obtain p q1 where d: "aicwf_frame_dequeue q = (Some p, q1)" using rxq_deq_Some [OF a(7) False] .
      let ?y1 = "y\<lparr>rx := (rx y)\<lparr>rxq := q1\<rparr>, thr := Rx_Proc p\<rparr>"
      have s1: "rx_step chipid mem y ?y1" using a False d by (intro rx_deq) simp_all
      obtain evs1 e k1 where l: "rx_loop mem up k p = Some (evs1, e, k1)"
        using eq False d a(1) by (auto simp: bind_eq_Some_conv)
      consider (mem) "e = Rx_No_Mem" | (ok) "e = Rx_Done" using eq False d l a(1) by (cases e) auto
      then have "rx_thread_runs chipid mem ?y1 evs q' c'"
      proof cases
        case mem
        let ?z = "?y1\<lparr>thr := Rx_Wait, allocs := k1, lost := lost ?y1 @ [p], events := events ?y1 @ evs1\<rparr>"
        have "rx_step chipid mem ?y1 ?z" using l mem a by (intro rx_no_mem) simp_all
        from thread_runs_step [OF this thread_runs_stop, of evs1] show ?thesis using eq False d l mem a by simp
      next
        case ok
        let ?y2 = "?y1\<lparr>rx := (rx ?y1)\<lparr>rx_cnt := rx_cnt (rx ?y1) - 1\<rparr>, thr := Rx_Loop, allocs := k1,
          handled := handled ?y1 @ [p], events := events ?y1 @ evs1\<rparr>"
        have s2: "rx_step chipid mem ?y1 ?y2" using l ok a by (intro rx_done) simp_all
        obtain evs2 where f: "f mem up k1 q1 (c - 1) = Some (Inr r, evs2, q', c')" "evs = evs1 @ evs2"
          using eq False d l ok a(1) by (auto simp: bind_eq_Some_conv)
        have "rx_thread_runs chipid mem ?y2 evs2 q' c'" using IH [OF f(1)] rxq_deq [OF a(7) d] a by simp
        from thread_runs_step [OF s2 this, of evs1] show ?thesis using f(2) by simp
      qed
      from thread_runs_step [OF s1 this, of "[]"] show ?thesis by simp
    qed
  qed
qed

text \<open>An undisturbed run of the handler.\<close>

lemma got_same: "y\<lparr>rx := s, irq := i, got := got y\<rparr> = y\<lparr>rx := s, irq := i\<rparr>" "y\<lparr>rx := s, got := got y\<rparr> = y\<lparr>rx := s\<rparr>" for y :: rx_sys
  by (cases y, simp)+

lemma irq_tail:
  fixes y :: rx_sys
  assumes "irq y = Irq_Idle" "enq_rxq b s1 = (ok, s2)"
  shows "reachable (y\<lparr>rx := s1, irq := Irq_Check\<rparr>) (rx_step chipid mem) (y\<lparr>rx := irq_complete s1\<rparr>)"
    "\<exists>g. reachable (y\<lparr>rx := s1, irq := Irq_Enq b\<rparr>) (rx_step chipid mem) (y\<lparr>rx := irq_complete (aicwf_sdio_enq_rxpkt b s1), got := g\<rparr>)"
proof -
  have check: "rx_step chipid mem (y\<lparr>rx := t, irq := Irq_Check, got := g\<rparr>) (y\<lparr>rx := irq_complete t, got := g\<rparr>)" for t g
    using rx_check [of "y\<lparr>rx := t, irq := Irq_Check, got := g\<rparr>" chipid mem] assms(1) by (cases y) simp
  then have r: "reachable (y\<lparr>rx := t, irq := Irq_Check, got := g\<rparr>) (rx_step chipid mem) (y\<lparr>rx := irq_complete t, got := g\<rparr>)" for t g
    by (rule rx_one)
  show "reachable (y\<lparr>rx := s1, irq := Irq_Check\<rparr>) (rx_step chipid mem) (y\<lparr>rx := irq_complete s1\<rparr>)"
    using r [where t = s1 and g = "got y"] by (simp add: got_same)
  let ?e = "y\<lparr>rx := s1, irq := Irq_Enq b\<rparr>"
  show "\<exists>g. reachable ?e (rx_step chipid mem) (y\<lparr>rx := irq_complete (aicwf_sdio_enq_rxpkt b s1), got := g\<rparr>)"
  proof (cases ok)
    case True
    let ?g = "got y @ [b]"
    have 1: "rx_step chipid mem ?e (y\<lparr>rx := s2, irq := Irq_Inc, got := ?g\<rparr>)"
      using rx_enq [of ?e b s2 chipid mem] assms(2) True by (cases y) simp
    have 2: "rx_step chipid mem (y\<lparr>rx := s2, irq := Irq_Inc, got := ?g\<rparr>) (y\<lparr>rx := enq_count s2, irq := Irq_Check, got := ?g\<rparr>)"
      using rx_inc [of "y\<lparr>rx := s2, irq := Irq_Inc, got := ?g\<rparr>" chipid mem] by (cases y) simp
    from rx_first [OF 1 rx_first [OF 2 r]]
    show ?thesis using assms(2) True by (auto simp: aicwf_sdio_enq_rxpkt_def)
  next
    case False
    have "rx_step chipid mem ?e (y\<lparr>rx := s2, irq := Irq_Check, got := got y\<rparr>)"
      using rx_full [of ?e b s2 chipid mem] assms(2) False by (cases y) simp
    from rx_first [OF this r] show ?thesis
      using assms(2) False by (intro exI [of _ "got y"]) (simp add: aicwf_sdio_enq_rxpkt_def)
  qed
qed

lemma irq_steps:
  fixes y :: rx_sys
  assumes "irq y = Irq_Idle" "aicwf_sdio_hal_irqhandler chipid st bl skb fifo (rx y) = Some s"
  shows "\<exists>g. reachable y (rx_step chipid mem) (y\<lparr>rx := s, got := g\<rparr>)"
proof (cases "rx_up (rx y)")
  case False
  then have "rx_step chipid mem y (y\<lparr>rx := s, got := got y\<rparr>)"
    using rx_irq_down [of y chipid mem] assms by (cases y) (simp add: aicwf_sdio_hal_irqhandler_def)
  then show ?thesis using rx_one by blast
next
  case True
  then obtain r s1 where r: "irq_read chipid st bl skb fifo ((rx y)\<lparr>ws_irqrx := True\<rparr>) = Some (r, s1)"
      "s = (case r of None \<Rightarrow> s1 | Some p \<Rightarrow> irq_complete (case p of None \<Rightarrow> s1 | Some b \<Rightarrow> aicwf_sdio_enq_rxpkt b s1))"
    using assms(2) by (auto simp: aicwf_sdio_hal_irqhandler_def)
  consider (early) "r = None" | (none) "r = Some None" | (data) b where "r = Some (Some b)" by (metis option.exhaust)
  then show ?thesis
  proof cases
    case early
    then have "rx_step chipid mem y (y\<lparr>rx := s, got := got y\<rparr>)"
      using rx_irq_early [OF assms(1) True, of chipid st bl skb fifo s1 mem] r by (cases y) simp
    then show ?thesis using rx_one by blast
  next
    case none
    have "rx_step chipid mem y (y\<lparr>rx := s1, irq := Irq_Check\<rparr>)" using rx_irq_none [OF assms(1) True] r none by simp
    from rx_first [OF this irq_tail(1) [OF assms(1) surjective_pairing]]
    have "reachable y (rx_step chipid mem) (y\<lparr>rx := s, got := got y\<rparr>)" using r(2) none by (simp add: got_same)
    then show ?thesis by blast
  next
    case (data b)
    have 1: "rx_step chipid mem y (y\<lparr>rx := s1, irq := Irq_Enq b\<rparr>)" using rx_irq_data [OF assms(1) True] r data by simp
    obtain g where "reachable (y\<lparr>rx := s1, irq := Irq_Enq b\<rparr>) (rx_step chipid mem) (y\<lparr>rx := s, got := g\<rparr>)"
      using irq_tail(2) [OF assms(1) surjective_pairing, of b s1] r(2) data by auto
    from rx_first [OF 1 this] show ?thesis by blast
  qed
qed

section \<open>A stalled thread\<close>

text \<open>
  After a buffer was given up the counter stays one too high: once the thread sleeps on a queue that is not
  empty, no interrupt finds the counter at 1.
\<close>

definition rx_stalled :: "rx_sys \<Rightarrow> bool" where
  "rx_stalled y \<longleftrightarrow> thr y = Rx_Wait \<and> busrx_trgg (rx y) = 0 \<and> lost y \<noteq> [] \<and>
     queuelist (rxq (rx y)) 0 \<noteq> [] \<and> (irq y = Irq_Inc \<longrightarrow> length (queuelist (rxq (rx y)) 0) > 1)"

lemma stalled_step:
  assumes "rx_stalled y" "rx_inv mem y" "rx_step chipid mem y z"
  shows "rx_stalled z \<and> handled z = handled y \<and> events z = events y \<and>
    (\<exists>ps. queuelist (rxq (rx z)) 0 = queuelist (rxq (rx y)) 0 @ ps)"
  using assms(3)
proof cases
  case (rx_irq_early st bl skb fifo s)
  then show ?thesis using irq_read_fields [OF rx_irq_early(4)] assms(1) by (simp add: rx_stalled_def)
next
  case (rx_irq_none st bl skb fifo s)
  then show ?thesis using irq_read_fields [OF rx_irq_none(4)] assms(1) by (simp add: rx_stalled_def)
next
  case (rx_irq_data st bl skb fifo p s)
  then show ?thesis using irq_read_fields [OF rx_irq_data(4)] assms(1) by (simp add: rx_stalled_def)
next
  case (rx_enq p s)
  then obtain q where q: "aicwf_rxframe_enqueue p (rxq (rx y)) = (True, q)" "s = (rx y)\<lparr>rxq := q\<rparr>"
    by (auto simp: enq_rxq_def split: prod.splits bool.splits)
  have "rxq_ok (rxq (rx y))" using assms(2) by (simp add: rx_inv_def)
  from rxq_enq [OF this q(1)] show ?thesis using rx_enq q(2) assms(1) by (auto simp: rx_stalled_def)
next
  case (rx_full p s)
  then have "s = (rx y)\<lparr>rx_freed := rx_freed (rx y) @ [p]\<rparr>" by (auto simp: enq_rxq_def split: prod.splits bool.splits)
  then show ?thesis using rx_full assms(1) by (auto simp: rx_stalled_def)
next
  case rx_check
  have "length (queuelist (rxq (rx y)) 0) \<ge> 1" "length (lost y) \<ge> 1" using assms(1) by (simp_all add: rx_stalled_def Suc_le_eq)
  moreover have "rx_cnt (rx y) = int (length (queuelist (rxq (rx y)) 0)) + int (length (held (thr y))) + int (length (lost y))"
    using assms(2) rx_check(2) unfolding rx_inv_def rx_count_def by simp
  ultimately have "rx_cnt (rx y) > 1" by linarith
  then show ?thesis using rx_check assms(1) by (auto simp: rx_stalled_def irq_complete_def)
qed (use assms(1) in \<open>auto simp: rx_stalled_def enq_count_def\<close>)

lemma reachable_trans:
  assumes "reachable x step y" "reachable y step z"
  shows "reachable x step z"
  using assms(2)
proof (induction rule: reachable.induct)
  case (reach_step s t)
  show ?case by (rule reachable.reach_step [OF reach_step.IH reach_step.hyps(2)])
qed (rule assms(1))

section \<open>Properties\<close>

text \<open>A failed read of the status makes the handler return without releasing its wake-up source.\<close>

lemma irq_early_keeps_wakelock:
  assumes "rx_up s" "\<not> sdio_v1 chipid" "\<not> fst (st 0)"
  shows "aicwf_sdio_hal_irqhandler chipid st bl skb fifo s = Some (s\<lparr>ws_irqrx := True\<rparr>)"
  using assms by (simp add: aicwf_sdio_hal_irqhandler_def irq_read_def irq_d80_def)


text \<open>
  C32: The receive thread is woken although the handler completes only when it finds the counter at
  1: as long as the thread has not given up a buffer, in every reachable state in which it waits, no
  completion is pending and no interrupt is being handled, the queue is empty and the counter is 0.
\<close>
theorem sdio_rx_no_lost_wakeup:
  assumes "reachable rx_sys_init (rx_step chipid mem) y" "lost y = []" "thr y = Rx_Wait" "irq y = Irq_Idle" "busrx_trgg (rx y) = 0"
  shows "aicwf_is_framequeue_empty (rxq (rx y)) \<and> rx_cnt (rx y) = 0"
proof -
  have inv: "rx_inv mem y" using sdio_rx.holds [OF assms(1)] .
  then have "queuelist (rxq (rx y)) 0 = []" using assms(2-5) by (auto simp: rx_inv_def rx_wakes_def)
  then show ?thesis using inv assms(2-4) rxq_empty [of "rxq (rx y)"] by (simp add: rx_inv_def rx_count_def)
qed

text \<open>
  C33: After one failed allocation for a message, where \<open>aicwf_process_rxframes\<close> returns without
  lowering the counter, reception can stop for good: once the thread waits with a buffer queued and
  no completion pending, it waits in every later state, nothing more is handed on, and
  buffers only pile up in the queue.
\<close>
theorem sdio_rx_stalls:
  assumes "reachable rx_sys_init (rx_step chipid mem) y" "lost y \<noteq> []" "thr y = Rx_Wait" "irq y = Irq_Idle" "busrx_trgg (rx y) = 0"
    "\<not> aicwf_is_framequeue_empty (rxq (rx y))" "reachable y (rx_step chipid mem) z"
  shows "thr z = Rx_Wait \<and> busrx_trgg (rx z) = 0 \<and> handled z = handled y \<and> events z = events y \<and>
    (\<exists>ps. queuelist (rxq (rx z)) 0 = queuelist (rxq (rx y)) 0 @ ps)"
proof -
  have "rxq_ok (rxq (rx y))" using sdio_rx.holds [OF assms(1)] by (simp add: rx_inv_def)
  then have y: "rx_stalled y" using assms rxq_empty by (auto simp: rx_stalled_def)
  from assms(7) have "rx_stalled z \<and> handled z = handled y \<and> events z = events y \<and>
    (\<exists>ps. queuelist (rxq (rx z)) 0 = queuelist (rxq (rx y)) 0 @ ps)"
  proof (induction rule: reachable.induct)
    case (reach_step s t)
    have "rx_inv mem s" using sdio_rx.holds reachable_trans [OF assms(1) reach_step.hyps(1)] by blast
    then show ?case using stalled_step [of s mem chipid t] reach_step by auto
  qed (use y in simp)
  then show ?thesis by (simp add: rx_stalled_def)
qed

text \<open>
  C34: The interleaving semantics contains the functions of the code: a whole run of the interrupt
  handler in a state in which none is going on, and a whole run of \<open>aicwf_process_rxframes\<close> by the
  thread, are sequences of steps with the same effect on the bus and the same packets handed on.
\<close>
theorem sdio_rx_refines:
  assumes "reachable rx_sys_init (rx_step chipid mem) y"
  shows "(irq y = Irq_Idle \<longrightarrow> aicwf_sdio_hal_irqhandler chipid st bl skb fifo (rx y) = Some s \<longrightarrow>
      (\<exists>g. reachable y (rx_step chipid mem) (y\<lparr>rx := s, got := g\<rparr>))) \<and>
    (thr y = Rx_Loop \<longrightarrow>
      aicwf_process_rxframes mem (rx_up (rx y)) (allocs y) (rxq (rx y)) (rx_cnt (rx y)) = Some (Inr r, evs, q, c) \<longrightarrow>
      (\<exists>z. reachable y (rx_step chipid mem) z \<and> thr z = Rx_Wait \<and> rxq (rx z) = q \<and> rx_cnt (rx z) = c \<and>
         events z = events y @ evs \<and> irq z = irq y))"
proof -
  have "rxq_ok (rxq (rx y))" using sdio_rx.holds [OF assms] by (simp add: rx_inv_def)
  then have "rx_thread_runs chipid mem y evs q c" if "thr y = Rx_Loop"
      "aicwf_process_rxframes mem (rx_up (rx y)) (allocs y) (rxq (rx y)) (rx_cnt (rx y)) = Some (Inr r, evs, q, c)"
    using process_steps [OF that(2)] that(1) by simp
  then show ?thesis by (auto simp: rx_thread_runs_def intro: irq_steps)
qed

section \<open>Runs\<close>

text \<open>The device announces one buffer of twelve bytes in byte mode; the buffer holds one message.\<close>

definition demo_buf :: "u8 list" where
  "demo_buf = [5, 0, 0x11, 0, 1, 2, 3, 4, 5, 0, 0, 0]"

abbreviation demo_irq :: "rx_bus \<Rightarrow> rx_bus option" where
  "demo_irq \<equiv> aicwf_sdio_hal_irqhandler PRODUCT_ID_AIC8800D80 (\<lambda>_. (True, 120)) (True, 3) True (Some (\<lambda>i. demo_buf ! i))"

abbreviation rx_demo_step :: "bool \<Rightarrow> rx_sys \<Rightarrow> rx_sys \<Rightarrow> bool" where
  "rx_demo_step m \<equiv> rx_step PRODUCT_ID_AIC8800D80 (\<lambda>_. m)"

lemma demo_buf_packed: "demo_buf = concat (map rx_pack [w_cfg]) @ []" "rx_wf w_cfg" "rx_trailer []"
  by (code_simp, rule w_rx_wf, simp add: rx_trailer_def)

lemma demo_handler:
  assumes "rx_up s" "aicwf_rxframe_enqueue demo_buf (rxq s) = (True, q)"
  shows "demo_irq s = Some (irq_complete (s\<lparr>ws_irqrx := True, data_len := 12, rxq := q, rx_cnt := rx_cnt s + 1\<rparr>))"
proof -
  have "map (\<lambda>i. demo_buf ! i) [0..<12] = demo_buf" by code_simp
  then have "irq_read PRODUCT_ID_AIC8800D80 (\<lambda>_. (True, 120)) (True, 3) True (Some (\<lambda>i. demo_buf ! i)) (s\<lparr>ws_irqrx := True\<rparr>) =
      Some (Some (Some demo_buf), s\<lparr>ws_irqrx := True, data_len := 12\<rparr>)"
    using assms(1)
    by (simp add: irq_read_def sdio_v1_def irq_d80_def d80_mode_def irq_pkt_def aicwf_sdio_intr_get_len_bytemode_def
        aicwf_sdio_readframes_def aicwf_sdio_recv_pkt_def Let_def)
  then show ?thesis using assms
    by (simp add: aicwf_sdio_hal_irqhandler_def aicwf_sdio_enq_rxpkt_def enq_rxq_def enq_count_def)
qed

lemma demo_enqueue:
  assumes "rxq_ok q" "length (queuelist q 0) < 2" "qmax q = 2000"
  obtains q' where "aicwf_rxframe_enqueue demo_buf q = (True, q')" "rxq_ok q'" "queuelist q' 0 = queuelist q 0 @ [demo_buf]" "qmax q' = 2000"
proof -
  have "unat (num_prio q) = 1" "frame_queue_inv q" using assms(1) by (simp_all add: rxq_ok_def)
  then have "unat (qcnt q) = length (queuelist q 0)" unfolding frame_queue_inv_def by simp
  then have "qcnt q < qmax q" using assms(2,3) by (simp add: word_less_nat_alt)
  then have e: "aicwf_rxframe_enqueue demo_buf q = (True, snd (aicwf_frame_queue_penq 0 demo_buf q))"
    using assms(2,3) by (simp add: aicwf_rxframe_enqueue_def aicwf_frame_enq_def)
  have "qmax (snd (aicwf_frame_queue_penq 0 demo_buf q)) = qmax q" by (simp add: aicwf_frame_queue_penq_def Let_def)
  then show ?thesis using that [OF e] rxq_enq [OF assms(1) e] assms(3) by simp
qed

lemma deq_qmax: "aicwf_frame_dequeue q = (r, q') \<Longrightarrow> qmax q' = qmax q"
  by (auto simp: aicwf_frame_dequeue_def Let_def split: if_splits list.splits)

lemma demo_proc_reach:
  "\<exists>y. reachable rx_sys_init (rx_demo_step m) y \<and> thr y = Rx_Proc demo_buf \<and> irq y = Irq_Idle \<and> rxq_ok (rxq (rx y)) \<and>
     queuelist (rxq (rx y)) 0 = [] \<and> qmax (rxq (rx y)) = 2000 \<and> rx_cnt (rx y) = 1 \<and> busrx_trgg (rx y) = 0 \<and> rx_up (rx y) \<and>
     handled y = [] \<and> lost y = [] \<and> events y = [] \<and> allocs y = 0"
proof -
  let ?b = rx_bus_init
  have i: "rxq_ok (rxq ?b)" "length (queuelist (rxq ?b) 0) < 2" "qmax (rxq ?b) = 2000" "queuelist (rxq ?b) 0 = []"
    using rx_inv_init by (simp_all add: rx_inv_def rx_sys_init_def) (simp_all add: rx_bus_init_def aicwf_frame_queue_init_def MAX_RXQLEN_def)
  from demo_enqueue [OF i(1-3)] obtain q where q: "aicwf_rxframe_enqueue demo_buf (rxq ?b) = (True, q)" "rxq_ok q"
    "queuelist q 0 = [demo_buf]" "qmax q = 2000" using i(4) by auto
  define s where "s = irq_complete (?b\<lparr>ws_irqrx := True, data_len := 12, rxq := q, rx_cnt := rx_cnt ?b + 1\<rparr>)"
  have "demo_irq (rx rx_sys_init) = Some s" using demo_handler [OF _ q(1)] by (simp add: rx_sys_init_def s_def) (simp add: rx_bus_init_def)
  then obtain g where 1: "reachable rx_sys_init (rx_demo_step m) (rx_sys_init\<lparr>rx := s, got := g\<rparr>)"
    using irq_steps [of rx_sys_init] by (force simp: rx_sys_init_def)
  have s: "rxq s = q" "rx_cnt s = 1" "busrx_trgg s = 1" "rx_up s" by (simp_all add: s_def irq_complete_def rx_bus_init_def)
  define y2 where "y2 = rx_sys_init\<lparr>rx := s\<lparr>busrx_trgg := 0\<rparr>, got := g, thr := Rx_Loop\<rparr>"
  have "rx_demo_step m (rx_sys_init\<lparr>rx := s, got := g\<rparr>) y2"
    using rx_wake [of "rx_sys_init\<lparr>rx := s, got := g\<rparr>" 0] s by (simp add: y2_def rx_sys_init_def)
  then have 2: "reachable rx_sys_init (rx_demo_step m) y2" by (rule reachable.reach_step [OF 1])
  have ne: "\<not> aicwf_is_framequeue_empty q" using rxq_empty [OF q(2)] q(3) by simp
  then obtain p q1 where d: "aicwf_frame_dequeue q = (Some p, q1)" using rxq_deq_Some [OF q(2)] by blast
  have q1: "rxq_ok q1" "p = demo_buf" "queuelist q1 0 = []" "qmax q1 = 2000"
    using rxq_deq [OF q(2) d] q(3,4) deq_qmax [OF d] by simp_all
  have "rx_demo_step m y2 (y2\<lparr>rx := (rx y2)\<lparr>rxq := q1\<rparr>, thr := Rx_Proc demo_buf\<rparr>)"
    using rx_deq [of y2 demo_buf q1] d q1(2) ne s by (simp add: y2_def)
  from reachable.reach_step [OF 2 this] show ?thesis
    using q1 s by - (rule exI, rule conjI, assumption, simp add: y2_def rx_sys_init_def)
qed

lemma demo_done_reach:
  "\<exists>y. reachable rx_sys_init (rx_demo_step True) y \<and> thr y = Rx_Wait \<and> irq y = Irq_Idle \<and> busrx_trgg (rx y) = 0 \<and> rx_up (rx y) \<and>
     handled y = [demo_buf] \<and> lost y = []"
proof -
  obtain y where y: "reachable rx_sys_init (rx_demo_step True) y" "thr y = Rx_Proc demo_buf" "irq y = Irq_Idle" "rxq_ok (rxq (rx y))"
     "queuelist (rxq (rx y)) 0 = []" "busrx_trgg (rx y) = 0" "rx_up (rx y)" "handled y = []" "lost y = []"
    using demo_proc_reach [of True] by blast
  obtain evs k where l: "rx_loop (\<lambda>_. True) (rx_up (rx y)) (allocs y) demo_buf = Some (evs, Rx_Done, k)"
    using rx_loop_packed [of "[w_cfg]" "[]"] demo_buf_packed by simp
  from reachable.reach_step [OF y(1) rx_done [OF y(2) l]] obtain y1 where
    y1: "reachable rx_sys_init (rx_demo_step True) y1" "thr y1 = Rx_Loop" "irq y1 = Irq_Idle" "rxq (rx y1) = rxq (rx y)"
      "busrx_trgg (rx y1) = 0" "rx_up (rx y1)" "handled y1 = [demo_buf]" "lost y1 = []"
    using y by fastforce
  have "aicwf_is_framequeue_empty (rxq (rx y1))" using y1(4) y(4,5) rxq_empty by simp
  from reachable.reach_step [OF y1(1) rx_empty [OF y1(2) this]] show ?thesis using y1 by fastforce
qed

lemma demo_stall_reach:
  "\<exists>y. reachable rx_sys_init (rx_demo_step False) y \<and> thr y = Rx_Wait \<and> irq y = Irq_Idle \<and> busrx_trgg (rx y) = 0 \<and> rx_up (rx y) \<and>
     queuelist (rxq (rx y)) 0 = [demo_buf] \<and> qmax (rxq (rx y)) = 2000 \<and> rxq_ok (rxq (rx y)) \<and> lost y = [demo_buf] \<and> events y = []"
proof -
  obtain y where y: "reachable rx_sys_init (rx_demo_step False) y" "thr y = Rx_Proc demo_buf" "irq y = Irq_Idle" "rxq_ok (rxq (rx y))"
     "queuelist (rxq (rx y)) 0 = []" "qmax (rxq (rx y)) = 2000" "rx_cnt (rx y) = 1" "busrx_trgg (rx y) = 0" "rx_up (rx y)"
     "lost y = []" "events y = []"
    using demo_proc_reach [of False] by blast
  obtain q where q: "aicwf_rxframe_enqueue demo_buf (rxq (rx y)) = (True, q)" "rxq_ok q" "queuelist q 0 = [demo_buf]" "qmax q = 2000"
    using demo_enqueue [OF y(4) _ y(6)] y(5) by auto
  define s where "s = irq_complete ((rx y)\<lparr>ws_irqrx := True, data_len := 12, rxq := q, rx_cnt := rx_cnt (rx y) + 1\<rparr>)"
  have "demo_irq (rx y) = Some s" using demo_handler [OF y(9) q(1)] by (simp add: s_def)
  then obtain g where "reachable y (rx_demo_step False) (y\<lparr>rx := s, got := g\<rparr>)" using irq_steps [OF y(3)] by blast
  then have r: "reachable rx_sys_init (rx_demo_step False) (y\<lparr>rx := s, got := g\<rparr>)" by (rule reachable_trans [OF y(1)])
  have s: "rxq s = q" "busrx_trgg s = 0" "rx_up s" using y by (simp_all add: s_def irq_complete_def)
  have "aicwf_another_ptk demo_buf = Inr True" "rx_packet False True demo_buf = Inr ([], None)" by code_simp+
  then have "rx_loop (\<lambda>_. False) True k demo_buf = Some ([], Rx_No_Mem, Suc k)" for k by (subst rx_loop.simps) simp
  then have "rx_demo_step False (y\<lparr>rx := s, got := g\<rparr>)
      ((y\<lparr>rx := s, got := g\<rparr>)\<lparr>thr := Rx_Wait, allocs := Suc (allocs y), lost := lost y @ [demo_buf], events := events y @ []\<rparr>)"
    using rx_no_mem [of "y\<lparr>rx := s, got := g\<rparr>" demo_buf "\<lambda>_. False" "[]"] y(2) s(3) by simp
  from reachable.reach_step [OF r this] show ?thesis
    using s q y by - (rule exI, rule conjI, assumption, simp)
qed


theorem sdio_rx_no_lost_wakeup_witness:
  "\<exists>y. reachable rx_sys_init (rx_demo_step True) y \<and> handled y = [demo_buf] \<and> aicwf_is_framequeue_empty (rxq (rx y)) \<and> rx_cnt (rx y) = 0"
proof -
  obtain y where y: "reachable rx_sys_init (rx_demo_step True) y" "thr y = Rx_Wait" "irq y = Irq_Idle" "busrx_trgg (rx y) = 0"
     "handled y = [demo_buf]" "lost y = []" using demo_done_reach by blast
  from sdio_rx_no_lost_wakeup [OF y(1,6,2,3,4)] show ?thesis using y by blast
qed

theorem sdio_rx_stalls_witness:
  "\<exists>y z. reachable rx_sys_init (rx_demo_step False) y \<and> reachable y (rx_demo_step False) z \<and>
     queuelist (rxq (rx z)) 0 = [demo_buf, demo_buf] \<and> thr z = Rx_Wait \<and> busrx_trgg (rx z) = 0"
proof -
  obtain y where y: "reachable rx_sys_init (rx_demo_step False) y" "thr y = Rx_Wait" "irq y = Irq_Idle" "busrx_trgg (rx y) = 0" "rx_up (rx y)"
     "queuelist (rxq (rx y)) 0 = [demo_buf]" "qmax (rxq (rx y)) = 2000" "rxq_ok (rxq (rx y))" "lost y = [demo_buf]" "events y = []"
    using demo_stall_reach by blast
  obtain q where q: "aicwf_rxframe_enqueue demo_buf (rxq (rx y)) = (True, q)" "queuelist q 0 = [demo_buf, demo_buf]"
    using demo_enqueue [OF y(8) _ y(7)] y(6) by auto
  then obtain s g where r: "reachable y (rx_demo_step False) (y\<lparr>rx := s, got := g\<rparr>)" "rxq s = q"
    using irq_steps [OF y(3) demo_handler [OF y(5) q(1)]] by (fastforce simp: irq_complete_def split: if_splits)
  have "lost y \<noteq> []" "\<not> aicwf_is_framequeue_empty (rxq (rx y))" using y(6,8,9) rxq_empty by simp_all
  from sdio_rx_stalls [OF y(1) this(1) y(2-4) this(2) r(1)] show ?thesis using y(1) r q(2) by fastforce
qed

theorem sdio_rx_refines_witness:
  "\<exists>s g. demo_irq (rx rx_sys_init) = Some s \<and> rx_cnt s = 1 \<and>
     reachable rx_sys_init (rx_demo_step True) (rx_sys_init\<lparr>rx := s, got := g\<rparr>)"
proof -
  have i: "rxq_ok (rxq (rx rx_sys_init))" "length (queuelist (rxq (rx rx_sys_init)) 0) < 2" "qmax (rxq (rx rx_sys_init)) = 2000"
    using rx_inv_init by (simp add: rx_inv_def) (simp_all add: rx_sys_init_def rx_bus_init_def aicwf_frame_queue_init_def MAX_RXQLEN_def)
  obtain q where "aicwf_rxframe_enqueue demo_buf (rxq (rx rx_sys_init)) = (True, q)" using demo_enqueue [OF i] by blast
  from demo_handler [OF _ this] obtain s where s: "demo_irq (rx rx_sys_init) = Some s" "rx_cnt s = 1"
    by (auto simp: rx_sys_init_def rx_bus_init_def irq_complete_def)
  have "irq rx_sys_init = Irq_Idle" by (simp add: rx_sys_init_def)
  then show ?thesis using sdio_rx_refines [OF reach_init, THEN conjunct1] s by blast
qed

end
