(* ===== verification/Radar.thy ===== *)
theory Radar
  imports Aic_Prelude
begin

text \<open>
  Radar detection, rwnx\_radar.c: the pulses the firmware reports are queued per detector, grouped
  into sequences with a common pulse repetition interval (PRI) and compared with the waveforms of
  the regulatory domain.  A pulse queue is the list of its time stamps, newest first, as the
  linked list has them; time stamps are 64-bit and intervals 32-bit words, as in the code.  The
  objects come from two pools shared by all detectors and from \<open>kmalloc\<close>, whose outcomes are a
  parameter.
\<close>

section \<open>Waveforms\<close>

datatype radar_waveform_type = RADAR_WAVEFORM_SHORT | RADAR_WAVEFORM_WEATHER | RADAR_WAVEFORM_INTERLEAVED | RADAR_WAVEFORM_LONG

record radar_detector_specs =
  type_id :: u8
  width_min :: u8
  width_max :: u8
  pri_min :: u16
  pri_max :: u16
  num_pri :: u8
  ppb :: u8
  rs_ppb_thresh :: u8
  max_pri_tolerance :: u8
  waveform :: radar_waveform_type

definition PRI_TOLERANCE :: nat where [simp]: "PRI_TOLERANCE = 16"
definition PPB_THRESH :: "nat \<Rightarrow> nat" where "PPB_THRESH n = (n * 50 + 50) div 100"
definition PRF2PRI :: "nat \<Rightarrow> nat" where "PRF2PRI prf = (1000000 + prf div 2) div prf"

definition ETSI_PATTERN_SHORT :: "nat \<Rightarrow> nat \<Rightarrow> nat \<Rightarrow> nat \<Rightarrow> nat \<Rightarrow> nat \<Rightarrow> radar_detector_specs" where
  "ETSI_PATTERN_SHORT i wmin wmax pmin pmax n =
     \<lparr>type_id = word_of_nat i, width_min = word_of_nat wmin, width_max = word_of_nat wmax,
      pri_min = word_of_nat (PRF2PRI pmax - PRI_TOLERANCE), pri_max = word_of_nat (PRF2PRI pmin + PRI_TOLERANCE),
      num_pri = 1, ppb = word_of_nat n, rs_ppb_thresh = word_of_nat (PPB_THRESH n),
      max_pri_tolerance = word_of_nat PRI_TOLERANCE, waveform = RADAR_WAVEFORM_SHORT\<rparr>"

definition ETSI_PATTERN_INTERLEAVED ::
  "nat \<Rightarrow> nat \<Rightarrow> nat \<Rightarrow> nat \<Rightarrow> nat \<Rightarrow> nat \<Rightarrow> nat \<Rightarrow> nat \<Rightarrow> radar_detector_specs" where
  "ETSI_PATTERN_INTERLEAVED i wmin wmax pmin pmax prfmin prfmax n =
     \<lparr>type_id = word_of_nat i, width_min = word_of_nat wmin, width_max = word_of_nat wmax,
      pri_min = word_of_nat (PRF2PRI pmax * prfmin - PRI_TOLERANCE), pri_max = word_of_nat (PRF2PRI pmin * prfmax + PRI_TOLERANCE),
      num_pri = word_of_nat prfmax, ppb = word_of_nat (n * prfmax), rs_ppb_thresh = word_of_nat (PPB_THRESH n),
      max_pri_tolerance = word_of_nat PRI_TOLERANCE, waveform = RADAR_WAVEFORM_INTERLEAVED\<rparr>"

definition FCC_PATTERN ::
  "nat \<Rightarrow> nat \<Rightarrow> nat \<Rightarrow> nat \<Rightarrow> nat \<Rightarrow> nat \<Rightarrow> nat \<Rightarrow> radar_waveform_type \<Rightarrow> radar_detector_specs" where
  "FCC_PATTERN i wmin wmax pmin pmax prf n ty =
     \<lparr>type_id = word_of_nat i, width_min = word_of_nat wmin, width_max = word_of_nat wmax,
      pri_min = word_of_nat (pmin - PRI_TOLERANCE), pri_max = word_of_nat (pmax * prf + PRI_TOLERANCE),
      num_pri = word_of_nat prf, ppb = word_of_nat (n * prf), rs_ppb_thresh = word_of_nat (PPB_THRESH n),
      max_pri_tolerance = word_of_nat PRI_TOLERANCE, waveform = ty\<rparr>"

definition etsi_radar_ref_types_v17_riu :: "radar_detector_specs list" where
  "etsi_radar_ref_types_v17_riu =
     [ETSI_PATTERN_SHORT 0 0 8 700 700 18, ETSI_PATTERN_SHORT 1 0 10 200 1000 10, ETSI_PATTERN_SHORT 2 0 22 200 1600 15,
      ETSI_PATTERN_SHORT 3 0 22 2300 4000 25, ETSI_PATTERN_SHORT 4 20 38 2000 4000 20,
      ETSI_PATTERN_INTERLEAVED 5 0 8 300 400 2 3 10, ETSI_PATTERN_INTERLEAVED 6 0 8 400 1200 2 3 15]"

definition etsi_radar_ref_types_v17_fcu :: "radar_detector_specs list" where
  "etsi_radar_ref_types_v17_fcu =
     [ETSI_PATTERN_SHORT 0 0 8 700 700 18, ETSI_PATTERN_SHORT 1 0 8 200 1000 10, ETSI_PATTERN_SHORT 2 0 16 200 1600 15,
      ETSI_PATTERN_SHORT 3 0 16 2300 4000 25, ETSI_PATTERN_SHORT 4 20 34 2000 4000 20,
      ETSI_PATTERN_INTERLEAVED 5 0 8 300 400 2 3 10, ETSI_PATTERN_INTERLEAVED 6 0 8 400 1200 2 3 15]"

definition fcc_radar_ref_types_riu :: "radar_detector_specs list" where
  "fcc_radar_ref_types_riu =
     [FCC_PATTERN 0 0 8 1428 1428 1 18 RADAR_WAVEFORM_SHORT, FCC_PATTERN 1 0 8 518 3066 1 102 RADAR_WAVEFORM_WEATHER,
      FCC_PATTERN 2 0 8 150 230 1 23 RADAR_WAVEFORM_SHORT, FCC_PATTERN 3 6 20 200 500 1 16 RADAR_WAVEFORM_SHORT,
      FCC_PATTERN 4 10 28 200 500 1 12 RADAR_WAVEFORM_SHORT, FCC_PATTERN 5 50 110 1000 2000 1 8 RADAR_WAVEFORM_LONG,
      FCC_PATTERN 6 0 8 333 333 1 9 RADAR_WAVEFORM_SHORT]"

definition fcc_radar_ref_types_fcu :: "radar_detector_specs list" where
  "fcc_radar_ref_types_fcu =
     [FCC_PATTERN 0 0 8 1428 1428 1 18 RADAR_WAVEFORM_SHORT, FCC_PATTERN 1 0 8 518 3066 1 102 RADAR_WAVEFORM_WEATHER,
      FCC_PATTERN 2 0 8 150 230 1 23 RADAR_WAVEFORM_SHORT, FCC_PATTERN 3 6 12 200 500 1 16 RADAR_WAVEFORM_SHORT,
      FCC_PATTERN 4 10 22 200 500 1 12 RADAR_WAVEFORM_SHORT, FCC_PATTERN 5 50 104 1000 2000 1 8 RADAR_WAVEFORM_LONG,
      FCC_PATTERN 6 0 8 333 333 1 9 RADAR_WAVEFORM_SHORT]"

definition jp_radar_ref_types_riu :: "radar_detector_specs list" where
  "jp_radar_ref_types_riu =
     [FCC_PATTERN 0 0 4 1388 1388 1 18 RADAR_WAVEFORM_SHORT, FCC_PATTERN 1 0 4 1428 1428 1 18 RADAR_WAVEFORM_SHORT,
      FCC_PATTERN 2 0 4 4000 4000 1 18 RADAR_WAVEFORM_SHORT, FCC_PATTERN 3 0 6 150 230 1 23 RADAR_WAVEFORM_SHORT,
      FCC_PATTERN 4 6 12 200 500 1 16 RADAR_WAVEFORM_SHORT, FCC_PATTERN 5 10 22 200 500 1 12 RADAR_WAVEFORM_SHORT,
      FCC_PATTERN 6 48 110 1000 2000 1 8 RADAR_WAVEFORM_LONG, FCC_PATTERN 7 0 4 333 333 1 9 RADAR_WAVEFORM_SHORT]"

definition jp_radar_ref_types_fcu :: "radar_detector_specs list" where
  "jp_radar_ref_types_fcu =
     [FCC_PATTERN 0 0 4 1388 1388 1 18 RADAR_WAVEFORM_SHORT, FCC_PATTERN 1 0 4 1428 1428 1 18 RADAR_WAVEFORM_SHORT,
      FCC_PATTERN 2 0 4 4000 4000 1 18 RADAR_WAVEFORM_SHORT, FCC_PATTERN 3 0 6 150 230 1 23 RADAR_WAVEFORM_SHORT,
      FCC_PATTERN 4 6 12 200 500 1 16 RADAR_WAVEFORM_SHORT, FCC_PATTERN 5 10 22 200 500 1 12 RADAR_WAVEFORM_SHORT,
      FCC_PATTERN 6 48 110 1000 2000 1 8 RADAR_WAVEFORM_LONG, FCC_PATTERN 7 0 4 333 333 1 9 RADAR_WAVEFORM_SHORT]"

datatype nl80211_dfs_regions = NL80211_DFS_UNSET | NL80211_DFS_FCC | NL80211_DFS_ETSI | NL80211_DFS_JP

record radar_types =
  rt_region :: nl80211_dfs_regions
  spec_riu :: "radar_detector_specs list"
  spec_fcu :: "radar_detector_specs list"

definition dfs_domains :: "radar_types list" where
  "dfs_domains =
     [\<lparr>rt_region = NL80211_DFS_ETSI, spec_riu = etsi_radar_ref_types_v17_riu, spec_fcu = etsi_radar_ref_types_v17_fcu\<rparr>,
      \<lparr>rt_region = NL80211_DFS_FCC, spec_riu = fcc_radar_ref_types_riu, spec_fcu = fcc_radar_ref_types_fcu\<rparr>,
      \<lparr>rt_region = NL80211_DFS_JP, spec_riu = jp_radar_ref_types_riu, spec_fcu = jp_radar_ref_types_fcu\<rparr>]"

section \<open>Sequences, detectors and pools\<close>

record pri_sequence =
  ps_pri :: u32
  ps_dur :: u32
  ps_count :: u32
  ps_count_falses :: u32
  ps_first_ts :: u64
  ps_last_ts :: u64
  ps_deadline_ts :: u64
  ps_ppb_thresh :: u8

record pri_detector =
  pde_rs :: radar_detector_specs
  pde_last_ts :: u64
  sequences :: "pri_sequence list"
  pulses :: "u64 list"
  pde_count :: u32
  max_count :: u32
  window_size :: u32
  pde_freq :: u16

text \<open>
  The pools: \<open>pulse_pool\<close> counts the free pulse objects, \<open>pseq_pool\<close> holds the free sequences with
  the content they had.  \<open>mallocs\<close> counts the calls of \<open>kmalloc\<close>; \<open>pulse_objs\<close> and \<open>pseq_objs\<close> count the
  objects allocated and not freed.
\<close>

record radar_pools =
  pulse_pool :: nat
  pseq_pool :: "pri_sequence list"
  singleton_pool_references :: u32
  mallocs :: nat
  pulse_objs :: nat
  pseq_objs :: nat

definition pool_register_ref :: "radar_pools \<Rightarrow> radar_pools" where
  "pool_register_ref P = P\<lparr>singleton_pool_references := singleton_pool_references P + 1\<rparr>"

definition pool_deregister_ref :: "radar_pools \<Rightarrow> radar_pools" where
  "pool_deregister_ref P =
     (let P1 = P\<lparr>singleton_pool_references := singleton_pool_references P - 1\<rparr>
      in if singleton_pool_references P1 = 0
         then P1\<lparr>pulse_pool := 0, pulse_objs := pulse_objs P1 - pulse_pool P1,
                 pseq_pool := [], pseq_objs := pseq_objs P1 - length (pseq_pool P1)\<rparr>
         else P1)"

definition pool_put_pulse_elem :: "radar_pools \<Rightarrow> radar_pools" where
  "pool_put_pulse_elem P = P\<lparr>pulse_pool := Suc (pulse_pool P)\<rparr>"

definition pool_put_pseq_elem :: "pri_sequence \<Rightarrow> radar_pools \<Rightarrow> radar_pools" where
  "pool_put_pseq_elem ps P = P\<lparr>pseq_pool := ps # pseq_pool P\<rparr>"

text \<open>\<open>mem k\<close> is the outcome of the \<open>k\<close>-th \<open>kmalloc\<close>: None, or the content the memory happens to have.\<close>

definition pool_get_pseq_elem :: "(nat \<Rightarrow> pri_sequence option) \<Rightarrow> radar_pools \<Rightarrow> pri_sequence option \<times> radar_pools" where
  "pool_get_pseq_elem mem P =
     (case pseq_pool P of
        ps # pss \<Rightarrow> (Some ps, P\<lparr>pseq_pool := pss\<rparr>)
      | [] \<Rightarrow> (mem (mallocs P), P\<lparr>mallocs := Suc (mallocs P),
                 pseq_objs := (if mem (mallocs P) = None then pseq_objs P else Suc (pseq_objs P))\<rparr>))"

text \<open>\<open>pool_get_pulse_elem\<close> and the allocation its caller falls back to.\<close>

definition pool_get_pulse_elem :: "(nat \<Rightarrow> pri_sequence option) \<Rightarrow> radar_pools \<Rightarrow> bool \<times> radar_pools" where
  "pool_get_pulse_elem mem P =
     (if pulse_pool P > 0 then (True, P\<lparr>pulse_pool := pulse_pool P - 1\<rparr>)
      else (mem (mallocs P) \<noteq> None, P\<lparr>mallocs := Suc (mallocs P),
              pulse_objs := (if mem (mallocs P) = None then pulse_objs P else Suc (pulse_objs P))\<rparr>))"

section \<open>The pulse queue\<close>

definition pulse_queue_get_tail :: "pri_detector \<Rightarrow> u64 option" where
  "pulse_queue_get_tail pde = (if pulses pde = [] then None else Some (last (pulses pde)))"

definition pulse_queue_dequeue :: "pri_detector \<times> radar_pools \<Rightarrow> bool \<times> pri_detector \<times> radar_pools" where
  "pulse_queue_dequeue = (\<lambda>(pde, P).
     case pulse_queue_get_tail pde of
       None \<Rightarrow> (pde_count pde > 0, pde, P)
     | Some _ \<Rightarrow> (let pde1 = pde\<lparr>pulses := butlast (pulses pde), pde_count := pde_count pde - 1\<rparr>
                  in (pde_count pde1 > 0, pde1, pool_put_pulse_elem P)))"

text \<open>The loops that remove pulses older than \<open>min_valid_ts\<close>; the number of rounds is the first result.\<close>

function drop_old :: "u64 \<Rightarrow> pri_detector \<times> radar_pools \<Rightarrow> nat \<times> pri_detector \<times> radar_pools" where
  "drop_old min_valid_ts (pde, P) =
     (case pulse_queue_get_tail pde of
        None \<Rightarrow> (0, pde, P)
      | Some ts \<Rightarrow>
          if ts \<ge> min_valid_ts then (0, pde, P)
          else (case drop_old min_valid_ts (snd (pulse_queue_dequeue (pde, P))) of (n, r) \<Rightarrow> (Suc n, r)))"
  by pat_completeness auto
termination
  by (relation "measure (\<lambda>(_, pde, _). length (pulses pde))")
    (auto simp: pulse_queue_get_tail_def pulse_queue_dequeue_def Let_def split: if_splits)

declare drop_old.simps [simp del]

definition pulse_queue_check_window :: "pri_detector \<times> radar_pools \<Rightarrow> pri_detector \<times> radar_pools" where
  "pulse_queue_check_window = (\<lambda>(pde, P).
     if pde_count pde < 2 \<or> pde_last_ts pde \<le> ucast (window_size pde) then (pde, P)
     else snd (drop_old (pde_last_ts pde - ucast (window_size pde)) (pde, P)))"

definition pulse_queue_enqueue ::
  "(nat \<Rightarrow> pri_sequence option) \<Rightarrow> u64 \<Rightarrow> pri_detector \<times> radar_pools \<Rightarrow> bool \<times> pri_detector \<times> radar_pools" where
  "pulse_queue_enqueue mem ts = (\<lambda>(pde, P).
     case pool_get_pulse_elem mem P of
       (False, P1) \<Rightarrow> (False, pde, P1)
     | (True, P1) \<Rightarrow>
         (case pulse_queue_check_window (pde\<lparr>pulses := ts # pulses pde, pde_count := pde_count pde + 1, pde_last_ts := ts\<rparr>, P1) of
            (pde2, P2) \<Rightarrow>
              if pde_count pde2 \<ge> max_count pde2 then (True, snd (pulse_queue_dequeue (pde2, P2))) else (True, pde2, P2)))"

section \<open>Short waveforms\<close>

definition pde_get_multiple :: "u32 \<Rightarrow> u32 \<Rightarrow> u32 \<Rightarrow> u32" where
  "pde_get_multiple val fraction tolerance =
     (if fraction = 0 then 0
      else if (if val < fraction then fraction - val else val - fraction) \<le> tolerance then 1
      else let factor = val div fraction; remainder = val mod fraction
           in if remainder > tolerance then if fraction - remainder \<le> tolerance then factor + 1 else 0 else factor)"

text \<open>
  \<open>pde_short_create_sequences\<close>: the inner loop over the pulses older than the second one, which
  updates \<open>count\<close>, \<open>count_falses\<close> and \<open>first_ts\<close>; \<open>tmp\<close> is \<open>tmp_false_count\<close>.
\<close>

fun extend_past :: "u32 \<Rightarrow> u64 \<Rightarrow> u32 \<Rightarrow> u64 list \<Rightarrow> pri_sequence \<Rightarrow> pri_sequence" where
  "extend_past tol min_valid_ts tmp [] ps = ps"
| "extend_past tol min_valid_ts tmp (p2 # pls) ps =
     (if p2 < min_valid_ts then ps
      else if pde_get_multiple (ucast (ps_last_ts ps - p2)) (ps_pri ps) tol > 0
      then extend_past tol min_valid_ts 0 pls
             (ps\<lparr>ps_count := ps_count ps + 1, ps_first_ts := p2, ps_count_falses := ps_count_falses ps + tmp\<rparr>)
      else extend_past tol min_valid_ts (tmp + 1) pls ps)"

definition seq_thresh :: "radar_detector_specs \<Rightarrow> u32 \<Rightarrow> u8" where
  "seq_thresh rs pri =
     (if waveform rs = RADAR_WAVEFORM_WEATHER then word_of_nat (PPB_THRESH (unat (ucast (19000000 div (360 * pri)) :: u8)))
      else rs_ppb_thresh rs)"

definition new_sequence :: "radar_detector_specs \<Rightarrow> u64 \<Rightarrow> u16 \<Rightarrow> u64 \<Rightarrow> u64 list \<Rightarrow> pri_sequence" where
  "new_sequence rs ts pulse_idx p pls =
     (let pri = ucast (ts - p); dur = pri * (ucast (ppb rs) - 1) + 2 * ucast (max_pri_tolerance rs);
          ps = extend_past (ucast (max_pri_tolerance rs)) (if ucast dur > ts then 0 else ts - ucast dur) 0 pls
                 \<lparr>ps_pri = pri, ps_dur = dur, ps_count = 2, ps_count_falses = ucast pulse_idx - 1, ps_first_ts = p,
                  ps_last_ts = ts, ps_deadline_ts = 0, ps_ppb_thresh = 0\<rparr>
      in ps\<lparr>ps_deadline_ts := ps_first_ts ps + ucast dur,
            ps_ppb_thresh := seq_thresh rs pri\<rparr>)"

fun create_loop ::
  "(nat \<Rightarrow> pri_sequence option) \<Rightarrow> radar_detector_specs \<Rightarrow> u64 \<Rightarrow> u32 \<Rightarrow> u16 \<Rightarrow> u64 list \<Rightarrow>
     pri_sequence list \<Rightarrow> radar_pools \<Rightarrow> bool \<times> pri_sequence list \<times> radar_pools" where
  "create_loop mem rs ts min_count pulse_idx [] seqs P = (True, seqs, P)"
| "create_loop mem rs ts min_count pulse_idx (p # pls) seqs P =
     (let delta_ts = ucast (ts - p) :: u32; pulse_idx1 = pulse_idx + 1
      in if delta_ts < ucast (pri_min rs) then create_loop mem rs ts min_count pulse_idx1 pls seqs P
         else if delta_ts > ucast (pri_max rs) then (True, seqs, P)
         else let ps = new_sequence rs ts pulse_idx1 p pls
              in if ps_count ps \<le> min_count then create_loop mem rs ts min_count pulse_idx1 pls seqs P
                 else (case pool_get_pseq_elem mem P of
                         (None, P1) \<Rightarrow> (False, seqs, P1)
                       | (Some _, P1) \<Rightarrow> create_loop mem rs ts min_count pulse_idx1 pls (ps # seqs) P1))"

definition pde_short_create_sequences ::
  "(nat \<Rightarrow> pri_sequence option) \<Rightarrow> u64 \<Rightarrow> u32 \<Rightarrow> pri_detector \<times> radar_pools \<Rightarrow> bool \<times> pri_detector \<times> radar_pools" where
  "pde_short_create_sequences mem ts min_count = (\<lambda>(pde, P).
     case create_loop mem (pde_rs pde) ts min_count 0 (pulses pde) (sequences pde) P of
       (ok, seqs, P1) \<Rightarrow> (ok, pde\<lparr>sequences := seqs\<rparr>, P1))"

text \<open>The loop of \<open>pde_short_add_to_existing_seqs\<close>: the sequences kept, the longest one extended, the pools.\<close>

fun add_loop :: "u32 \<Rightarrow> u64 \<Rightarrow> u32 \<Rightarrow> pri_sequence list \<Rightarrow> radar_pools \<Rightarrow> u32 \<times> pri_sequence list \<times> radar_pools" where
  "add_loop tol ts m [] P = (m, [], P)"
| "add_loop tol ts m (ps # pss) P =
     (if ts > ps_deadline_ts ps then add_loop tol ts m pss (pool_put_pseq_elem ps P)
      else if pde_get_multiple (ucast (ts - ps_last_ts ps)) (ps_pri ps) tol > 0
      then let ps1 = ps\<lparr>ps_last_ts := ts, ps_count := ps_count ps + 1\<rparr>
           in case add_loop tol ts (if m < ps_count ps1 then ps_count ps1 else m) pss P of (m1, qs, P1) \<Rightarrow> (m1, ps1 # qs, P1)
      else case add_loop tol ts m pss P of (m1, qs, P1) \<Rightarrow> (m1, ps\<lparr>ps_count_falses := ps_count_falses ps + 1\<rparr> # qs, P1))"

definition pde_short_add_to_existing_seqs :: "u64 \<Rightarrow> pri_detector \<times> radar_pools \<Rightarrow> u32 \<times> pri_detector \<times> radar_pools" where
  "pde_short_add_to_existing_seqs ts = (\<lambda>(pde, P).
     case add_loop (ucast (max_pri_tolerance (pde_rs pde))) ts 0 (sequences pde) P of
       (m, seqs, P1) \<Rightarrow> (m, pde\<lparr>sequences := seqs\<rparr>, P1))"

definition seq_complete :: "radar_detector_specs \<Rightarrow> pri_sequence \<Rightarrow> bool" where
  "seq_complete rs ps \<longleftrightarrow> ps_count ps \<ge> ucast (ps_ppb_thresh ps) \<and> ps_count ps * ucast (num_pri rs) > ps_count_falses ps"

definition pde_short_check_detection :: "pri_detector \<Rightarrow> pri_sequence option" where
  "pde_short_check_detection pde = find (seq_complete (pde_rs pde)) (sequences pde)"

definition pde_short_init :: "pri_detector \<Rightarrow> pri_detector" where
  "pde_short_init pde =
     (let rs = pde_rs pde
      in pde\<lparr>window_size := ucast (pri_max rs) * ucast (ppb rs) * ucast (num_pri rs), max_count := ucast (ppb rs) * 2\<rparr>)"

definition pri_detector_reset :: "u64 \<Rightarrow> pri_detector \<times> radar_pools \<Rightarrow> pri_detector \<times> radar_pools" where
  "pri_detector_reset ts = (\<lambda>(pde, P).
     (pde\<lparr>sequences := [], pulses := [], pde_count := 0, pde_last_ts := ts\<rparr>,
      (pool_put_pulse_elem ^^ length (pulses pde)) (fold pool_put_pseq_elem (sequences pde) P)))"

definition pde_short_add_pulse ::
  "(nat \<Rightarrow> pri_sequence option) \<Rightarrow> u64 \<Rightarrow> pri_detector \<times> radar_pools \<Rightarrow> pri_sequence option \<times> pri_detector \<times> radar_pools" where
  "pde_short_add_pulse mem ts = (\<lambda>(pde, P).
     if pde_count pde = 0 then (None, snd (pulse_queue_enqueue mem ts (pde, P)))
     else if ts - pde_last_ts pde < ucast (max_pri_tolerance (pde_rs pde)) then (None, pde, P)
     else case pde_short_add_to_existing_seqs ts (pde, P) of
            (m, r1) \<Rightarrow>
              (case pde_short_create_sequences mem ts m r1 of
                 (False, r2) \<Rightarrow> (None, pri_detector_reset ts r2)
               | (True, r2) \<Rightarrow>
                   (case pde_short_check_detection (fst r2) of
                      None \<Rightarrow> (None, snd (pulse_queue_enqueue mem ts r2))
                    | Some ps \<Rightarrow> (Some ps, r2))))"

section \<open>Long waveforms\<close>

definition LONG_RADAR_DURATION :: u32 where [simp]: "LONG_RADAR_DURATION = 12000000"
definition LONG_RADAR_BURST_MIN_DURATION :: u32 where [simp]: "LONG_RADAR_BURST_MIN_DURATION = 12000000 div 20"
definition LONG_RADAR_MAX_BURST :: u32 where [simp]: "LONG_RADAR_MAX_BURST = 20"

definition pde_long_init :: "pri_detector \<Rightarrow> pri_detector" where
  "pde_long_init pde = pde\<lparr>window_size := LONG_RADAR_DURATION, max_count := LONG_RADAR_MAX_BURST\<rparr>"

text \<open>The start of the sequence when its deadline has passed.\<close>

definition long_restart :: "u64 \<Rightarrow> pri_sequence \<Rightarrow> pri_detector \<times> radar_pools \<Rightarrow> pri_sequence \<times> pri_detector \<times> radar_pools" where
  "long_restart ts ps = (\<lambda>(pde, P).
     case drop_old (ts - ucast (window_size pde)) (pde, P) of
       (n, pde1, P1) \<Rightarrow>
         (let ps1 = ps\<lparr>ps_count := ps_count ps - word_of_nat n\<rparr>
          in (case pulse_queue_get_tail pde1 of
                None \<Rightarrow> ps1
              | Some p \<Rightarrow> ps1\<lparr>ps_first_ts := p, ps_deadline_ts := p + ucast (window_size pde)\<rparr>,
              pde1, P1)))"

definition long_new_burst ::
  "(nat \<Rightarrow> pri_sequence option) \<Rightarrow> u64 \<Rightarrow> u32 \<Rightarrow> pri_sequence \<Rightarrow> pri_sequence list \<Rightarrow> pri_detector \<times> radar_pools \<Rightarrow>
     pri_sequence option \<times> pri_detector \<times> radar_pools" where
  "long_new_burst mem ts delta_ts ps pss = (\<lambda>(pde, P).
     let ps1 = ps\<lparr>ps_count := ps_count ps + 1, ps_count_falses := 1\<rparr>
     in case (if ts > ps_deadline_ts ps1 then long_restart ts ps1 (pde, P) else (ps1, pde, P)) of
          (ps2, pde2, P2) \<Rightarrow>
            if ps_count ps2 > ucast (rs_ppb_thresh (pde_rs pde)) \<and> ts - ps_first_ts ps2 > ucast (window_size pde div 2)
            then (Some ps2, pde2\<lparr>sequences := ps2 # pss\<rparr>, P2)
            else (None, snd (pulse_queue_enqueue mem ts (pde2\<lparr>sequences := ps2\<lparr>ps_dur := delta_ts\<rparr> # pss\<rparr>, P2))))"

definition pde_long_add_pulse ::
  "(nat \<Rightarrow> pri_sequence option) \<Rightarrow> u64 \<Rightarrow> pri_detector \<times> radar_pools \<Rightarrow> pri_sequence option \<times> pri_detector \<times> radar_pools" where
  "pde_long_add_pulse mem ts = (\<lambda>(pde, P).
     case sequences pde of
       [] \<Rightarrow>
         (case pool_get_pseq_elem mem P of
            (None, P1) \<Rightarrow> (None, pde, P1)
          | (Some ps, P1) \<Rightarrow>
              (None, snd (pulse_queue_enqueue mem ts
                (pde\<lparr>sequences := [ps\<lparr>ps_count := 1, ps_count_falses := 1, ps_first_ts := ts, ps_last_ts := ts,
                                      ps_deadline_ts := ts + ucast (window_size pde), ps_pri := 0\<rparr>]\<rparr>, P1))))
     | ps0 # pss \<Rightarrow>
         (let delta_ts = ucast (ts - ps_last_ts ps0) :: u32; ps = ps0\<lparr>ps_last_ts := ts\<rparr>; rs = pde_rs pde
          in if delta_ts < ucast (pri_max rs) then (None, pde\<lparr>sequences := ps # pss\<rparr>, P)
             else if delta_ts \<ge> ucast (pri_min rs) \<and> delta_ts \<le> ucast (pri_max rs)
             then (None, pde\<lparr>sequences := ps\<lparr>ps_count_falses := ps_count_falses ps + 1\<rparr> # pss\<rparr>, P)
             else if ps_count ps > 2 \<and> ps_dur ps + delta_ts < LONG_RADAR_BURST_MIN_DURATION
             then (None, pde\<lparr>sequences := ps # pss\<rparr>, P)
             else long_new_burst mem ts delta_ts ps pss (pde, P)))"

end
