(* ===== verification/Dfs.thy ===== *)
theory Dfs
  imports Radar
begin

text \<open>
  The pattern detector of rwnx\_radar.c, which keeps one list of detectors per waveform of the
  regulatory domain, and the driver's interface to it: the ring of pulses the message handler
  \<open>rwnx_radar_detect_ind\<close> of rwnx\_msg\_rx.c fills and the work item \<open>rwnx_radar_process_pulse\<close> empties,
  the channel availability check, and the status the message code keeps.
\<close>

section \<open>The pattern detector\<close>

record dfs_pattern_detector =
  enabled :: u8
  region :: nl80211_dfs_regions
  num_radar_types :: u8
  last_pulse_ts :: u64
  prev_jiffies :: u32
  radar_spec :: "radar_detector_specs list"
  detectors :: "pri_detector list list"

definition RWNX_RADAR_DETECT_DISABLE :: u8 where [simp]: "RWNX_RADAR_DETECT_DISABLE = 0"
definition RWNX_RADAR_DETECT_ENABLE :: u8 where [simp]: "RWNX_RADAR_DETECT_ENABLE = 1"
definition RWNX_RADAR_DETECT_REPORT :: u8 where [simp]: "RWNX_RADAR_DETECT_REPORT = 2"

text \<open>\<open>pri_detector_init\<close>: the new detector goes to the front of its list; None when no memory is left.\<close>

definition pri_detector_init ::
  "(nat \<Rightarrow> pri_sequence option) \<Rightarrow> nat \<Rightarrow> u16 \<Rightarrow> dfs_pattern_detector \<times> radar_pools \<Rightarrow> bool \<times> dfs_pattern_detector \<times> radar_pools" where
  "pri_detector_init mem ty freq = (\<lambda>(dpd, P).
     if mem (mallocs P) = None then (False, dpd, P\<lparr>mallocs := Suc (mallocs P)\<rparr>)
     else let rs = radar_spec dpd ! ty;
              pde = \<lparr>pde_rs = rs, pde_last_ts = 0, sequences = [], pulses = [], pde_count = 0, max_count = 0, window_size = 0,
                     pde_freq = freq\<rparr>;
              pde1 = (if waveform rs = RADAR_WAVEFORM_LONG then pde_long_init pde else pde_short_init pde)
          in (True, dpd\<lparr>detectors := (detectors dpd)[ty := pde1 # detectors dpd ! ty]\<rparr>,
              pool_register_ref (P\<lparr>mallocs := Suc (mallocs P)\<rparr>)))"

text \<open>The search of \<open>pri_detector_get\<close>: the position of the detector it returns, or of \<open>cur\<close>.\<close>

fun get_loop :: "u16 \<Rightarrow> nat \<Rightarrow> nat option \<Rightarrow> pri_detector list \<Rightarrow> nat option" where
  "get_loop freq j cur [] = cur"
| "get_loop freq j cur (pde # pdes) =
     (if pde_freq pde = freq
      then if pde_count pde \<noteq> 0 then Some j else get_loop freq (Suc j) (Some j) pdes
      else if uint (pde_freq pde) - 2 = uint freq \<and> pde_count pde \<noteq> 0 then Some j
      else if uint (pde_freq pde) + 2 = uint freq \<and> pde_count pde \<noteq> 0 then Some j
      else get_loop freq (Suc j) cur pdes)"

definition pri_detector_get ::
  "(nat \<Rightarrow> pri_sequence option) \<Rightarrow> u16 \<Rightarrow> nat \<Rightarrow> dfs_pattern_detector \<times> radar_pools \<Rightarrow>
     nat option \<times> dfs_pattern_detector \<times> radar_pools" where
  "pri_detector_get mem freq ty = (\<lambda>(dpd, P).
     case get_loop freq 0 None (detectors dpd ! ty) of
       Some j \<Rightarrow> (Some j, dpd, P)
     | None \<Rightarrow> (case pri_detector_init mem ty freq (dpd, P) of (ok, r) \<Rightarrow> (if ok then Some 0 else None, r)))"

text \<open>A list of detectors, reset one after the other; \<open>sel\<close> says which.\<close>

fun reset_list :: "(pri_detector \<Rightarrow> bool) \<Rightarrow> u64 \<Rightarrow> pri_detector list \<Rightarrow> radar_pools \<Rightarrow> pri_detector list \<times> radar_pools" where
  "reset_list sel ts [] P = ([], P)"
| "reset_list sel ts (pde # pdes) P =
     (case (if sel pde then pri_detector_reset ts (pde, P) else (pde, P)) of
        (pde1, P1) \<Rightarrow> (case reset_list sel ts pdes P1 of (pdes1, P2) \<Rightarrow> (pde1 # pdes1, P2)))"

fun reset_types :: "(pri_detector \<Rightarrow> bool) \<Rightarrow> u64 \<Rightarrow> nat \<Rightarrow> pri_detector list list \<Rightarrow> radar_pools \<Rightarrow> pri_detector list list \<times> radar_pools" where
  "reset_types sel ts (Suc n) (pdes # pdess) P =
     (case reset_list sel ts pdes P of (pdes1, P1) \<Rightarrow> (case reset_types sel ts n pdess P1 of (pdess1, P2) \<Rightarrow> (pdes1 # pdess1, P2)))"
| "reset_types sel ts n pdess P = (pdess, P)"

definition dfs_pattern_detector_reset ::
  "u32 \<Rightarrow> dfs_pattern_detector \<times> radar_pools \<Rightarrow> dfs_pattern_detector \<times> radar_pools" where
  "dfs_pattern_detector_reset jiffies = (\<lambda>(dpd, P).
     case reset_types (\<lambda>_. True) (last_pulse_ts dpd) (unat (num_radar_types dpd)) (detectors dpd) P of
       (pdess, P1) \<Rightarrow> (dpd\<lparr>detectors := pdess, last_pulse_ts := 0, prev_jiffies := jiffies\<rparr>, P1))"

text \<open>\<open>reset_on_pri_overflow\<close> of the operations is 1 for the short and 0 for the long waveforms.\<close>

definition reset_on_pri_overflow :: "pri_detector \<Rightarrow> bool" where
  "reset_on_pri_overflow pde \<longleftrightarrow> waveform (pde_rs pde) \<noteq> RADAR_WAVEFORM_LONG"

definition dfs_pattern_detector_pri_overflow :: "dfs_pattern_detector \<times> radar_pools \<Rightarrow> dfs_pattern_detector \<times> radar_pools" where
  "dfs_pattern_detector_pri_overflow = (\<lambda>(dpd, P).
     case reset_types reset_on_pri_overflow (last_pulse_ts dpd) (unat (num_radar_types dpd)) (detectors dpd) P of
       (pdess, P1) \<Rightarrow> (dpd\<lparr>detectors := pdess\<rparr>, P1))"

definition pri_detector_exit :: "pri_detector \<Rightarrow> radar_pools \<Rightarrow> radar_pools" where
  "pri_detector_exit pde P = pool_deregister_ref (snd (pri_detector_reset 0 (pde, P)))"

definition exit_all :: "dfs_pattern_detector \<times> radar_pools \<Rightarrow> dfs_pattern_detector \<times> radar_pools" where
  "exit_all = (\<lambda>(dpd, P).
     let n = unat (num_radar_types dpd)
     in (dpd\<lparr>detectors := map (\<lambda>_. []) (take n (detectors dpd)) @ drop n (detectors dpd)\<rparr>,
         fold pri_detector_exit (concat (take n (detectors dpd))) P))"

definition dfs_pattern_detector_exit :: "dfs_pattern_detector \<times> radar_pools \<Rightarrow> radar_pools" where
  "dfs_pattern_detector_exit r = snd (exit_all r)"

text \<open>The \<open>add_pulse\<close> of the detector's operations.\<close>

definition pde_add_pulse ::
  "(nat \<Rightarrow> pri_sequence option) \<Rightarrow> u64 \<Rightarrow> pri_detector \<times> radar_pools \<Rightarrow> pri_sequence option \<times> pri_detector \<times> radar_pools" where
  "pde_add_pulse mem ts r =
     (if waveform (pde_rs (fst r)) = RADAR_WAVEFORM_LONG then pde_long_add_pulse mem ts r else pde_short_add_pulse mem ts r)"

text \<open>The loop of \<open>dfs_pattern_detector_add_pulse\<close> over the radar types.\<close>

fun add_types ::
  "(nat \<Rightarrow> pri_sequence option) \<Rightarrow> u32 \<Rightarrow> u16 \<Rightarrow> u16 \<Rightarrow> nat list \<Rightarrow> dfs_pattern_detector \<times> radar_pools \<Rightarrow>
     (bool \<times> dfs_pattern_detector \<times> radar_pools) outcome" where
  "add_types mem jiffies freq len [] r = Inr (False, r)"
| "add_types mem jiffies freq len (i # is) (dpd, P) =
     (let rs = radar_spec dpd ! i
      in if ucast (width_min rs) > len \<or> ucast (width_max rs) < len then add_types mem jiffies freq len is (dpd, P)
         else (case pri_detector_get mem freq i (dpd, P) of
                 (None, _) \<Rightarrow> Inl Null_Deref
               | (Some j, dpd1, P1) \<Rightarrow>
                   (case pde_add_pulse mem (last_pulse_ts dpd1) (detectors dpd1 ! i ! j, P1) of
                      (res, pde, P2) \<Rightarrow>
                        (let dpd2 = dpd1\<lparr>detectors := (detectors dpd1)[i := (detectors dpd1 ! i)[j := pde]]\<rparr>
                         in case res of
                              Some ps \<Rightarrow> Inr (True, dfs_pattern_detector_reset jiffies (dpd2, P2))
                            | None \<Rightarrow> add_types mem jiffies freq len is (dpd2, P2)))))"

text \<open>\<open>us\<close> is \<open>jiffies_to_usecs\<close> of the kernel; \<open>jiffies\<close> the clock when a reset reads it.\<close>

definition pulse_time :: "(u32 \<Rightarrow> u32) \<Rightarrow> u16 \<Rightarrow> u32 \<Rightarrow> dfs_pattern_detector \<times> radar_pools \<Rightarrow> dfs_pattern_detector \<times> radar_pools" where
  "pulse_time us pri now = (\<lambda>(dpd, P).
     if pri = 0
     then let delta_jiffie = (if now < prev_jiffies dpd then 0xffffffff - prev_jiffies dpd + now else now - prev_jiffies dpd)
          in dfs_pattern_detector_pri_overflow
               (dpd\<lparr>last_pulse_ts := last_pulse_ts dpd + ucast (us delta_jiffie), prev_jiffies := now\<rparr>, P)
     else (dpd\<lparr>last_pulse_ts := last_pulse_ts dpd + ucast pri\<rparr>, P))"

definition dfs_pattern_detector_add_pulse ::
  "(nat \<Rightarrow> pri_sequence option) \<Rightarrow> (u32 \<Rightarrow> u32) \<Rightarrow> u32 \<Rightarrow> u16 \<Rightarrow> u16 \<Rightarrow> u16 \<Rightarrow> u32 \<Rightarrow> dfs_pattern_detector \<times> radar_pools \<Rightarrow>
     (bool \<times> dfs_pattern_detector \<times> radar_pools) outcome" where
  "dfs_pattern_detector_add_pulse mem us jiffies freq pri len now r =
     (if region (fst r) = NL80211_DFS_UNSET then Inr (True, r)
      else let r1 = pulse_time us pri now r
           in add_types mem jiffies freq len [0..<unat (num_radar_types (fst r1))] r1)"

definition get_dfs_domain_radar_types :: "nl80211_dfs_regions \<Rightarrow> radar_types option" where
  "get_dfs_domain_radar_types reg = find (\<lambda>rt. rt_region rt = reg) dfs_domains"

definition get_dfs_max_radar_types :: nat where
  "get_dfs_max_radar_types = fold (\<lambda>rt m. if length (spec_riu rt) > m then length (spec_riu rt) else m) dfs_domains 0"

datatype rwnx_radar_chain = RWNX_RADAR_RIU | RWNX_RADAR_FCU

definition dfs_pattern_detector_set_domain ::
  "nl80211_dfs_regions \<Rightarrow> rwnx_radar_chain \<Rightarrow> dfs_pattern_detector \<times> radar_pools \<Rightarrow> bool \<times> dfs_pattern_detector \<times> radar_pools" where
  "dfs_pattern_detector_set_domain reg chain = (\<lambda>(dpd, P).
     if region dpd = reg then (True, dpd, P)
     else case get_dfs_domain_radar_types reg of
            None \<Rightarrow> (False, dpd\<lparr>region := NL80211_DFS_UNSET\<rparr>, P)
          | Some rt \<Rightarrow>
              (case exit_all (dpd\<lparr>region := NL80211_DFS_UNSET\<rparr>, P) of
                 (dpd1, P1) \<Rightarrow>
                   (True, dpd1\<lparr>radar_spec := (case chain of RWNX_RADAR_RIU \<Rightarrow> spec_riu rt | RWNX_RADAR_FCU \<Rightarrow> spec_fcu rt),
                               num_radar_types := word_of_nat (length (spec_riu rt)), region := reg\<rparr>, P1)))"

definition dfs_pattern_detector_init ::
  "(nat \<Rightarrow> pri_sequence option) \<Rightarrow> u32 \<Rightarrow> nl80211_dfs_regions \<Rightarrow> rwnx_radar_chain \<Rightarrow> radar_pools \<Rightarrow>
     dfs_pattern_detector option \<times> radar_pools" where
  "dfs_pattern_detector_init mem jiffies reg chain P =
     (if mem (mallocs P) = None then (None, P\<lparr>mallocs := Suc (mallocs P)\<rparr>)
      else case dfs_pattern_detector_set_domain reg chain
                  (\<lparr>enabled = RWNX_RADAR_DETECT_DISABLE, region = NL80211_DFS_UNSET, num_radar_types = 0, last_pulse_ts = 0,
                    prev_jiffies = jiffies, radar_spec = [], detectors = replicate get_dfs_max_radar_types []\<rparr>,
                   P\<lparr>mallocs := Suc (mallocs P)\<rparr>) of
             (ok, dpd, P1) \<Rightarrow> (if ok then Some dpd else None, P1))"

section \<open>The driver interface\<close>

definition RWNX_RADAR_PULSE_MAX :: nat where [simp]: "RWNX_RADAR_PULSE_MAX = 32"
definition NX_NB_RADAR_DETECTED :: nat where [simp]: "NX_NB_RADAR_DETECTED = 4"
definition RWNX_RADARR_DUMP_NB :: nat where [simp]: "RWNX_RADARR_DUMP_NB = 32"
definition RADAR_PULSE_MAX :: nat where [simp]: "RADAR_PULSE_MAX = 4"
definition RWNX_RADAR_LAST :: nat where [simp]: "RWNX_RADAR_LAST = 2"

record rwnx_radar_pulses =
  rp_index :: nat
  rp_count :: nat
  rp_buffer :: "u32 list"

record rwnx_radar_detected =
  rd_index :: u16
  rd_count :: u16
  rd_time :: "u64 list"
  rd_freq :: "u16 list"

record rwnx_radar_dump =
  rm_cnt :: u32
  rm_idx :: u32
  rm_ps :: "u32 list"
  rm_tm :: "u64 list"
  rm_ts :: "u64 list"

text \<open>The pointer \<open>rmem\<close>: NULL, dangling after \<open>kfree\<close>, or the dump it points to.\<close>

datatype rmem_ptr = RM_NULL | RM_FREED | RM rwnx_radar_dump

datatype rwnx_radar_status =
  RWNX_RADAR_IDLE | RWNX_RADAR_CAC_BUSY | RWNX_RADAR_CAC_DONE | RWNX_RADAR_INSERVICE_BUSY | RWNX_RADAR_INSERVICE_DONE

text \<open>What the detection tells cfg80211 and the firmware; interfaces and channels by number and centre frequency.\<close>

datatype radar_event =
    Cfg_Radar u16 | Cfg_Cac_Finished nat | Cfg_Cac_Aborted nat | Apm_Stop_Cac nat | Chanctx_Unlink nat

text \<open>
  The lists have one element per chain, RIU first.  \<open>detection_work\<close> and \<open>cac_work\<close> say whether the
  work items are pending.  The pools are global variables of the file.
\<close>

record rwnx_radar =
  r_pulses :: "rwnx_radar_pulses list"
  r_dpd :: "dfs_pattern_detector option list"
  r_detected :: "rwnx_radar_detected list"
  r_rmem :: rmem_ptr
  r_status :: rwnx_radar_status
  r_sta_num :: u16
  detection_work :: bool
  cac_work :: bool
  cac_vif :: "nat option"
  r_pools :: radar_pools
  r_events :: "radar_event list"

text \<open>
  What an operation takes from outside: allocation outcomes, \<open>jiffies_to_usecs\<close>, the clock when the
  work starts and when a reset reads it, the wall clock, the centre frequencies of the current
  channel context (None when it is invalid) and of the secondary channel, whether
  \<open>rwnx_msg_zalloc\<close> succeeds, and whether the driver is built with \<open>CONFIG_RADAR_OR_IR_DETECT\<close>.
\<close>

record radar_env =
  e_mem :: "nat \<Rightarrow> pri_sequence option"
  e_usecs :: "u32 \<Rightarrow> u32"
  e_now :: u32
  e_jiffies :: u32
  e_seconds :: u64
  e_center :: "u16 option"
  e_sec_center :: u16
  e_msg_ok :: bool
  e_ir_detect :: bool

subsection \<open>Pulse words\<close>

definition pulse_freq :: "u32 \<Rightarrow> 6 word" where "pulse_freq w = ucast w"
definition pulse_len :: "u32 \<Rightarrow> 6 word" where "pulse_len w = ucast (drop_bit 10 w)"
definition pulse_rep :: "u32 \<Rightarrow> u16" where "pulse_rep w = ucast (drop_bit 16 w)"

subsection \<open>The ring of pulses\<close>

record radar_pulse_array_desc =
  d_pulse :: "u32 list"
  d_idx :: u32
  d_cnt :: u32

definition ring_put :: "u32 \<Rightarrow> rwnx_radar_pulses \<Rightarrow> rwnx_radar_pulses" where
  "ring_put w p = p\<lparr>rp_buffer := (rp_buffer p)[rp_index p := w], rp_index := (rp_index p + 1) mod RWNX_RADAR_PULSE_MAX,
                    rp_count := (if rp_count p < RWNX_RADAR_PULSE_MAX then rp_count p + 1 else rp_count p)\<rparr>"

definition rwnx_radar_detection_is_enable :: "rwnx_radar \<Rightarrow> nat \<Rightarrow> bool outcome" where
  "rwnx_radar_detection_is_enable r c =
     (if c < RWNX_RADAR_LAST
      then case r_dpd r ! c of None \<Rightarrow> Inl Null_Deref | Some dpd \<Rightarrow> Inr (enabled dpd \<noteq> RWNX_RADAR_DETECT_DISABLE)
      else Inl Out_Of_Bounds)"

definition rwnx_radar_detect_ind :: "radar_pulse_array_desc \<Rightarrow> rwnx_radar \<Rightarrow> (int \<times> rwnx_radar) outcome" where
  "rwnx_radar_detect_ind d r =
     (if d_cnt d = 0 then Inr (-1, r)
      else let c = unat (d_idx d)
           in and_then (rwnx_radar_detection_is_enable r c) (\<lambda>on.
                if \<not> on then Inr (0, r)
                else if unat (d_cnt d) > RADAR_PULSE_MAX then Inl Out_Of_Bounds
                else Inr (0, r\<lparr>r_pulses := (r_pulses r)[c := fold ring_put (take (unat (d_cnt d)) (d_pulse d)) (r_pulses r ! c)],
                               detection_work := True\<rparr>)))"

text \<open>The local copy that \<open>rwnx_radar_process_pulse\<close> makes of a ring under the lock.\<close>

definition ring_copy :: "rwnx_radar_pulses \<Rightarrow> u32 list" where
  "ring_copy p =
     (let count = rp_count p;
          start = (if rp_index p < count then rp_index p + RWNX_RADAR_PULSE_MAX - count else rp_index p - count)
      in if count = 0 then []
         else if start + count > RWNX_RADAR_PULSE_MAX
         then let count1 = RWNX_RADAR_PULSE_MAX - start
              in take count1 (drop start (rp_buffer p)) @ take (count - count1) (rp_buffer p)
         else take count (drop start (rp_buffer p)))"

subsection \<open>Channel availability check\<close>

text \<open>The status changes of rwnx\_msg\_tx.c, compiled only with \<open>CONFIG_RADAR_OR_IR_DETECT\<close>.\<close>

definition rwnx_send_apm_start_cac_req :: "radar_env \<Rightarrow> rwnx_radar \<Rightarrow> rwnx_radar" where
  "rwnx_send_apm_start_cac_req e r =
     (if e_msg_ok e \<and> e_ir_detect e then r\<lparr>r_status := RWNX_RADAR_CAC_BUSY\<rparr> else r)"

definition rwnx_send_apm_stop_cac_req :: "radar_env \<Rightarrow> nat \<Rightarrow> rwnx_radar \<Rightarrow> rwnx_radar" where
  "rwnx_send_apm_stop_cac_req e v r =
     (if e_msg_ok e
      then (if e_ir_detect e then r\<lparr>r_status := RWNX_RADAR_CAC_DONE\<rparr> else r)\<lparr>r_events := r_events r @ [Apm_Stop_Cac v]\<rparr>
      else r)"

definition radar_sta_add :: "radar_env \<Rightarrow> rwnx_radar \<Rightarrow> rwnx_radar" where
  "radar_sta_add e r =
     (if e_ir_detect e
      then let r1 = (if r_sta_num r = 0 \<and> r_status r \<noteq> RWNX_RADAR_INSERVICE_BUSY then r\<lparr>r_status := RWNX_RADAR_INSERVICE_BUSY\<rparr> else r)
           in if r_sta_num r1 < 0x0FFF then r1\<lparr>r_sta_num := r_sta_num r1 + 1\<rparr> else r1
      else r)"

definition radar_sta_del :: "radar_env \<Rightarrow> rwnx_radar \<Rightarrow> rwnx_radar" where
  "radar_sta_del e r =
     (if e_ir_detect e
      then let r1 = (if r_sta_num r = 1 \<and> r_status r = RWNX_RADAR_INSERVICE_BUSY then r\<lparr>r_status := RWNX_RADAR_INSERVICE_DONE\<rparr> else r)
           in if r_sta_num r1 > 0 then r1\<lparr>r_sta_num := r_sta_num r1 - 1\<rparr> else r1
      else r)"

definition rwnx_radar_start_cac :: "nat \<Rightarrow> rwnx_radar \<Rightarrow> rwnx_radar" where
  "rwnx_radar_start_cac v r = r\<lparr>cac_vif := Some v, cac_work := True\<rparr>"

definition rwnx_radar_cancel_cac :: "radar_env \<Rightarrow> rwnx_radar \<Rightarrow> rwnx_radar" where
  "rwnx_radar_cancel_cac e r =
     (case cac_vif r of
        None \<Rightarrow> r
      | Some v \<Rightarrow>
          (if cac_work r
           then let r1 = rwnx_send_apm_stop_cac_req e v (r\<lparr>cac_work := False\<rparr>)
                in r1\<lparr>r_events := r_events r1 @ [Cfg_Cac_Aborted v, Chanctx_Unlink v]\<rparr>
           else r)\<lparr>cac_vif := None\<rparr>)"

definition rwnx_radar_cac_work :: "radar_env \<Rightarrow> rwnx_radar \<Rightarrow> rwnx_radar" where
  "rwnx_radar_cac_work e r =
     (let r0 = r\<lparr>cac_work := False\<rparr>
      in case cac_vif r0 of
           None \<Rightarrow> r0
         | Some v \<Rightarrow>
             (let r1 = rwnx_send_apm_stop_cac_req e v (r0\<lparr>r_events := r_events r0 @ [Cfg_Cac_Finished v]\<rparr>)
              in r1\<lparr>r_events := r_events r1 @ [Chanctx_Unlink v], cac_vif := None\<rparr>))"

definition rwnx_radar_detection_enable :: "u8 \<Rightarrow> nat \<Rightarrow> rwnx_radar \<Rightarrow> rwnx_radar outcome" where
  "rwnx_radar_detection_enable enable c r =
     (if c < RWNX_RADAR_LAST
      then case r_dpd r ! c of
             None \<Rightarrow> Inl Null_Deref
           | Some dpd \<Rightarrow> Inr (r\<lparr>r_dpd := (r_dpd r)[c := Some (dpd\<lparr>enabled := enable\<rparr>)]\<rparr>)
      else Inr r)"

subsection \<open>The work item\<close>

definition rwnx_radar_get_center_freq :: "radar_env \<Rightarrow> nat \<Rightarrow> u16" where
  "rwnx_radar_get_center_freq e c = (if c = 1 then e_sec_center e else case e_center e of Some f \<Rightarrow> f | None \<Rightarrow> 0)"

definition rwnx_radar_detected_fn :: "radar_env \<Rightarrow> rwnx_radar \<Rightarrow> rwnx_radar" where
  "rwnx_radar_detected_fn e r =
     (case e_center e of
        None \<Rightarrow> r
      | Some f \<Rightarrow> (let r1 = rwnx_radar_cancel_cac e r in r1\<lparr>r_events := r_events r1 @ [Cfg_Radar f]\<rparr>))"

text \<open>The record kept of every pulse of the operating chain.\<close>

definition dump_pulse :: "radar_env \<Rightarrow> nat \<Rightarrow> u32 \<Rightarrow> rwnx_radar \<Rightarrow> rwnx_radar outcome" where
  "dump_pulse e c w r =
     (if c \<noteq> 0 then Inr r
      else case r_rmem r of
             RM_NULL \<Rightarrow> Inl Null_Deref
           | RM_FREED \<Rightarrow> Inl Out_Of_Bounds
           | RM rm \<Rightarrow>
               (case r_dpd r ! c of
                  None \<Rightarrow> Inl Null_Deref
                | Some dpd \<Rightarrow>
                    (let i = unat (rm_idx rm); pri = pulse_rep w;
                         delta = (if e_now e < prev_jiffies dpd then 0xffffffff - prev_jiffies dpd + e_now e else e_now e - prev_jiffies dpd);
                         ts = last_pulse_ts dpd + (if pri = 0 then ucast (e_usecs e delta) else ucast pri)
                     in Inr (r\<lparr>r_rmem := RM (rm\<lparr>rm_ps := (rm_ps rm)[i := w], rm_tm := (rm_tm rm)[i := ucast (e_now e)],
                                               rm_cnt := rm_cnt rm + 1, rm_ts := (rm_ts rm)[i := ts],
                                               rm_idx := (rm_idx rm + 1) mod word_of_nat RWNX_RADARR_DUMP_NB\<rparr>)\<rparr>))))"

text \<open>What follows a detection: the report on the operating chain, the entry in the ring of detected radars.\<close>

definition note_detected :: "radar_env \<Rightarrow> nat \<Rightarrow> u16 \<Rightarrow> rwnx_radar \<Rightarrow> rwnx_radar" where
  "note_detected e c f r =
     (let d = r_detected r ! c; i = unat (rd_index d)
      in r\<lparr>r_detected := (r_detected r)[c := d\<lparr>rd_freq := (rd_freq d)[i := f], rd_time := (rd_time d)[i := e_seconds e],
                                            rd_index := (rd_index d + 1) mod word_of_nat NX_NB_RADAR_DETECTED,
                                            rd_count := rd_count d + 1\<rparr>]\<rparr>)"

definition radar_found :: "radar_env \<Rightarrow> nat \<Rightarrow> u16 \<Rightarrow> rwnx_radar \<Rightarrow> rwnx_radar outcome" where
  "radar_found e c f r =
     (if c = 0 \<and> map_option enabled (r_dpd r ! c) = Some RWNX_RADAR_DETECT_REPORT
      then and_then (rwnx_radar_detection_enable RWNX_RADAR_DETECT_DISABLE c (rwnx_radar_detected_fn e r)) (\<lambda>r1.
             Inr (note_detected e c f (r1\<lparr>r_pulses := (r_pulses r1)[c := (r_pulses r1 ! c)\<lparr>rp_count := 0\<rparr>]\<rparr>)))
      else Inr (note_detected e c f r))"

fun chain_loop :: "radar_env \<Rightarrow> nat \<Rightarrow> u16 \<Rightarrow> u32 list \<Rightarrow> rwnx_radar \<Rightarrow> rwnx_radar outcome" where
  "chain_loop e c freq [] r = Inr r"
| "chain_loop e c freq (w # ws) r =
     and_then (dump_pulse e c w r) (\<lambda>r1.
       if r_status r1 \<noteq> RWNX_RADAR_CAC_BUSY \<and> r_status r1 \<noteq> RWNX_RADAR_INSERVICE_BUSY then Inr r1
       else case r_dpd r1 ! c of
              None \<Rightarrow> Inl Null_Deref
            | Some dpd \<Rightarrow>
                and_then (dfs_pattern_detector_add_pulse (e_mem e) (e_usecs e) (e_jiffies e) (freq + 2 * scast (pulse_freq w))
                            (pulse_rep w) (ucast (pulse_len w) * 2) (e_now e) (dpd, r_pools r1)) (\<lambda>(det, dpd1, P1).
                  let r2 = r1\<lparr>r_dpd := (r_dpd r1)[c := Some dpd1], r_pools := P1\<rparr>
                  in if det then radar_found e c (freq + 2 * scast (pulse_freq w)) r2 else chain_loop e c freq ws r2))"

definition rwnx_radar_process_pulse :: "radar_env \<Rightarrow> rwnx_radar \<Rightarrow> rwnx_radar outcome" where
  "rwnx_radar_process_pulse e r =
     (let ps = map ring_copy (r_pulses r);
          r1 = r\<lparr>detection_work := False, r_pulses := map (\<lambda>p. p\<lparr>rp_count := 0\<rparr>) (r_pulses r)\<rparr>
      in and_then (chain_loop e 0 (rwnx_radar_get_center_freq e 0) (ps ! 0) r1) (\<lambda>r2.
           chain_loop e 1 (rwnx_radar_get_center_freq e 1) (ps ! 1) r2))"

subsection \<open>Start and end\<close>

definition rwnx_radar_init_rmem :: "radar_env \<Rightarrow> rwnx_radar \<Rightarrow> rwnx_radar" where
  "rwnx_radar_init_rmem e r =
     (let zero = RM \<lparr>rm_cnt = 0, rm_idx = 0, rm_ps = replicate RWNX_RADARR_DUMP_NB 0, rm_tm = replicate RWNX_RADARR_DUMP_NB 0,
                     rm_ts = replicate RWNX_RADARR_DUMP_NB 0\<rparr>;
          P = r_pools r
      in if r_rmem r = RM_NULL
         then r\<lparr>r_rmem := (if e_mem e (mallocs P) = None then RM_NULL else zero), r_pools := P\<lparr>mallocs := Suc (mallocs P)\<rparr>\<rparr>
         else r\<lparr>r_rmem := zero\<rparr>)"

definition rwnx_radar_deinit_rmem :: "rwnx_radar \<Rightarrow> rwnx_radar" where
  "rwnx_radar_deinit_rmem r = (if r_rmem r \<noteq> RM_NULL then r\<lparr>r_rmem := RM_FREED\<rparr> else r)"

definition deinit_dpd :: "nat \<Rightarrow> rwnx_radar \<Rightarrow> rwnx_radar" where
  "deinit_dpd c r =
     (case r_dpd r ! c of
        None \<Rightarrow> r
      | Some dpd \<Rightarrow> r\<lparr>r_dpd := (r_dpd r)[c := None], r_pools := dfs_pattern_detector_exit (dpd, r_pools r)\<rparr>)"

definition rwnx_radar_detection_deinit :: "rwnx_radar \<Rightarrow> rwnx_radar" where
  "rwnx_radar_detection_deinit r = rwnx_radar_deinit_rmem (deinit_dpd 1 (deinit_dpd 0 r))"

definition rwnx_radar_detection_init :: "radar_env \<Rightarrow> rwnx_radar \<Rightarrow> bool \<times> rwnx_radar" where
  "rwnx_radar_detection_init e r =
     (case dfs_pattern_detector_init (e_mem e) (e_jiffies e) NL80211_DFS_UNSET RWNX_RADAR_RIU (r_pools r) of
        (None, P1) \<Rightarrow> (False, r\<lparr>r_dpd := (r_dpd r)[0 := None], r_pools := P1\<rparr>)
      | (Some dpd0, P1) \<Rightarrow>
          (case dfs_pattern_detector_init (e_mem e) (e_jiffies e) NL80211_DFS_UNSET RWNX_RADAR_FCU P1 of
             (d1, P2) \<Rightarrow>
               (let r1 = rwnx_radar_init_rmem e (r\<lparr>r_dpd := [Some dpd0, d1], r_pools := P2\<rparr>)\<lparr>r_status := RWNX_RADAR_IDLE\<rparr>
                in if d1 = None then (False, rwnx_radar_detection_deinit r1)
                   else (True, r1\<lparr>detection_work := False, cac_work := False, cac_vif := None\<rparr>))))"

definition rwnx_radar_set_domain :: "nl80211_dfs_regions \<Rightarrow> rwnx_radar \<Rightarrow> (bool \<times> rwnx_radar) outcome" where
  "rwnx_radar_set_domain reg r =
     (case r_dpd r ! 0 of
        None \<Rightarrow> Inr (False, r)
      | Some d0 \<Rightarrow>
          (case dfs_pattern_detector_set_domain reg RWNX_RADAR_RIU (d0, r_pools r) of
             (ok, d0', P1) \<Rightarrow>
               (let r1 = r\<lparr>r_dpd := (r_dpd r)[0 := Some d0'], r_pools := P1\<rparr>
                in if \<not> ok then Inr (False, r1)
                   else case r_dpd r1 ! 1 of
                          None \<Rightarrow> Inl Null_Deref
                        | Some d1 \<Rightarrow>
                            (case dfs_pattern_detector_set_domain reg RWNX_RADAR_FCU (d1, P1) of
                               (ok2, d1', P2) \<Rightarrow> Inr (ok2, r1\<lparr>r_dpd := (r_dpd r1)[1 := Some d1'], r_pools := P2\<rparr>)))))"

definition rwnx_radar_detection_enable_on_cur_channel :: "radar_env \<Rightarrow> bool \<Rightarrow> rwnx_radar \<Rightarrow> rwnx_radar outcome" where
  "rwnx_radar_detection_enable_on_cur_channel e chan_radar r =
     (if e_center e = None then Inr r
      else rwnx_radar_detection_enable (if chan_radar then RWNX_RADAR_DETECT_REPORT else RWNX_RADAR_DETECT_DISABLE) 0 r)"

end
