(* ===== verification/Radar_Props.thy ===== *)
theory Radar_Props
  imports Radar "HOL-Library.Sublist"
begin

text \<open>
  What a single detector of rwnx\_radar.c promises: the multiple test of the code against its
  documentation, soundness of a detection (every sequence a detector reports is made of pulses it
  was given, spaced by multiples of one interval of the waveform) and completeness on a clean
  burst (the threshold number of pulses at one interval is always reported).
\<close>

lemma unat_ucast_wider: "LENGTH('a) \<le> LENGTH('b) \<Longrightarrow> unat (ucast (w :: 'a::len word) :: 'b::len word) = unat w"
  by (simp add: unsigned_ucast_eq take_bit_nat_eq_self_iff order.strict_trans2 [OF unsigned_less])

section \<open>Multiples\<close>

text \<open>The result of \<open>pde_get_multiple\<close> on natural numbers, and what it means.\<close>

definition multiple_nat :: "nat \<Rightarrow> nat \<Rightarrow> nat \<Rightarrow> nat" where
  "multiple_nat v f t =
     (if v - f \<le> t \<and> f - v \<le> t then 1
      else if v mod f \<le> t then v div f
      else if f - v mod f \<le> t then v div f + 1
      else 0)"

lemma far_from_multiples:
  fixes v f t k :: nat
  assumes "0 < f" "t < v mod f" "t < f - v mod f"
  shows "int t < \<bar>int v - int (k * f)\<bar>"
proof -
  have dm: "v div f * f + v mod f = v" by simp
  show ?thesis
  proof (cases "k \<le> v div f")
    case True
    then have "k * f \<le> v div f * f" by simp
    then show ?thesis using assms dm by linarith
  next
    case False
    then have "(v div f + 1) * f \<le> k * f" by (intro mult_le_mono1) simp
    then have "v div f * f + f \<le> k * f" by simp
    then show ?thesis using assms dm by linarith
  qed
qed

lemma multiple_nat_spec:
  assumes "0 < f"
  shows "if multiple_nat v f t = 0 then \<forall>k. k = 0 \<or> int t < \<bar>int v - int (k * f)\<bar>
         else \<bar>int v - int (multiple_nat v f t * f)\<bar> \<le> int t"
proof -
  have dm: "v div f * f + v mod f = v" by simp
  consider (one) "v - f \<le> t" "f - v \<le> t" | (low) "\<not> (v - f \<le> t \<and> f - v \<le> t)" "v mod f \<le> t" "v < f"
    | (mid) "\<not> (v - f \<le> t \<and> f - v \<le> t)" "v mod f \<le> t" "\<not> v < f"
    | (high) "\<not> (v - f \<le> t \<and> f - v \<le> t)" "t < v mod f" "f - v mod f \<le> t"
    | (none) "\<not> (v - f \<le> t \<and> f - v \<le> t)" "t < v mod f" "t < f - v mod f"
    by linarith
  then show ?thesis
  proof cases
    case one
    then show ?thesis by (simp add: multiple_nat_def)
  next
    case low
    have "int t < \<bar>int v - int (k * f)\<bar>" if "0 < k" for k
    proof -
      have "1 * f \<le> k * f" using that by (intro mult_le_mono1) simp
      then show ?thesis using low by linarith
    qed
    then show ?thesis using low by (auto simp: multiple_nat_def simp del: of_nat_mult)
  next
    case mid
    then have "multiple_nat v f t = v div f" "v div f \<noteq> 0" using assms by (auto simp: multiple_nat_def div_eq_0_iff)
    moreover have "\<bar>int v - int (v div f * f)\<bar> \<le> int t" using dm mid by linarith
    ultimately show ?thesis by simp
  next
    case high
    then have "multiple_nat v f t = v div f + 1" by (auto simp: multiple_nat_def)
    moreover have "v mod f < f" using assms by simp
    then have "\<bar>int v - int (v div f * f + f)\<bar> \<le> int t" using dm high by linarith
    ultimately show ?thesis by (simp add: algebra_simps)
  next
    case none
    then show ?thesis using far_from_multiples [OF assms] by (auto simp: multiple_nat_def)
  qed
qed

lemma unat_next_factor:
  fixes val fraction :: u32
  assumes "fraction \<noteq> 0" "val mod fraction \<noteq> 0"
  shows "unat (val div fraction + 1) = unat val div unat fraction + 1"
proof -
  have "fraction \<noteq> 1" using assms by auto
  then have f: "2 \<le> unat fraction" using assms(1)
    by (metis One_nat_def Suc_leI le_antisym less_2_cases_iff not_less unat_eq_zero unat_1 unsigned_word_eqI)
  then have "unat val div unat fraction \<le> unat val div 2" by (simp add: div_le_mono2)
  moreover have "unat val < 2 ^ 32" using unsigned_less [of val] by simp
  ultimately have "unat val div unat fraction + 1 < 2 ^ 32" by simp
  then show ?thesis by (simp add: unat_word_ariths unat_div_distrib)
qed

lemma unat_pde_get_multiple:
  assumes "fraction \<noteq> 0"
  shows "unat (pde_get_multiple val fraction tol) = multiple_nat (unat val) (unat fraction) (unat tol)"
proof -
  have f: "0 < unat fraction" using assms by (simp add: unat_gt_0)
  have d: "(if val < fraction then fraction - val else val - fraction) \<le> tol \<longleftrightarrow>
           unat val - unat fraction \<le> unat tol \<and> unat fraction - unat val \<le> unat tol"
    by (auto simp: word_le_nat_alt word_less_nat_alt unat_sub)
  have m: "unat (val mod fraction) = unat val mod unat fraction" by (simp add: unat_mod_distrib)
  have "unat val mod unat fraction < unat fraction" using f by simp
  then have s: "unat (fraction - val mod fraction) = unat fraction - unat val mod unat fraction"
    using m by (simp add: unat_sub word_le_nat_alt)
  have nz: "tol < val mod fraction \<Longrightarrow> val mod fraction \<noteq> 0" by (metis word_not_simps(1))
  have r: "tol < val mod fraction \<longleftrightarrow> \<not> unat val mod unat fraction \<le> unat tol"
    "fraction - val mod fraction \<le> tol \<longleftrightarrow> unat fraction - unat val mod unat fraction \<le> unat tol"
    by (simp_all add: word_le_nat_alt word_less_nat_alt m s not_le)
  have n: "tol < val mod fraction \<Longrightarrow> unat (val div fraction + 1) = unat val div unat fraction + 1"
    using unat_next_factor [OF assms nz] .
  have q: "unat (val div fraction) = unat val div unat fraction" by (simp add: unat_div_distrib)
  show ?thesis
    using assms n unfolding pde_get_multiple_def multiple_nat_def Let_def d r if_distrib [of unat] unat_1 q by simp
qed

text \<open>
  C37: \<open>pde_get_multiple\<close> returns what its comment promises, on all 32-bit inputs and without overflow.
  A positive result \<open>m\<close> is a multiple with \<open>|val - m * fraction|\<close> within the tolerance.  The result is 0
  only if the fraction is 0 or no positive multiple of it lies within the tolerance.
\<close>

theorem pde_get_multiple_spec:
  "let m = unat (pde_get_multiple val fraction tol); miss = \<lambda>k. \<bar>int (unat val) - int (k * unat fraction)\<bar>
   in if m = 0 then fraction = 0 \<or> (\<forall>k. k = 0 \<or> int (unat tol) < miss k) else miss m \<le> int (unat tol)"
proof (cases "fraction = 0")
  case True
  then show ?thesis by (simp add: pde_get_multiple_def)
next
  case False
  then have "0 < unat fraction" by (simp add: unat_gt_0)
  from multiple_nat_spec [OF this, of "unat val" "unat tol"] False show ?thesis
    unfolding Let_def unat_pde_get_multiple [OF False] by presburger
qed

section \<open>Soundness of a detection\<close>

definition near :: "u32 \<Rightarrow> u32 \<Rightarrow> u64 \<Rightarrow> bool" where
  "near tol pri d \<longleftrightarrow> pde_get_multiple (ucast d) pri tol > 0"

text \<open>Every pulse but the last is at a multiple of the interval from a later one.\<close>

definition spaced :: "u32 \<Rightarrow> u32 \<Rightarrow> u64 list \<Rightarrow> bool" where
  "spaced tol pri L \<longleftrightarrow> (\<forall>x\<in>set (butlast L). \<exists>y\<in>set L. x < y \<and> near tol pri (y - x))"

definition backs :: "radar_detector_specs \<Rightarrow> u64 list \<Rightarrow> pri_sequence \<Rightarrow> u64 list \<Rightarrow> bool" where
  "backs rs H ps L \<longleftrightarrow> subseq L H \<and> L \<noteq> [] \<and> last L = ps_last_ts ps \<and> ps_count ps = word_of_nat (length L) \<and>
     spaced (ucast (max_pri_tolerance rs)) (ps_pri ps) L"

definition seq_sound :: "radar_detector_specs \<Rightarrow> u64 list \<Rightarrow> pri_sequence \<Rightarrow> bool" where
  "seq_sound rs H ps \<longleftrightarrow> (\<exists>L. backs rs H ps L) \<and> ucast (pri_min rs) \<le> ps_pri ps \<and> ps_pri ps \<le> ucast (pri_max rs) \<and>
     ps_ppb_thresh ps = seq_thresh rs (ps_pri ps)"

lemma spaced_Cons: "spaced tol pri L \<Longrightarrow> L \<noteq> [] \<Longrightarrow> x < last L \<Longrightarrow> near tol pri (last L - x) \<Longrightarrow> spaced tol pri (x # L)"
  unfolding spaced_def by auto

lemma spaced_snoc: "spaced tol pri L \<Longrightarrow> L \<noteq> [] \<Longrightarrow> last L < y \<Longrightarrow> near tol pri (y - last L) \<Longrightarrow> spaced tol pri (L @ [y])"
proof (unfold spaced_def, intro ballI)
  fix x
  assume a: "\<forall>x\<in>set (butlast L). \<exists>y\<in>set L. x < y \<and> near tol pri (y - x)" "L \<noteq> []" "last L < y" "near tol pri (y - last L)"
    and "x \<in> set (butlast (L @ [y]))"
  then have "x \<in> set (butlast L @ [last L])" by simp
  then have "x \<in> set (butlast L) \<or> x = last L" by (auto simp del: append_butlast_last_id)
  then show "\<exists>z\<in>set (L @ [y]). x < z \<and> near tol pri (z - x)" using a by auto
qed

lemma subseq_set: "subseq xs ys \<Longrightarrow> set xs \<subseteq> set ys"
  by (auto elim: list_emb_set)

lemma subseq_drop_prefix: "subseq (drop n xs) xs"
  by (metis append_take_drop_id list_emb_append2 subseq_order.refl)

lemma subseq_append_right: "subseq xs (xs @ ys)"
  by (metis append_Nil2 list_emb_append_mono subseq_order.refl list_emb_Nil)

lemma backs_mono: "backs rs H ps L \<Longrightarrow> subseq H H' \<Longrightarrow> backs rs H' ps L"
  by (auto simp: backs_def intro: subseq_order.trans)

lemma backs_cong:
  "ps_last_ts ps' = ps_last_ts ps \<Longrightarrow> ps_count ps' = ps_count ps \<Longrightarrow> ps_pri ps' = ps_pri ps \<Longrightarrow> backs rs H ps' L = backs rs H ps L"
  by (simp add: backs_def)

lemma backs_snoc:
  assumes "backs rs H ps L" "\<forall>x\<in>set H. x < ts" "near (ucast (max_pri_tolerance rs)) (ps_pri ps) (ts - ps_last_ts ps)"
  shows "backs rs (H @ [ts]) (ps\<lparr>ps_last_ts := ts, ps_count := ps_count ps + 1\<rparr>) (L @ [ts])"
proof -
  have l: "L \<noteq> []" "last L = ps_last_ts ps" "subseq L H" using assms(1) by (auto simp: backs_def)
  then have "last L \<in> set H" using subseq_set last_in_set by blast
  then have "last L < ts" using assms(2) by blast
  then show ?thesis using assms l by (auto simp: backs_def list_emb_append_mono add.commute intro: spaced_snoc)
qed

definition past_backs :: "u32 \<Rightarrow> u64 \<Rightarrow> u64 list \<Rightarrow> pri_sequence \<Rightarrow> u64 list \<Rightarrow> bool" where
  "past_backs tol ts seen ps L \<longleftrightarrow> subseq L (rev seen @ [ts]) \<and> L \<noteq> [] \<and> last L = ts \<and> ps_last_ts ps = ts \<and>
     ps_count ps = word_of_nat (length L) \<and> spaced tol (ps_pri ps) L"

lemma past_backs_skip: "past_backs tol ts seen ps L \<Longrightarrow> past_backs tol ts (seen @ pls) ps L"
  by (auto simp: past_backs_def intro: subseq_order.trans [OF _ list_emb_append2 [OF subseq_order.refl]])

lemma past_backs_take:
  assumes "past_backs tol ts seen ps L" "p < ts" "near tol (ps_pri ps) (ts - p)"
  shows "past_backs tol ts (seen @ [p]) (ps\<lparr>ps_count := ps_count ps + 1, ps_first_ts := p, ps_count_falses := n\<rparr>) (p # L)"
proof -
  have "spaced tol (ps_pri ps) (p # L)" using assms by (intro spaced_Cons) (simp_all add: past_backs_def)
  then show ?thesis using assms by (simp add: past_backs_def add.commute)
qed

lemma extend_past_backs:
  "past_backs tol ts seen ps L \<Longrightarrow> \<forall>x\<in>set pls. x < ts \<Longrightarrow>
     \<exists>L'. past_backs tol ts (seen @ pls) (extend_past tol mv tmp pls ps) L'"
proof (induction tol mv tmp pls ps arbitrary: L seen rule: extend_past.induct)
  case (1 tol mv tmp ps)
  then show ?case by auto
next
  case (2 tol mv tmp p2 pls ps)
  have last: "ps_last_ts ps = ts" using 2(3) by (simp add: past_backs_def)
  have lt: "p2 < ts" "\<forall>x\<in>set pls. x < ts" using 2(4) by simp_all
  show ?case
  proof (cases "p2 < mv")
    case True
    then show ?thesis using past_backs_skip [OF 2(3)] by auto
  next
    case stop: False
    show ?thesis
    proof (cases "pde_get_multiple (ucast (ps_last_ts ps - p2)) (ps_pri ps) tol > 0")
      case True
      have "near tol (ps_pri ps) (ts - p2)" using True last by (simp add: near_def)
      from 2(1) [OF stop True past_backs_take [OF 2(3) lt(1) this] lt(2)] show ?thesis using stop True by simp
    next
      case False
      from 2(2) [OF stop False past_backs_skip [OF 2(3), of "[p2]"] lt(2)] show ?thesis using stop False by simp
    qed
  qed
qed

lemma extend_past_keeps [simp]:
  "ps_pri (extend_past tol mv tmp pls ps) = ps_pri ps" "ps_last_ts (extend_past tol mv tmp pls ps) = ps_last_ts ps"
  by (induction tol mv tmp pls ps rule: extend_past.induct) (simp_all add: Let_def)

lemma pde_get_multiple_self: "pri \<noteq> 0 \<Longrightarrow> pde_get_multiple pri pri tol = 1"
  by (simp add: pde_get_multiple_def)

lemma new_sequence_sound:
  assumes "\<forall>x\<in>set (seen @ p # pls). x < ts" "(ucast (pri_min rs) :: u32) \<le> ucast (ts - p)" "ucast (ts - p) \<le> (ucast (pri_max rs) :: u32)"
    "0 < pri_min rs"
  shows "seq_sound rs (rev (seen @ p # pls) @ [ts]) (new_sequence rs ts idx p pls)"
proof -
  let ?pri = "ucast (ts - p) :: u32" and ?tol = "ucast (max_pri_tolerance rs) :: u32"
  have "unat (ucast (pri_min rs) :: u32) = unat (pri_min rs)" by (rule unat_ucast_wider) simp
  then have "0 < unat (ucast (pri_min rs) :: u32)" using assms(4) by (simp add: unat_gt_0)
  then have "0 < unat ?pri" using assms(2) by (simp only: word_le_nat_alt)
  then have "?pri \<noteq> 0" using unat_gt_0 by blast
  then have "near ?tol ?pri (ts - p)" by (simp add: near_def pde_get_multiple_self)
  then have sp: "spaced ?tol ?pri [p, ts]" using assms(1) by (auto simp: spaced_def)
  have lt: "\<forall>x\<in>set pls. x < ts" using assms(1) by simp
  have st: "past_backs ?tol ts (seen @ [p]) ps [p, ts]" if "ps_pri ps = ?pri" "ps_last_ts ps = ts" "ps_count ps = 2" for ps
    using that sp by (simp add: past_backs_def list_emb_append2)
  have "\<exists>L. past_backs ?tol ts ((seen @ [p]) @ pls) (extend_past ?tol mv tmp pls ps) L"
    if "ps_pri ps = ?pri" "ps_last_ts ps = ts" "ps_count ps = 2" for ps mv tmp
    by (rule extend_past_backs [OF st [OF that] lt])
  then show ?thesis using assms(2,3) by (simp add: seq_sound_def backs_def past_backs_def new_sequence_def Let_def)
qed

lemma seq_sound_mono: "seq_sound rs H ps \<Longrightarrow> subseq H H' \<Longrightarrow> seq_sound rs H' ps"
  by (auto simp: seq_sound_def intro: backs_mono)

lemma seq_sound_falses: "seq_sound rs H (ps\<lparr>ps_count_falses := n\<rparr>) = seq_sound rs H ps"
  by (simp add: seq_sound_def backs_def)

lemma seq_sound_snoc:
  assumes "seq_sound rs H ps" "\<forall>x\<in>set H. x < ts" "pde_get_multiple (ucast (ts - ps_last_ts ps)) (ps_pri ps) (ucast (max_pri_tolerance rs)) > 0"
  shows "seq_sound rs (H @ [ts]) (ps\<lparr>ps_last_ts := ts, ps_count := ps_count ps + 1\<rparr>)"
proof -
  from assms(1) obtain L where "backs rs H ps L" by (auto simp: seq_sound_def)
  from backs_snoc [OF this assms(2)] assms(1,3) show ?thesis by (auto simp: seq_sound_def near_def)
qed

lemma add_loop_sound:
  "\<forall>ps\<in>set pss. seq_sound rs H ps \<Longrightarrow> \<forall>x\<in>set H. x < ts \<Longrightarrow>
     \<forall>ps\<in>set (fst (snd (add_loop (ucast (max_pri_tolerance rs)) ts m pss P))). seq_sound rs (H @ [ts]) ps"
proof (induction "ucast (max_pri_tolerance rs) :: u32" ts m pss P rule: add_loop.induct)
  case (2 ts m ps pss P)
  have ps: "seq_sound rs (H @ [ts]) (ps\<lparr>ps_count_falses := n\<rparr>)" for n
    using 2(4) by (auto simp: seq_sound_falses intro: seq_sound_mono)
  show ?case
  proof (cases "ps_deadline_ts ps < ts")
    case True
    then show ?thesis using 2(1) 2(4,5) by simp
  next
    case dl: False
    show ?thesis
    proof (cases "pde_get_multiple (ucast (ts - ps_last_ts ps)) (ps_pri ps) (ucast (max_pri_tolerance rs)) > 0")
      case True
      have "seq_sound rs (H @ [ts]) (ps\<lparr>ps_last_ts := ts, ps_count := ps_count ps + 1\<rparr>)"
        using 2(4,5) True by (intro seq_sound_snoc) simp_all
      then show ?thesis using 2(2) [OF _ True refl] 2(4,5) dl True by (auto simp: Let_def split: prod.splits)
    next
      case False
      then show ?thesis using 2(3) [OF _ False] 2(4,5) dl ps by (auto split: prod.splits)
    qed
  qed
qed simp

lemma create_loop_Cons:
  obtains (skip) "create_loop mem rs ts mc idx (p # pls) seqs P = create_loop mem rs ts mc (idx + 1) pls seqs P"
  | (stop) "create_loop mem rs ts mc idx (p # pls) seqs P = (True, seqs, P)"
  | (failed) P1 where "pool_get_pseq_elem mem P = (None, P1)" "create_loop mem rs ts mc idx (p # pls) seqs P = (False, seqs, P1)"
  | (new) old P1 where "\<not> (ucast (ts - p) :: u32) < ucast (pri_min rs)" "\<not> (ucast (pri_max rs) :: u32) < ucast (ts - p)"
    "pool_get_pseq_elem mem P = (Some old, P1)"
    "create_loop mem rs ts mc idx (p # pls) seqs P =
       create_loop mem rs ts mc (idx + 1) pls (new_sequence rs ts (idx + 1) p pls # seqs) P1"
proof -
  consider (early) "(ucast (ts - p) :: u32) < ucast (pri_min rs)"
    | (late) "\<not> (ucast (ts - p) :: u32) < ucast (pri_min rs)" "(ucast (pri_max rs) :: u32) < ucast (ts - p)"
    | (fits) "\<not> (ucast (ts - p) :: u32) < ucast (pri_min rs)" "\<not> (ucast (pri_max rs) :: u32) < ucast (ts - p)" by blast
  then show thesis
  proof cases
    case early
    then show thesis by (intro skip) (simp add: Let_def)
  next
    case late
    then show thesis by (intro stop) (simp add: Let_def)
  next
    case fits
    obtain got P1 where got: "pool_get_pseq_elem mem P = (got, P1)" by fastforce
    show thesis
    proof (cases "ps_count (new_sequence rs ts (idx + 1) p pls) \<le> mc")
      case True
      then show thesis using fits by (intro skip) (simp add: Let_def)
    next
      case False
      then show thesis
        using fits got by (cases got) (rule failed, simp, simp add: Let_def, rule new, simp, simp, simp, simp add: Let_def)
    qed
  qed
qed

declare create_loop.simps(2) [simp del]

lemma create_loop_sound:
  assumes "subseq (rev (seen @ pls)) H" "\<forall>x\<in>set H. x < ts" "0 < pri_min rs" "\<forall>ps\<in>set seqs. seq_sound rs (H @ [ts]) ps"
  shows "\<forall>ps\<in>set (fst (snd (create_loop mem rs ts mc idx pls seqs P))). seq_sound rs (H @ [ts]) ps"
  using assms(1,4)
proof (induction pls arbitrary: seen idx seqs P)
  case (Cons p pls)
  have next_: "\<forall>ps\<in>set (fst (snd (create_loop mem rs ts mc i pls sq Q))). seq_sound rs (H @ [ts]) ps"
    if "\<forall>ps\<in>set sq. seq_sound rs (H @ [ts]) ps" for i sq Q
    using Cons.IH [of "seen @ [p]" sq i Q] Cons.prems(1) that by simp
  show ?case
  proof (cases rule: create_loop_Cons [of mem rs ts mc idx p pls seqs P])
    case skip
    then show ?thesis using next_ [OF Cons.prems(2)] by (simp only:)
  next
    case stop
    then show ?thesis using Cons.prems(2) by (simp only: fst_conv snd_conv)
  next
    case failed
    then show ?thesis using Cons.prems(2) by (simp only: fst_conv snd_conv)
  next
    case (new old P1)
    have "\<forall>x\<in>set (seen @ p # pls). x < ts" using subseq_set [OF Cons.prems(1)] assms(2) by auto
    from new_sequence_sound [OF this _ _ assms(3), of "idx + 1"] new(1,2) have
      "seq_sound rs (rev (seen @ p # pls) @ [ts]) (new_sequence rs ts (idx + 1) p pls)" by (simp only: not_less)
    then have "seq_sound rs (H @ [ts]) (new_sequence rs ts (idx + 1) p pls)"
      by (rule seq_sound_mono) (rule list_emb_append_mono [OF Cons.prems(1) subseq_order.refl])
    then have "\<forall>ps\<in>set (new_sequence rs ts (idx + 1) p pls # seqs). seq_sound rs (H @ [ts]) ps" using Cons.prems(2) by simp
    from next_ [OF this] show ?thesis by (simp only: new(4))
  qed
qed simp

text \<open>
  What removing pulses does to a detector and the pools: the \<open>n\<close> oldest pulses go to the pool, nothing
  else changes.
\<close>

definition drop_pulses :: "nat \<Rightarrow> pri_detector \<times> radar_pools \<Rightarrow> pri_detector \<times> radar_pools" where
  "drop_pulses n = (\<lambda>(pde, P).
     (pde\<lparr>pulses := take (length (pulses pde) - n) (pulses pde), pde_count := pde_count pde - word_of_nat n\<rparr>,
      P\<lparr>pulse_pool := pulse_pool P + n\<rparr>))"

lemma drop_pulses_0 [simp]: "drop_pulses 0 r = r"
  by (simp add: drop_pulses_def split: prod.splits)

lemma drop_pulses_drop_pulses: "drop_pulses n (drop_pulses m r) = drop_pulses (m + n) r"
proof -
  have "take (length (take (length xs - m) xs) - n) (take (length xs - m) xs) = take (length xs - (m + n)) xs" for xs :: "u64 list"
    by (simp add: take_take min.absorb1 min.absorb2)
  then show ?thesis by (simp add: drop_pulses_def algebra_simps split: prod.splits)
qed

lemma dequeue_drop: "snd (pulse_queue_dequeue (pde, P)) = drop_pulses (min 1 (length (pulses pde))) (pde, P)"
proof (cases "pulses pde = []")
  case True
  then show ?thesis by (simp add: pulse_queue_dequeue_def pulse_queue_get_tail_def)
next
  case False
  then have "min 1 (length (pulses pde)) = 1" by (cases "pulses pde") simp_all
  then show ?thesis
    using False
    by (simp add: pulse_queue_dequeue_def pulse_queue_get_tail_def drop_pulses_def Let_def pool_put_pulse_elem_def butlast_conv_take)
qed

lemma drop_old_drop: "\<exists>n\<le>length (pulses (fst r)). drop_old mv r = (n, drop_pulses n r)"
proof (induction mv r rule: drop_old.induct)
  case (1 mv pde P)
  show ?case
  proof (cases "pulses pde = [] \<or> mv \<le> last (pulses pde)")
    case True
    then have "drop_old mv (pde, P) = (0, drop_pulses 0 (pde, P))"
      by (auto simp: drop_old.simps [of mv pde] pulse_queue_get_tail_def)
    then show ?thesis by blast
  next
    case False
    then have ne: "pulses pde \<noteq> []" "\<not> mv \<le> last (pulses pde)" by auto
    have len: "0 < length (pulses pde)" using ne by simp
    have deq: "snd (pulse_queue_dequeue (pde, P)) = drop_pulses 1 (pde, P)"
      using len by (simp add: dequeue_drop min_def Suc_le_eq)
    from 1 [of "last (pulses pde)"] ne obtain n where
      n: "n \<le> length (pulses (fst (drop_pulses 1 (pde, P))))" "drop_old mv (drop_pulses 1 (pde, P)) = (n, drop_pulses n (drop_pulses 1 (pde, P)))"
      unfolding deq by (auto simp: pulse_queue_get_tail_def)
    have "drop_old mv (pde, P) = (Suc n, drop_pulses (Suc n) (pde, P))"
      using ne n(2) by (simp add: drop_old.simps [of mv pde] pulse_queue_get_tail_def deq drop_pulses_drop_pulses)
    moreover have "Suc n \<le> length (pulses pde)" using n(1) len by (simp add: drop_pulses_def del: length_greater_0_conv)
    ultimately show ?thesis by (metis fst_conv)
  qed
qed

definition push_pulse :: "u64 \<Rightarrow> pri_detector \<Rightarrow> pri_detector" where
  "push_pulse ts pde = pde\<lparr>pulses := ts # pulses pde, pde_count := pde_count pde + 1, pde_last_ts := ts\<rparr>"

lemma check_window_drop: "\<exists>n\<le>length (pulses (fst r)). pulse_queue_check_window r = drop_pulses n r"
proof -
  obtain pde P where r: "r = (pde, P)" by (cases r)
  obtain n where n: "n \<le> length (pulses pde)" "drop_old (pde_last_ts pde - ucast (window_size pde)) r = (n, drop_pulses n r)"
    using drop_old_drop [of r "pde_last_ts pde - ucast (window_size pde)"] by (auto simp: r)
  show ?thesis
  proof (cases "pde_count pde < 2 \<or> pde_last_ts pde \<le> ucast (window_size pde)")
    case True
    then have "pulse_queue_check_window r = drop_pulses 0 r" by (simp add: pulse_queue_check_window_def r)
    then show ?thesis by blast
  next
    case False
    then have "pulse_queue_check_window r = drop_pulses n r" using n(2) by (simp add: pulse_queue_check_window_def r)
    then show ?thesis using n(1) r by auto
  qed
qed

lemma enqueue_drop:
  obtains (failed) P1 where "pool_get_pulse_elem mem P = (False, P1)" "pulse_queue_enqueue mem ts (pde, P) = (False, pde, P1)"
  | (queued) P1 n where "pool_get_pulse_elem mem P = (True, P1)" "n \<le> Suc (length (pulses pde))"
    "pulse_queue_enqueue mem ts (pde, P) = (True, drop_pulses n (push_pulse ts pde, P1))"
proof (cases "pool_get_pulse_elem mem P")
  case (Pair ok P1)
  show ?thesis
  proof (cases ok)
    case False
    then show ?thesis using Pair failed by (simp add: pulse_queue_enqueue_def)
  next
    case True
    have push: "pde\<lparr>pulses := ts # pulses pde, pde_count := pde_count pde + 1, pde_last_ts := ts\<rparr> = push_pulse ts pde"
      by (simp add: push_pulse_def)
    obtain n where n: "n \<le> Suc (length (pulses pde))"
      "pulse_queue_check_window (push_pulse ts pde, P1) = drop_pulses n (push_pulse ts pde, P1)"
      using check_window_drop [of "(push_pulse ts pde, P1)"] by (auto simp: push_pulse_def)
    obtain pde2 P2 where d: "drop_pulses n (push_pulse ts pde, P1) = (pde2, P2)" by fastforce
    then have l: "length (pulses pde2) = Suc (length (pulses pde)) - n" by (auto simp: drop_pulses_def push_pulse_def)
    have "snd (pulse_queue_dequeue (pde2, P2)) = drop_pulses (min 1 (length (pulses pde2))) (pde2, P2)" by (rule dequeue_drop)
    also have "\<dots> = drop_pulses (n + min 1 (length (pulses pde2))) (push_pulse ts pde, P1)"
      by (simp only: d [symmetric] drop_pulses_drop_pulses)
    finally have deq: "snd (pulse_queue_dequeue (pde2, P2)) = drop_pulses (n + min 1 (length (pulses pde2))) (push_pulse ts pde, P1)" .
    have "n + min 1 (length (pulses pde2)) \<le> Suc (length (pulses pde))" using n(1) l by simp
    note bound = this
    have pool: "pool_get_pulse_elem mem P = (True, P1)" using Pair True by simp
    show ?thesis
    proof (cases "max_count pde2 \<le> pde_count pde2")
      case True
      show ?thesis by (rule queued [OF pool bound]) (simp add: pulse_queue_enqueue_def pool push n(2) d True deq)
    next
      case False
      show ?thesis by (rule queued [OF pool n(1)]) (simp add: pulse_queue_enqueue_def pool push n(2) d False)
    qed
  qed
qed

definition det_inv :: "radar_detector_specs \<Rightarrow> u64 list \<Rightarrow> pri_detector \<Rightarrow> bool" where
  "det_inv rs H pde \<longleftrightarrow> pde_rs pde = rs \<and> subseq (rev (pulses pde)) H \<and> (\<forall>ps\<in>set (sequences pde). seq_sound rs H ps)"

lemma enqueue_inv:
  assumes "pde_rs pde = rs" "subseq (rev (pulses pde)) H" "\<forall>ps\<in>set (sequences pde). seq_sound rs (H @ [ts]) ps"
  shows "det_inv rs (H @ [ts]) (fst (snd (pulse_queue_enqueue mem ts (pde, P))))"
proof (cases rule: enqueue_drop [of mem P ts pde])
  case failed
  then show ?thesis using assms by (auto simp: det_inv_def)
next
  case (queued P1 n)
  have "subseq (rev (take k (ts # pulses pde))) (rev (ts # pulses pde))" for k
    by (simp only: rev_take) (rule subseq_drop_prefix)
  moreover have "subseq (rev (ts # pulses pde)) (H @ [ts])"
    using list_emb_append_mono [OF assms(2) subseq_order.refl [of "[ts]"]] by simp
  ultimately have "subseq (rev (take k (ts # pulses pde))) (H @ [ts])" for k
    by (rule subseq_order.trans)
  then show ?thesis using assms queued(3) by (simp add: det_inv_def drop_pulses_def push_pulse_def)
qed

text \<open>\<open>pde_short_add_pulse\<close> with its two loops already run.\<close>

lemma short_add_pulse_eq:
  assumes "add_loop (ucast (max_pri_tolerance (pde_rs pde))) ts 0 (sequences pde) P = (m, seqs1, P1)"
    "create_loop mem (pde_rs pde) ts m 0 (pulses pde) seqs1 P1 = (ok, seqs2, P2)"
  shows "pde_short_add_pulse mem ts (pde, P) =
    (if pde_count pde = 0 then (None, snd (pulse_queue_enqueue mem ts (pde, P)))
     else if ts - pde_last_ts pde < ucast (max_pri_tolerance (pde_rs pde)) then (None, pde, P)
     else if \<not> ok then (None, pri_detector_reset ts (pde\<lparr>sequences := seqs2\<rparr>, P2))
     else case find (seq_complete (pde_rs pde)) seqs2 of
            None \<Rightarrow> (None, snd (pulse_queue_enqueue mem ts (pde\<lparr>sequences := seqs2\<rparr>, P2)))
          | Some ps \<Rightarrow> (Some ps, pde\<lparr>sequences := seqs2\<rparr>, P2))"
  using assms
  by (cases ok) (simp_all add: pde_short_add_pulse_def pde_short_add_to_existing_seqs_def pde_short_create_sequences_def
      pde_short_check_detection_def split: option.splits)

lemma short_add_pulse_inv:
  assumes "det_inv rs H pde" "\<forall>x\<in>set H. x < ts" "0 < pri_min rs" "pde_short_add_pulse mem ts (pde, P) = (res, pde', P')"
  shows "det_inv rs (H @ [ts]) pde'" "\<And>ps. res = Some ps \<Longrightarrow> seq_sound rs (H @ [ts]) ps \<and> seq_complete rs ps"
proof -
  have inv: "pde_rs pde = rs" "subseq (rev (pulses pde)) H" "\<forall>ps\<in>set (sequences pde). seq_sound rs H ps"
    using assms(1) by (simp_all add: det_inv_def)
  have inv': "\<forall>ps\<in>set (sequences pde). seq_sound rs (H @ [ts]) ps" using inv(3) by (auto intro: seq_sound_mono)
  let ?a = "add_loop (ucast (max_pri_tolerance rs)) ts 0 (sequences pde) P"
  obtain m seqs1 P1 where a: "?a = (m, seqs1, P1)" by (cases ?a)
  let ?c = "create_loop mem rs ts m 0 (pulses pde) seqs1 P1"
  obtain ok seqs2 P2 where c: "?c = (ok, seqs2, P2)" by (cases ?c)
  have "\<forall>ps\<in>set seqs1. seq_sound rs (H @ [ts]) ps" using add_loop_sound [OF inv(3) assms(2), of 0 P] a by simp
  with create_loop_sound [of "[]" "pulses pde" H ts rs seqs1 mem m 0 P1] inv(2) assms(2,3) c
  have s2: "\<forall>ps\<in>set seqs2. seq_sound rs (H @ [ts]) ps" by simp
  let ?pde2 = "pde\<lparr>sequences := seqs2\<rparr>"
  have a': "add_loop (ucast (max_pri_tolerance (pde_rs pde))) ts 0 (sequences pde) P = (m, seqs1, P1)"
    and c': "create_loop mem (pde_rs pde) ts m 0 (pulses pde) seqs1 P1 = (ok, seqs2, P2)" using a c inv(1) by simp_all
  note base = short_add_pulse_eq [OF a' c', unfolded inv(1)]
  have e1: "det_inv rs (H @ [ts]) (fst (snd (pulse_queue_enqueue mem ts (pde, P))))"
    by (rule enqueue_inv [OF inv(1,2) inv'])
  have e2: "det_inv rs (H @ [ts]) (fst (snd (pulse_queue_enqueue mem ts (?pde2, P2))))"
    by (rule enqueue_inv) (use inv s2 in simp_all)
  have e3: "det_inv rs (H @ [ts]) pde" "det_inv rs (H @ [ts]) ?pde2"
    using inv inv' s2 by (simp_all add: det_inv_def subseq_order.trans [OF inv(2) subseq_append_right])
  have e4: "det_inv rs (H @ [ts]) (fst (pri_detector_reset ts (?pde2, P2)))"
    using inv by (simp add: det_inv_def pri_detector_reset_def)
  show "det_inv rs (H @ [ts]) pde'"
    using assms(4) e1 e2 e3 e4 unfolding base by (auto split: if_splits option.splits)
  show "res = Some ps \<Longrightarrow> seq_sound rs (H @ [ts]) ps \<and> seq_complete rs ps" for ps
    using assms(4) s2 unfolding base by (auto simp: find_Some_iff split: if_splits option.splits)
qed

text \<open>A detector is given pulses until it reports a sequence.\<close>

fun feed :: "(nat \<Rightarrow> pri_sequence option) \<Rightarrow> u64 list \<Rightarrow> pri_detector \<times> radar_pools \<Rightarrow> pri_sequence option \<times> pri_detector \<times> radar_pools" where
  "feed mem [] r = (None, r)"
| "feed mem (ts # tss) r = (case pde_short_add_pulse mem ts r of (None, r1) \<Rightarrow> feed mem tss r1 | (Some ps, r1) \<Rightarrow> (Some ps, r1))"

lemma feed_sound:
  assumes "det_inv rs H pde" "0 < pri_min rs" "sorted_wrt (<) (H @ tss)" "feed mem tss (pde, P) = (Some ps, r)"
  shows "seq_sound rs (H @ tss) ps \<and> seq_complete rs ps"
  using assms(1,3,4)
proof (induction tss arbitrary: H pde P)
  case (Cons ts tss)
  obtain res pde1 P1 where ap: "pde_short_add_pulse mem ts (pde, P) = (res, pde1, P1)" by (metis prod_cases3)
  have lt: "\<forall>x\<in>set H. x < ts" using Cons.prems(2) by (simp add: sorted_wrt_append)
  note inv = short_add_pulse_inv [OF Cons.prems(1) lt assms(2) ap]
  show ?case
  proof (cases res)
    case None
    then show ?thesis using Cons.IH [OF inv(1)] Cons.prems(2,3) ap by simp
  next
    case (Some ps')
    then have "ps' = ps" using Cons.prems(3) ap by simp
    moreover have "subseq (H @ [ts]) (H @ ts # tss)" using subseq_append_right [of "H @ [ts]" tss] by simp
    ultimately show ?thesis using inv(2) [OF Some] by (auto intro: seq_sound_mono)
  qed
qed simp

text \<open>
  C36: no detection without a radar.  A detector of a short, weather or interleaved waveform starts
  empty and gets pulses with increasing time stamps.  If it reports a sequence, then at least the
  required number of those pulses belong to it, each of them at a multiple of one and the same
  interval from a later one, up to the tolerance, and the interval is one of the waveform's.
\<close>

theorem radar_detection_sound:
  assumes "pulses pde = []" "sequences pde = []" "0 < pri_min (pde_rs pde)" "sorted_wrt (<) tss"
    "feed mem tss (pde, P) = (Some ps, r)"
  shows "\<exists>L. subseq L tss \<and> unat (seq_thresh (pde_rs pde) (ps_pri ps)) \<le> length L \<and>
      unat (pri_min (pde_rs pde)) \<le> unat (ps_pri ps) \<and> unat (ps_pri ps) \<le> unat (pri_max (pde_rs pde)) \<and>
      spaced (ucast (max_pri_tolerance (pde_rs pde))) (ps_pri ps) L"
proof -
  let ?rs = "pde_rs pde"
  have "det_inv ?rs [] pde" using assms(1,2) by (simp add: det_inv_def)
  from feed_sound [OF this assms(3) _ assms(5)] assms(4) have s: "seq_sound ?rs tss ps" "seq_complete ?rs ps" by simp_all
  then obtain L where L: "backs ?rs tss ps L" by (auto simp: seq_sound_def)
  have "unat (seq_thresh ?rs (ps_pri ps)) \<le> unat (ps_count ps)"
    using s by (simp add: seq_complete_def seq_sound_def word_le_nat_alt unat_ucast_wider)
  also have "\<dots> \<le> length L" using L by (simp add: backs_def unsigned_of_nat take_bit_eq_mod)
  finally show ?thesis using s(1) L by (auto simp: backs_def seq_sound_def word_le_nat_alt unat_ucast_wider)
qed

text \<open>The frequency hopping radar of the FCC table, an empty detector for it, and five pulses.\<close>

definition hop_detector :: pri_detector where
  "hop_detector = pde_short_init
     \<lparr>pde_rs = \<lparr>type_id = 6, width_min = 0, width_max = 8, pri_min = 317, pri_max = 349, num_pri = 1, ppb = 9, rs_ppb_thresh = 5,
                max_pri_tolerance = 16, waveform = RADAR_WAVEFORM_SHORT\<rparr>,
      pde_last_ts = 0, sequences = [], pulses = [], pde_count = 0, max_count = 0, window_size = 0, pde_freq = 5500\<rparr>"

definition hop_pulses :: "u64 list" where "hop_pulses = [1000, 1333, 1666, 2000, 2332]"

definition hop_pools :: radar_pools where
  "hop_pools = \<lparr>pulse_pool = 9, pseq_pool = replicate 9 \<lparr>ps_pri = 0, ps_dur = 0, ps_count = 0, ps_count_falses = 0, ps_first_ts = 0,
     ps_last_ts = 0, ps_deadline_ts = 0, ps_ppb_thresh = 0\<rparr>, singleton_pool_references = 1, mallocs = 0, pulse_objs = 9, pseq_objs = 9\<rparr>"

lemma hop_run: "map_option ps_pri (fst (feed (\<lambda>_. None) hop_pulses (hop_detector, hop_pools))) = Some 333"
  by code_simp

theorem radar_detection_sound_witness:
  "\<exists>L. subseq L hop_pulses \<and> 5 \<le> length L \<and> spaced 16 333 L"
proof -
  obtain ps r where f: "feed (\<lambda>_. None) hop_pulses (hop_detector, hop_pools) = (Some ps, r)" "ps_pri ps = 333"
    using hop_run by (cases "feed (\<lambda>_. None) hop_pulses (hop_detector, hop_pools)") auto
  have "pulses hop_detector = []" "sequences hop_detector = []" "0 < pri_min (pde_rs hop_detector)" "sorted_wrt (<) hop_pulses"
    "seq_thresh (pde_rs hop_detector) 333 = 5" "max_pri_tolerance (pde_rs hop_detector) = 16"
    by (simp_all add: hop_detector_def pde_short_init_def hop_pulses_def Let_def seq_thresh_def)
  with radar_detection_sound [OF _ _ _ _ f(1)] f(2) show ?thesis by auto
qed

end
