(* ===== verification/Dfs_Mem.thy ===== *)
theory Dfs_Mem
  imports Dfs Radar_Props
begin

text \<open>
  The accounting of the radar pools: every pulse and every sequence object that was allocated and
  not freed is in its pool or linked in a detector, and the pools are freed with the last detector.
  The operations on one detector are shown to keep the balance first, then those on the lists.
\<close>

section \<open>One detector\<close>

definition bal :: "pri_detector \<times> radar_pools \<Rightarrow> pri_detector \<times> radar_pools \<Rightarrow> bool" where
  "bal r r' \<longleftrightarrow>
     pulse_objs (snd r') + pulse_pool (snd r) + length (pulses (fst r)) = pulse_objs (snd r) + pulse_pool (snd r') + length (pulses (fst r')) \<and>
     pseq_objs (snd r') + length (pseq_pool (snd r)) + length (sequences (fst r)) =
       pseq_objs (snd r) + length (pseq_pool (snd r')) + length (sequences (fst r')) \<and>
     singleton_pool_references (snd r') = singleton_pool_references (snd r)"

lemma bal_refl [simp]: "bal r r"
  by (simp add: bal_def)

lemma bal_trans [trans]: "bal r s \<Longrightarrow> bal s t \<Longrightarrow> bal r t"
  by (simp add: bal_def)

lemma bal_drop: "n \<le> length (pulses pde) \<Longrightarrow> bal (pde, P) (drop_pulses n (pde, P))"
  by (simp add: bal_def drop_pulses_def)

lemma get_pulse_bal:
  assumes "pool_get_pulse_elem mem P = (ok, P1)"
  shows "bal (pde, P) (if ok then push_pulse ts pde else pde, P1)"
  using assms by (auto simp: bal_def pool_get_pulse_elem_def push_pulse_def split: if_splits)

lemma bal_enqueue: "bal (pde, P) (snd (pulse_queue_enqueue mem ts (pde, P)))"
proof (cases rule: enqueue_drop [of mem P ts pde])
  case (failed P1)
  then show ?thesis using get_pulse_bal [OF failed(1), of pde ts] by simp
next
  case (queued P1 n)
  have "bal (pde, P) (push_pulse ts pde, P1)" using get_pulse_bal [OF queued(1), of pde ts] by simp
  also have "bal \<dots> (drop_pulses n (push_pulse ts pde, P1))" using queued(2) by (intro bal_drop) (simp add: push_pulse_def)
  finally show ?thesis using queued(3) by simp
qed

lemma bal_add_loop:
  "add_loop tol ts m pss P = (m', qs, P') \<Longrightarrow>
     pseq_objs P' = pseq_objs P \<and> length (pseq_pool P') + length qs = length (pseq_pool P) + length pss \<and>
     pulse_objs P' = pulse_objs P \<and> pulse_pool P' = pulse_pool P \<and> singleton_pool_references P' = singleton_pool_references P"
proof (induction pss arbitrary: m P m' qs P')
  case (Cons ps pss)
  show ?case
  proof (cases "ps_deadline_ts ps < ts")
    case True
    then show ?thesis using Cons.prems Cons.IH [of m "pool_put_pseq_elem ps P" m' qs P'] by (simp add: pool_put_pseq_elem_def)
  next
    case False
    then obtain n ps1 qs1 where "add_loop tol ts n pss P = (m', qs1, P')" "qs = ps1 # qs1"
      using Cons.prems by (auto simp: Let_def split: if_splits prod.splits)
    then show ?thesis using Cons.IH [of n P m' qs1 P'] by simp
  qed
qed simp

lemma get_pseq_bal:
  "pool_get_pseq_elem mem P = (got, P1) \<Longrightarrow>
     pseq_objs P1 + length (pseq_pool P) = pseq_objs P + length (pseq_pool P1) + (if got = None then 0 else 1) \<and>
     pulse_objs P1 = pulse_objs P \<and> pulse_pool P1 = pulse_pool P \<and> singleton_pool_references P1 = singleton_pool_references P"
  by (auto simp: pool_get_pseq_elem_def split: list.splits if_splits)

lemma bal_create_loop:
  "create_loop mem rs ts mc idx pls seqs P = (ok, seqs', P') \<Longrightarrow>
     pseq_objs P' + length (pseq_pool P) + length seqs = pseq_objs P + length (pseq_pool P') + length seqs' \<and>
     pulse_objs P' = pulse_objs P \<and> pulse_pool P' = pulse_pool P \<and> singleton_pool_references P' = singleton_pool_references P"
proof (induction pls arbitrary: idx seqs P)
  case (Cons p pls)
  show ?case
  proof (cases rule: create_loop_Cons [of mem rs ts mc idx p pls seqs P])
    case skip
    then show ?thesis using Cons.IH Cons.prems by simp
  next
    case stop
    then show ?thesis using Cons.prems by simp
  next
    case (failed P1)
    then show ?thesis using Cons.prems get_pseq_bal [OF failed(1)] by simp
  next
    case (new old P1)
    then show ?thesis using Cons.prems Cons.IH [of "idx + 1" "new_sequence rs ts (idx + 1) p pls # seqs" P1] get_pseq_bal [OF new(3)] by simp
  qed
qed simp

lemma reset_pools:
  "(pool_put_pulse_elem ^^ n) P = P\<lparr>pulse_pool := pulse_pool P + n\<rparr>" "fold pool_put_pseq_elem xs P = P\<lparr>pseq_pool := rev xs @ pseq_pool P\<rparr>"
  by (induction n) (simp_all add: pool_put_pulse_elem_def, induction xs arbitrary: P, simp_all add: pool_put_pseq_elem_def)

lemma bal_reset: "bal r (pri_detector_reset ts r)"
  by (cases r) (simp add: bal_def pri_detector_reset_def reset_pools)

lemma bal_short: "bal (pde, P) (snd (pde_short_add_pulse mem ts (pde, P)))"
proof -
  obtain m seqs1 P1 where a: "add_loop (ucast (max_pri_tolerance (pde_rs pde))) ts 0 (sequences pde) P = (m, seqs1, P1)"
    by (metis prod_cases3)
  obtain ok seqs2 P2 where c: "create_loop mem (pde_rs pde) ts m 0 (pulses pde) seqs1 P1 = (ok, seqs2, P2)"
    by (metis prod_cases3)
  let ?pde = "pde\<lparr>sequences := seqs2\<rparr>"
  have b: "bal (pde, P) (?pde, P2)" using bal_add_loop [OF a] bal_create_loop [OF c] by (simp add: bal_def)
  show ?thesis
    using b bal_enqueue [of pde P mem ts] bal_trans [OF b bal_enqueue [of ?pde P2 mem ts]] bal_trans [OF b bal_reset [of "(?pde, P2)" ts]]
    by (auto simp: short_add_pulse_eq [OF a c] split: option.splits)
qed

lemma bal_seqs: "length (sequences pde') = length (sequences pde) \<Longrightarrow> pulses pde' = pulses pde \<Longrightarrow> bal (pde, P) (pde', P)"
  by (simp add: bal_def)

lemma bal_long_restart:
  assumes "long_restart ts ps (pde, P) = (ps', r')"
  shows "bal (pde, P) r' \<and> sequences (fst r') = sequences pde"
proof -
  obtain n where n: "n \<le> length (pulses pde)" "drop_old (ts - ucast (window_size pde)) (pde, P) = (n, drop_pulses n (pde, P))"
    using drop_old_drop [of "(pde, P)"] by fastforce
  have "r' = drop_pulses n (pde, P)" using assms n(2) by (auto simp: long_restart_def Let_def split: prod.splits)
  then show ?thesis using bal_drop [OF n(1)] by (simp add: drop_pulses_def)
qed

lemma bal_long_burst:
  assumes "sequences pde = ps0 # pss"
  shows "bal (pde, P) (snd (long_new_burst mem ts d ps pss (pde, P)))"
proof -
  let ?ps1 = "ps\<lparr>ps_count := ps_count ps + 1, ps_count_falses := 1\<rparr>"
  obtain ps2 pde2 P2 where r: "(if ts > ps_deadline_ts ?ps1 then long_restart ts ?ps1 (pde, P) else (?ps1, pde, P)) = (ps2, pde2, P2)"
    by (metis prod_cases3)
  then have b: "bal (pde, P) (pde2, P2)" "sequences pde2 = ps0 # pss"
    using bal_long_restart [of ts ?ps1 pde P ps2 "(pde2, P2)"] assms by (auto split: if_splits)
  have s: "bal (pde, P) (pde2\<lparr>sequences := q # pss\<rparr>, P2)" for q
    by (rule bal_trans [OF b(1) bal_seqs]) (use b(2) in simp_all)
  show ?thesis
    using s bal_trans [OF s bal_enqueue] unfolding long_new_burst_def Let_def prod.case r by simp
qed

lemma bal_long: "bal (pde, P) (snd (pde_long_add_pulse mem ts (pde, P)))"
proof (cases "sequences pde")
  case Nil
  obtain got P1 where g: "pool_get_pseq_elem mem P = (got, P1)" by fastforce
  have b: "got = Some x \<Longrightarrow> bal (pde, P) (pde\<lparr>sequences := [ps]\<rparr>, P1)" for x ps using get_pseq_bal [OF g] Nil by (simp add: bal_def)
  show ?thesis
  proof (cases got)
    case None
    then show ?thesis using Nil g get_pseq_bal [OF g] by (simp add: pde_long_add_pulse_def bal_def)
  next
    case (Some x)
    show ?thesis using Nil g Some bal_trans [OF b [OF Some] bal_enqueue] by (simp add: pde_long_add_pulse_def)
  qed
next
  case (Cons ps pss)
  have "bal (pde, P) (pde\<lparr>sequences := q # pss\<rparr>, P)" for q using Cons by (intro bal_seqs) simp_all
  then show ?thesis using Cons bal_long_burst [OF Cons] by (simp add: pde_long_add_pulse_def Let_def)
qed

lemma bal_add_pulse: "bal r (snd (pde_add_pulse mem ts r))"
  by (cases r) (simp add: pde_add_pulse_def bal_short bal_long)

section \<open>The pools and the lists of detectors\<close>

text \<open>With \<open>n\<close> detectors that hold \<open>a\<close> pulses and \<open>b\<close> sequences.\<close>

definition pool_ok :: "nat \<Rightarrow> nat \<Rightarrow> nat \<Rightarrow> radar_pools \<Rightarrow> bool" where
  "pool_ok a b n P \<longleftrightarrow> pulse_objs P = pulse_pool P + a \<and> pseq_objs P = length (pseq_pool P) + b \<and>
     singleton_pool_references P = word_of_nat n \<and> (n = 0 \<longrightarrow> pulse_pool P = 0 \<and> pseq_pool P = [])"

abbreviation "np pde \<equiv> length (pulses pde)"
abbreviation "ns pde \<equiv> length (sequences pde)"

definition tot :: "(pri_detector \<Rightarrow> nat) \<Rightarrow> dfs_pattern_detector \<Rightarrow> nat" where
  "tot f dpd = sum_list (map f (concat (detectors dpd)))"

definition wf_dpd :: "dfs_pattern_detector \<Rightarrow> bool" where
  "wf_dpd dpd \<longleftrightarrow> unat (num_radar_types dpd) \<le> length (detectors dpd) \<and> length (detectors dpd) = get_dfs_max_radar_types \<and>
     concat (drop (unat (num_radar_types dpd)) (detectors dpd)) = []"

text \<open>The balance of one pattern detector while other detectors hold \<open>a\<close> pulses, \<open>b\<close> sequences and number \<open>n\<close>.\<close>

definition dpd_ok :: "nat \<Rightarrow> nat \<Rightarrow> nat \<Rightarrow> dfs_pattern_detector \<times> radar_pools \<Rightarrow> bool" where
  "dpd_ok a b n r \<longleftrightarrow> wf_dpd (fst r) \<and>
     pool_ok (a + tot np (fst r)) (b + tot ns (fst r)) (n + tot (\<lambda>_. 1) (fst r)) (snd r)"

lemma pool_ok_bal:
  assumes "pool_ok (a + np pde) (b + ns pde) (Suc n) P" "bal (pde, P) (pde', P')"
  shows "pool_ok (a + np pde') (b + ns pde') (Suc n) P'"
  using assms by (simp add: pool_ok_def bal_def)

lemma sum_list_update_nth:
  fixes f :: "'a \<Rightarrow> nat"
  assumes "i < length xs"
  shows "sum_list (map f (xs[i := y])) + f (xs ! i) = sum_list (map f xs) + f y"
  using assms by (induction xs arbitrary: i) (auto split: nat.splits)

lemma sum_concat: "sum_list (map f (concat xss)) = sum_list (map (\<lambda>xs. sum_list (map f xs)) xss)" for f :: "'a \<Rightarrow> nat"
  by (induction xss) simp_all

lemma tot_update:
  assumes "i < length (detectors dpd)" "j < length (detectors dpd ! i)"
  shows "tot f (dpd\<lparr>detectors := (detectors dpd)[i := (detectors dpd ! i)[j := pde]]\<rparr>) + f (detectors dpd ! i ! j) = tot f dpd + f pde"
  using sum_list_update_nth [OF assms(1), of "\<lambda>xs. sum_list (map f xs)" "(detectors dpd ! i)[j := pde]"]
    sum_list_update_nth [OF assms(2), of f pde]
  by (simp add: tot_def sum_concat)

lemma tot_cons:
  assumes "i < length (detectors dpd)"
  shows "tot f (dpd\<lparr>detectors := (detectors dpd)[i := pde # detectors dpd ! i]\<rparr>) = tot f dpd + f pde"
  using sum_list_update_nth [OF assms, of "\<lambda>xs. sum_list (map f xs)" "pde # detectors dpd ! i"]
  by (simp add: tot_def sum_concat)

lemma wf_dpd_update:
  assumes "wf_dpd dpd" "i < unat (num_radar_types dpd)"
  shows "wf_dpd (dpd\<lparr>detectors := (detectors dpd)[i := ds]\<rparr>)"
  using assms by (simp add: wf_dpd_def drop_update_cancel)

lemma tot_pos:
  assumes "i < length (detectors dpd)" "j < length (detectors dpd ! i)"
  shows "0 < tot (\<lambda>_. 1) dpd"
proof -
  have "detectors dpd ! i ! j \<in> set (concat (detectors dpd))" using assms by (metis UN_I nth_mem set_concat)
  then have "0 < length (concat (detectors dpd))" by (rule length_pos_if_in_set)
  then show ?thesis by (simp add: tot_def sum_list_triv)
qed

text \<open>A step of one of its detectors.\<close>

lemma dpd_ok_step:
  assumes "dpd_ok a b n (dpd, P)" "i < unat (num_radar_types dpd)" "j < length (detectors dpd ! i)"
    "bal (detectors dpd ! i ! j, P) (pde, P')"
  shows "dpd_ok a b n (dpd\<lparr>detectors := (detectors dpd)[i := (detectors dpd ! i)[j := pde]]\<rparr>, P')"
proof -
  have i: "i < length (detectors dpd)" using assms(1,2) by (auto simp: dpd_ok_def wf_dpd_def)
  note t = tot_update [OF i assms(3), where pde = pde]
  show ?thesis
    using assms(1,4) wf_dpd_update [OF _ assms(2)] t [of np] t [of ns] t [of "\<lambda>_. 1"] tot_pos [OF i assms(3)]
    by (auto simp: dpd_ok_def pool_ok_def bal_def)
qed

lemma dpd_ok_init:
  assumes "dpd_ok a b n (dpd, P)" "i < unat (num_radar_types dpd)"
  shows "dpd_ok a b n (snd (pri_detector_init mem i freq (dpd, P)))"
proof -
  have i: "i < length (detectors dpd)" using assms by (auto simp: dpd_ok_def wf_dpd_def)
  show ?thesis
    using assms wf_dpd_update [OF _ assms(2)]
    by (simp add: pri_detector_init_def Let_def dpd_ok_def pool_ok_def pool_register_ref_def tot_cons [OF i]
        pde_long_init_def pde_short_init_def add.commute)
qed

section \<open>Operations of the pattern detector\<close>

abbreviation "sigma f ds \<equiv> sum_list (map f ds)"

lemma reset_list_ok:
  "pool_ok (a + sigma np ds) (b + sigma ns ds) (n + length ds) P \<Longrightarrow> reset_list sel ts ds P = (ds', P') \<Longrightarrow>
     pool_ok (a + sigma np ds') (b + sigma ns ds') (n + length ds') P' \<and> length ds' = length ds"
proof (induction ds arbitrary: a b n P ds')
  case (Cons pde ds)
  obtain pde1 P1 where r: "(if sel pde then pri_detector_reset ts (pde, P) else (pde, P)) = (pde1, P1)" by fastforce
  obtain ds1 where ds1: "reset_list sel ts ds P1 = (ds1, P')" "ds' = pde1 # ds1"
    using Cons.prems(2) r by (auto split: prod.splits)
  have "bal (pde, P) (pde1, P1)" using r bal_reset [of "(pde, P)" ts] by (auto split: if_splits)
  then have "pool_ok ((a + sigma np ds) + np pde1) ((b + sigma ns ds) + ns pde1) (Suc (n + length ds)) P1"
    by (rule pool_ok_bal [rotated]) (use Cons.prems(1) in \<open>simp add: algebra_simps\<close>)
  then have "pool_ok ((a + np pde1) + sigma np ds) ((b + ns pde1) + sigma ns ds) (Suc n + length ds) P1" by (simp add: algebra_simps)
  from Cons.IH [OF this ds1(1)] ds1(2) show ?case by (auto simp: algebra_simps)
qed simp

lemma reset_types_ok:
  "pool_ok (a + sigma np (concat dss)) (b + sigma ns (concat dss)) (n + length (concat dss)) P \<Longrightarrow> reset_types sel ts k dss P = (dss', P') \<Longrightarrow>
     pool_ok (a + sigma np (concat dss')) (b + sigma ns (concat dss')) (n + length (concat dss')) P' \<and>
     length dss' = length dss \<and> drop k dss' = drop k dss"
proof (induction sel ts k dss P arbitrary: a b n dss' rule: reset_types.induct)
  case (1 sel ts k ds dss P)
  obtain ds1 P1 where r: "reset_list sel ts ds P = (ds1, P1)" by fastforce
  obtain dss1 where d: "reset_types sel ts k dss P1 = (dss1, P')" "dss' = ds1 # dss1"
    using 1(3) r by (auto split: prod.splits)
  have "pool_ok ((a + sigma np (concat dss)) + sigma np ds) ((b + sigma ns (concat dss)) + sigma ns ds) ((n + length (concat dss)) + length ds) P"
    using 1(2) by (simp add: algebra_simps)
  from reset_list_ok [OF this r]
  have "pool_ok ((a + sigma np ds1) + sigma np (concat dss)) ((b + sigma ns ds1) + sigma ns (concat dss)) ((n + length ds1) + length (concat dss)) P1"
    by (auto simp: algebra_simps)
  from 1(1) [OF r [symmetric] this d(1)] d(2) show ?case by (simp add: algebra_simps)
qed simp_all

lemma tot_length: "tot (\<lambda>_. 1) dpd = length (concat (detectors dpd))"
  by (simp add: tot_def sum_list_triv)

lemma dpd_ok_reset_types:
  assumes "dpd_ok a b n (dpd, P)" "reset_types sel ts (unat (num_radar_types dpd)) (detectors dpd) P = (dss, P')"
  shows "dpd_ok a b n (dpd\<lparr>detectors := dss\<rparr>, P')"
proof -
  have "pool_ok (a + sigma np (concat (detectors dpd))) (b + sigma ns (concat (detectors dpd))) (n + length (concat (detectors dpd))) P"
    using assms(1) unfolding dpd_ok_def fst_conv snd_conv tot_length by (simp add: tot_def)
  from reset_types_ok [OF this assms(2)] assms(1) show ?thesis
    unfolding dpd_ok_def fst_conv snd_conv tot_length by (simp add: tot_def wf_dpd_def)
qed

lemma dpd_ok_cong:
  "dpd_ok a b n (dpd, P) \<Longrightarrow> detectors dpd' = detectors dpd \<Longrightarrow> num_radar_types dpd' = num_radar_types dpd \<Longrightarrow> dpd_ok a b n (dpd', P)"
  by (simp add: dpd_ok_def wf_dpd_def tot_def)

lemma dpd_ok_reset: "dpd_ok a b n r \<Longrightarrow> dpd_ok a b n (dfs_pattern_detector_reset jf r)"
  by (cases r) (auto simp: dfs_pattern_detector_reset_def split: prod.splits intro: dpd_ok_cong [OF dpd_ok_reset_types])

lemma dpd_ok_overflow: "dpd_ok a b n r \<Longrightarrow> dpd_ok a b n (dfs_pattern_detector_pri_overflow r)"
  by (cases r) (auto simp: dfs_pattern_detector_pri_overflow_def split: prod.splits intro: dpd_ok_reset_types)

lemma exit_ok:
  assumes "pool_ok (a + np pde) (b + ns pde) (Suc n) P"
  shows "pool_ok a b n (pri_detector_exit pde P)"
  using assms by (auto simp: pool_ok_def pri_detector_exit_def pri_detector_reset_def reset_pools pool_deregister_ref_def Let_def)

lemma fold_exit_ok:
  "pool_ok (a + sigma np ds) (b + sigma ns ds) (n + length ds) P \<Longrightarrow> pool_ok a b n (fold pri_detector_exit ds P)"
proof (induction ds arbitrary: P)
  case (Cons pde ds)
  then have "pool_ok (a + sigma np ds) (b + sigma ns ds) (n + length ds) (pri_detector_exit pde P)"
    by (intro exit_ok) (simp add: algebra_simps)
  then show ?case using Cons.IH by simp
qed simp

lemma exit_all_ok:
  assumes "dpd_ok a b n (dpd, P)"
  shows "pool_ok a b n (snd (exit_all (dpd, P)))" "concat (detectors (fst (exit_all (dpd, P)))) = []"
    "length (detectors (fst (exit_all (dpd, P)))) = get_dfs_max_radar_types"
proof -
  have e: "concat (drop (unat (num_radar_types dpd)) (detectors dpd)) = []" "length (detectors dpd) = get_dfs_max_radar_types"
    using assms by (simp_all add: dpd_ok_def wf_dpd_def)
  have c: "concat (detectors dpd) = concat (take (unat (num_radar_types dpd)) (detectors dpd))"
    using e(1) by (metis append_Nil2 append_take_drop_id concat_append)
  show "pool_ok a b n (snd (exit_all (dpd, P)))"
    using assms unfolding dpd_ok_def fst_conv snd_conv tot_length by (simp add: exit_all_def Let_def tot_def c fold_exit_ok)
  show "concat (detectors (fst (exit_all (dpd, P)))) = []" using e by (simp add: exit_all_def Let_def)
  show "length (detectors (fst (exit_all (dpd, P)))) = get_dfs_max_radar_types" using e(2) by (simp add: exit_all_def Let_def)
qed

lemma dpd_ok_get:
  assumes "dpd_ok a b n (dpd, P)" "i < unat (num_radar_types dpd)" "pri_detector_get mem freq i (dpd, P) = (Some j, dpd', P')"
  shows "dpd_ok a b n (dpd', P')" "j < length (detectors dpd' ! i)" "num_radar_types dpd' = num_radar_types dpd"
proof -
  have i: "i < length (detectors dpd)" using assms(1,2) by (auto simp: dpd_ok_def wf_dpd_def)
  have bound: "get_loop freq m cur ds = Some j \<Longrightarrow> (\<forall>c. cur = Some c \<longrightarrow> c < m) \<Longrightarrow> j < m + length ds" for m cur ds
    by (induction freq m cur ds rule: get_loop.induct) (auto split: if_splits simp: less_Suc_eq)
  show "dpd_ok a b n (dpd', P')"
    using assms dpd_ok_init [OF assms(1,2), of mem freq] by (auto simp: pri_detector_get_def split: option.splits prod.splits if_splits)
  show "j < length (detectors dpd' ! i)"
    using assms(3) bound [of 0 None "detectors dpd ! i"] i
    by (auto simp: pri_detector_get_def pri_detector_init_def Let_def split: option.splits prod.splits if_splits)
  show "num_radar_types dpd' = num_radar_types dpd"
    using assms(3) by (auto simp: pri_detector_get_def pri_detector_init_def Let_def split: option.splits prod.splits if_splits)
qed

lemma dpd_ok_add_types:
  "dpd_ok a b n (dpd, P) \<Longrightarrow> \<forall>i\<in>set is. i < unat (num_radar_types dpd) \<Longrightarrow>
     add_types mem jf freq len is (dpd, P) = Inr (det, r') \<Longrightarrow> dpd_ok a b n r'"
proof (induction "is" arbitrary: dpd P)
  case (Cons i "is")
  show ?case
  proof (cases "ucast (width_min (radar_spec dpd ! i)) > len \<or> ucast (width_max (radar_spec dpd ! i)) < len")
    case True
    then show ?thesis using Cons.IH [OF Cons.prems(1)] Cons.prems(2,3) by (simp add: Let_def)
  next
    case False
    then obtain j dpd1 P1 where g: "pri_detector_get mem freq i (dpd, P) = (Some j, dpd1, P1)"
      using Cons.prems(3) by (auto simp: Let_def split: prod.splits option.splits)
    note ok = dpd_ok_get [OF Cons.prems(1) _ g]
    obtain res pde P2 where a: "pde_add_pulse mem (last_pulse_ts dpd1) (detectors dpd1 ! i ! j, P1) = (res, pde, P2)"
      by (metis prod_cases3)
    let ?dpd2 = "dpd1\<lparr>detectors := (detectors dpd1)[i := (detectors dpd1 ! i)[j := pde]]\<rparr>"
    have "dpd_ok a b n (?dpd2, P2)"
      using ok Cons.prems(2) bal_add_pulse [of "(detectors dpd1 ! i ! j, P1)" mem "last_pulse_ts dpd1"] a by (intro dpd_ok_step) simp_all
    then show ?thesis
      using Cons.IH [of ?dpd2 P2] dpd_ok_reset [of a b n "(?dpd2, P2)" jf] Cons.prems(2,3) False g a ok(3)
      by (cases res) (simp_all add: Let_def)
  qed
qed simp

lemma dpd_ok_pulse_time: "dpd_ok a b n (dpd, P) \<Longrightarrow> dpd_ok a b n (pulse_time us pri now (dpd, P))"
  by (auto simp: pulse_time_def Let_def intro!: dpd_ok_overflow intro: dpd_ok_cong)

lemma dpd_ok_add_pulse:
  assumes "dpd_ok a b n (dpd, P)" "dfs_pattern_detector_add_pulse mem us jf freq pri len now (dpd, P) = Inr (det, r')"
  shows "dpd_ok a b n r'"
proof -
  obtain dpd1 P1 where t: "pulse_time us pri now (dpd, P) = (dpd1, P1)" by fastforce
  have "dpd_ok a b n (dpd1, P1)" using dpd_ok_pulse_time [OF assms(1)] t by metis
  from dpd_ok_add_types [OF this, of "[0..<unat (num_radar_types dpd1)]"] assms t show ?thesis
    by (auto simp: dfs_pattern_detector_add_pulse_def split: if_splits)
qed

lemma domain_sizes: "rt \<in> set dfs_domains \<Longrightarrow> length (spec_riu rt) \<le> get_dfs_max_radar_types \<and> length (spec_riu rt) < 256"
  by (auto simp: dfs_domains_def get_dfs_max_radar_types_def etsi_radar_ref_types_v17_riu_def fcc_radar_ref_types_riu_def jp_radar_ref_types_riu_def)

lemma dpd_ok_set_domain:
  assumes "dpd_ok a b n (dpd, P)" "dfs_pattern_detector_set_domain reg chain (dpd, P) = (ok, r')"
  shows "dpd_ok a b n r'"
proof -
  let ?dpd = "dpd\<lparr>region := NL80211_DFS_UNSET\<rparr>"
  have u: "dpd_ok a b n (?dpd, P)" using assms(1) by (rule dpd_ok_cong) simp_all
  show ?thesis
  proof (cases "region dpd = reg \<or> get_dfs_domain_radar_types reg = None")
    case True
    then show ?thesis using assms u by (auto simp: dfs_pattern_detector_set_domain_def split: if_splits)
  next
    case False
    then obtain rt where rt: "get_dfs_domain_radar_types reg = Some rt" by auto
    then have "rt \<in> set dfs_domains" by (auto simp: get_dfs_domain_radar_types_def find_Some_iff in_set_conv_nth)
    then have len: "length (spec_riu rt) \<le> get_dfs_max_radar_types" "length (spec_riu rt) < 256" using domain_sizes by blast+
    then have l: "unat (word_of_nat (length (spec_riu rt)) :: u8) = length (spec_riu rt)"
      by (simp add: unsigned_of_nat take_bit_nat_eq_self)
    obtain dpd1 P1 where e: "exit_all (?dpd, P) = (dpd1, P1)" by fastforce
    note ex = exit_all_ok [OF u, unfolded e fst_conv snd_conv]
    have "concat (drop m (detectors dpd1)) = []" for m
      using ex(2) by (metis Nil_is_append_conv append_take_drop_id concat_append)
    then show ?thesis
      using assms(2) False rt e ex l len by (auto simp: dfs_pattern_detector_set_domain_def dpd_ok_def wf_dpd_def tot_def simp del: concat_eq_Nil_conv)
  qed
qed

end
