(* ===== verification/Radar_Burst.thy ===== *)
theory Radar_Burst
  imports Radar_Props
begin

text \<open>
  Completeness of the detection on a clean burst: from an empty detector, pulses at one exact
  interval of the waveform are all queued, make up exactly one sequence, and the pulse that reaches
  the threshold is reported.  The state of the detector after each pulse is given explicitly.
\<close>

text \<open>The conditions on a waveform and an interval; all short and interleaved waveforms of the tables meet them.\<close>

definition burst_ok :: "radar_detector_specs \<Rightarrow> nat \<Rightarrow> bool" where
  "burst_ok rs T \<longleftrightarrow> waveform rs \<noteq> RADAR_WAVEFORM_WEATHER \<and> waveform rs \<noteq> RADAR_WAVEFORM_LONG \<and>
     0 < unat (pri_min rs) \<and> unat (pri_min rs) \<le> T \<and> T \<le> unat (pri_max rs) \<and> unat (max_pri_tolerance rs) \<le> T \<and>
     2 \<le> unat (rs_ppb_thresh rs) \<and> unat (rs_ppb_thresh rs) \<le> unat (ppb rs) \<and> 0 < unat (num_pri rs)"

definition stamp :: "nat \<Rightarrow> nat \<Rightarrow> nat \<Rightarrow> u64" where
  "stamp a T i = word_of_nat (a + i * T)"

definition burst_dur :: "radar_detector_specs \<Rightarrow> nat \<Rightarrow> nat" where
  "burst_dur rs T = T * (unat (ppb rs) - 1) + 2 * unat (max_pri_tolerance rs)"

definition burst_seq :: "radar_detector_specs \<Rightarrow> nat \<Rightarrow> nat \<Rightarrow> nat \<Rightarrow> pri_sequence" where
  "burst_seq rs a T k =
     \<lparr>ps_pri = word_of_nat T, ps_dur = word_of_nat (burst_dur rs T), ps_count = word_of_nat k, ps_count_falses = 0,
      ps_first_ts = stamp a T 0, ps_last_ts = stamp a T (k - 1), ps_deadline_ts = word_of_nat (a + burst_dur rs T),
      ps_ppb_thresh = rs_ppb_thresh rs\<rparr>"

definition burst_state :: "radar_detector_specs \<Rightarrow> nat \<Rightarrow> nat \<Rightarrow> nat \<Rightarrow> pri_detector \<Rightarrow> bool" where
  "burst_state rs a T k pde \<longleftrightarrow> pde_rs pde = rs \<and> pulses pde = map (stamp a T) (rev [0..<k]) \<and> pde_count pde = word_of_nat k \<and>
     (0 < k \<longrightarrow> pde_last_ts pde = stamp a T (k - 1)) \<and> sequences pde = (if k \<le> 1 then [] else [burst_seq rs a T k]) \<and>
     window_size pde = window_size (pde_short_init pde) \<and> max_count pde = max_count (pde_short_init pde)"

section \<open>Time stamps of a burst\<close>

lemma word_of_nat_less: "n < 2 ^ LENGTH('a::len) \<Longrightarrow> unat (word_of_nat n :: 'a word) = n"
  by (simp add: unsigned_of_nat take_bit_nat_eq_self)

lemma ucast_word_of_nat: "LENGTH('b) \<le> LENGTH('a) \<Longrightarrow> ucast (word_of_nat n :: 'a::len word) = (word_of_nat n :: 'b::len word)"
  by (rule bit_word_eqI) (auto simp: bit_simps)

lemma ucast_up_word_of_nat:
  "n < 2 ^ LENGTH('a) \<Longrightarrow> LENGTH('a) \<le> LENGTH('b) \<Longrightarrow> ucast (word_of_nat n :: 'a::len word) = (word_of_nat n :: 'b::len word)"
  by (simp add: word_unat_eq_iff unat_ucast_wider word_of_nat_less order.strict_trans2 [OF _ power_increasing])

lemma stamp_diff: "i \<le> j \<Longrightarrow> stamp a T j - stamp a T i = word_of_nat ((j - i) * T)"
proof -
  assume "i \<le> j"
  then have "a + j * T = (j - i) * T + (a + i * T)" by (simp add: diff_mult_distrib)
  then show ?thesis by (simp only: stamp_def of_nat_add) simp
qed

lemma burst_bounds:
  assumes "burst_ok rs T" "k < unat (ppb rs)"
  shows "T < 65536" "k < 256" "k * T \<le> burst_dur rs T" "burst_dur rs T < 2 ^ 25" "k * T \<le> 65536 * 256"
proof -
  have p: "unat (ppb rs) < 256" "unat (pri_max rs) < 65536" "unat (max_pri_tolerance rs) < 256"
    using unsigned_less [of "ppb rs"] unsigned_less [of "pri_max rs"] unsigned_less [of "max_pri_tolerance rs"] by simp_all
  then show t: "T < 65536" and k: "k < 256" using assms by (auto simp: burst_ok_def)
  have "k * T \<le> (unat (ppb rs) - 1) * T" using assms(2) by (intro mult_le_mono1) simp
  then show "k * T \<le> burst_dur rs T" unfolding burst_dur_def by (metis mult.commute trans_le_add1)
  have "T * (unat (ppb rs) - 1) \<le> 65536 * 256" using t p by (intro mult_le_mono) simp_all
  then show "burst_dur rs T < 2 ^ 25" using p by (simp add: burst_dur_def)
  show "k * T \<le> 65536 * 256" using mult_le_mono [of k 256 T 65536] t k by simp
qed

section \<open>Sequences that are too short\<close>

lemma extend_past_count:
  "unat (ps_count ps) + length pls < 2 ^ 32 \<Longrightarrow>
     unat (ps_count (extend_past tol mv tmp pls ps)) \<le> unat (ps_count ps) + length pls"
proof (induction tol mv tmp pls ps rule: extend_past.induct)
  case (2 tol mv tmp p2 pls ps)
  have "unat (ps_count ps + 1) = unat (ps_count ps) + 1" using 2(3) by (simp add: unat_word_ariths)
  then show ?case using 2 by (auto split: if_splits)
qed simp

lemma new_sequence_count: "length pls < 256 \<Longrightarrow> unat (ps_count (new_sequence rs ts idx p pls)) \<le> 2 + length pls"
  using extend_past_count [where pls = pls and ps = "\<lparr>ps_pri = u, ps_dur = v, ps_count = 2, ps_count_falses = w, ps_first_ts = x,
      ps_last_ts = y, ps_deadline_ts = 0, ps_ppb_thresh = 0\<rparr>" for u v w x y]
  by (simp add: new_sequence_def Let_def)

lemma create_loop_short:
  "length pls < 256 \<Longrightarrow> 1 + length pls \<le> unat mc \<Longrightarrow> create_loop mem rs ts mc idx pls seqs P = (True, seqs, P)"
proof (induction pls arbitrary: idx)
  case (Cons p pls)
  have "ps_count (new_sequence rs ts (idx + 1) p pls) \<le> mc"
    using Cons.prems new_sequence_count [of pls rs ts "idx + 1" p] by (simp add: word_le_nat_alt)
  then show ?case using Cons by (simp add: Let_def create_loop.simps(2))
qed simp

section \<open>One pulse of the burst\<close>

lemma stamp_le_deadline:
  assumes "burst_ok rs T" "k < unat (ppb rs)" "a + 2 ^ 25 < 2 ^ 64"
  shows "stamp a T k \<le> word_of_nat (a + burst_dur rs T)"
proof -
  note b = burst_bounds [OF assms(1,2)]
  have "a + k * T < 2 ^ 64" "a + burst_dur rs T < 2 ^ 64" using b assms(3) by linarith+
  then have "unat (stamp a T k) = a + k * T" "unat (word_of_nat (a + burst_dur rs T) :: u64) = a + burst_dur rs T"
    unfolding stamp_def by (subst word_of_nat_less; simp)+
  then show ?thesis using b(3) by (simp only: word_le_nat_alt)
qed

lemma burst_interval:
  assumes "burst_ok rs T"
  shows "(word_of_nat T :: u32) \<noteq> 0" "\<not> (word_of_nat T :: u32) < ucast (pri_min rs)" "\<not> ucast (pri_max rs) < (word_of_nat T :: u32)"
    "\<not> (word_of_nat T :: u64) < ucast (max_pri_tolerance rs)"
proof -
  have "unat (pri_max rs) < 65536" using unsigned_less [of "pri_max rs"] by simp
  then have t: "T < 65536" using assms by (simp add: burst_ok_def)
  then have u: "unat (word_of_nat T :: u32) = T" "unat (word_of_nat T :: u64) = T" by (simp_all add: word_of_nat_less)
  have "0 < T" using assms by (simp add: burst_ok_def)
  then show "(word_of_nat T :: u32) \<noteq> 0" using u(1) by (metis less_nat_zero_code unat_0)
  show "\<not> (word_of_nat T :: u32) < ucast (pri_min rs)" "\<not> ucast (pri_max rs) < (word_of_nat T :: u32)"
    "\<not> (word_of_nat T :: u64) < ucast (max_pri_tolerance rs)"
    using assms u by (simp_all add: word_less_nat_alt unat_ucast_wider burst_ok_def)
qed

lemma burst_add_loop:
  assumes "burst_ok rs T" "2 \<le> k" "k < unat (ppb rs)" "a + 2 ^ 25 < 2 ^ 64"
  shows "add_loop (ucast (max_pri_tolerance rs)) (stamp a T k) 0 [burst_seq rs a T k] P =
         (word_of_nat (Suc k), [burst_seq rs a T (Suc k)], P)"
proof -
  have "ucast (stamp a T k - stamp a T (k - 1)) = (word_of_nat T :: u32)"
    using assms(2) by (simp add: stamp_diff ucast_word_of_nat)
  then have m: "pde_get_multiple (ucast (stamp a T k - stamp a T (k - 1))) (word_of_nat T) tol = 1" for tol
    using burst_interval(1) [OF assms(1)] by (simp add: pde_get_multiple_self)
  have d: "\<not> word_of_nat (a + burst_dur rs T) < stamp a T k" using stamp_le_deadline [OF assms(1,3,4)] by (simp add: not_less)
  have "Suc k < 2 ^ 32" using burst_bounds(2) [OF assms(1,3)] by simp
  then have "unat (word_of_nat (Suc k) :: u32) = Suc k" by (intro word_of_nat_less) simp
  then have "(0 :: u32) < word_of_nat (Suc k)" by (simp only: word_less_nat_alt unat_0 zero_less_Suc)
  then show ?thesis using m d by (simp add: burst_seq_def Let_def add.commute)
qed

lemma burst_new_sequence:
  assumes "burst_ok rs T"
  shows "new_sequence rs (stamp a T (Suc 0)) 1 (stamp a T 0) [] = burst_seq rs a T 2"
proof -
  have pri: "ucast (stamp a T (Suc 0) - stamp a T 0) = (word_of_nat T :: u32)" by (simp add: stamp_diff ucast_word_of_nat)
  have "1 \<le> unat (ppb rs)" using assms by (simp add: burst_ok_def)
  then have "(ucast (ppb rs) :: u32) - 1 = word_of_nat (unat (ppb rs) - 1)" by (simp add: of_nat_diff)
  then have dur: "(word_of_nat T :: u32) * (ucast (ppb rs) - 1) + 2 * ucast (max_pri_tolerance rs) = word_of_nat (burst_dur rs T)"
    by (simp add: burst_dur_def)
  have "burst_dur rs T < 2 ^ 32" using burst_bounds(4) [of rs T 0] assms \<open>1 \<le> unat (ppb rs)\<close> by simp
  then have dl: "stamp a T 0 + ucast (word_of_nat (burst_dur rs T) :: u32) = word_of_nat (a + burst_dur rs T)"
    by (simp add: stamp_def ucast_up_word_of_nat)
  show ?thesis
    using assms by (simp add: new_sequence_def Let_def pri dur dl burst_seq_def seq_thresh_def burst_ok_def)
qed

lemma mem_pulse: "\<forall>i. mem i \<noteq> None \<Longrightarrow> \<exists>P1. pool_get_pulse_elem mem P = (True, P1)"
  by (simp add: pool_get_pulse_elem_def)

lemma mem_pseq: "\<forall>i. mem i \<noteq> None \<Longrightarrow> \<exists>ps P1. pool_get_pseq_elem mem P = (Some ps, P1)"
  by (auto simp: pool_get_pseq_elem_def split: list.splits)

lemma burst_window:
  assumes "burst_ok rs T" "k < unat (ppb rs)" "pde_rs pde = rs"
  shows "k * T \<le> unat (window_size (pde_short_init pde))"
    "unat (max_count (pde_short_init pde)) = 2 * unat (ppb rs)"
proof -
  have lt: "unat (ppb rs) < 256" "unat (pri_max rs) < 65536" "unat (num_pri rs) < 256"
    using unsigned_less [of "ppb rs"] unsigned_less [of "pri_max rs"] unsigned_less [of "num_pri rs"] by simp_all
  have "unat (pri_max rs) * unat (ppb rs) \<le> 65535 * 255" using lt by (intro mult_le_mono) simp_all
  then have "unat (pri_max rs) * unat (ppb rs) * unat (num_pri rs) \<le> (65535 * 255) * 255" using lt by (intro mult_le_mono) simp_all
  then have "unat (pri_max rs) * unat (ppb rs) < 2 ^ 32" "unat (pri_max rs) * unat (ppb rs) * unat (num_pri rs) < 2 ^ 32"
    using \<open>unat (pri_max rs) * unat (ppb rs) \<le> 65535 * 255\<close> by simp_all
  then have w: "unat (window_size (pde_short_init pde)) = unat (pri_max rs) * unat (ppb rs) * unat (num_pri rs)"
    using assms(3) by (simp add: pde_short_init_def Let_def unat_word_ariths unat_ucast_wider)
  have "k * T \<le> unat (ppb rs) * unat (pri_max rs)" using assms by (intro mult_le_mono) (simp_all add: burst_ok_def)
  also have "\<dots> \<le> unat (pri_max rs) * unat (ppb rs) * unat (num_pri rs)" using assms(1) by (simp add: burst_ok_def mult.commute)
  finally show "k * T \<le> unat (window_size (pde_short_init pde))" using w by simp
  show "unat (max_count (pde_short_init pde)) = 2 * unat (ppb rs)"
    using assms(3) lt by (simp add: pde_short_init_def Let_def unat_word_ariths unat_ucast_wider)
qed

lemma burst_enqueue:
  assumes ok: "burst_ok rs T" "k < unat (ppb rs)" "a + 2 ^ 25 < 2 ^ 64" "\<forall>i. mem i \<noteq> None"
    and pde: "pde_rs pde = rs" "pulses pde = map (stamp a T) (rev [0..<k])" "pde_count pde = word_of_nat k"
      "window_size pde = window_size (pde_short_init pde)" "max_count pde = max_count (pde_short_init pde)"
  shows "\<exists>P1. pulse_queue_enqueue mem (stamp a T k) (pde, P) = (True, push_pulse (stamp a T k) pde, P1)"
proof -
  note b = burst_bounds [OF ok(1,2)] and w = burst_window [OF ok(1,2) pde(1)]
  obtain P1 where P1: "pool_get_pulse_elem mem P = (True, P1)" using mem_pulse [OF ok(4)] by blast
  let ?pde = "push_pulse (stamp a T k) pde"
  have "a + k * T < 2 ^ 64" "a < 2 ^ 64" using b(3,4) ok(3) by linarith+
  then have s: "unat (stamp a T k) = a + k * T" "unat (stamp a T 0) = a" unfolding stamp_def by (subst word_of_nat_less; simp)+
  have tail: "pulse_queue_get_tail ?pde = Some (stamp a T 0)"
    by (cases k) (simp_all add: pulse_queue_get_tail_def push_pulse_def pde(2) last_map last_rev)
  have u: "unat (ucast (window_size pde) :: u64) = unat (window_size pde)" by (rule unat_ucast_wider) simp
  have chk: "pulse_queue_check_window (?pde, P1) = (?pde, P1)"
  proof (cases "pde_count ?pde < 2 \<or> pde_last_ts ?pde \<le> ucast (window_size ?pde)")
    case True
    then show ?thesis by (simp add: pulse_queue_check_window_def)
  next
    case False
    then have "unat (window_size pde) < a + k * T" using u s by (simp add: push_pulse_def word_le_nat_alt)
    then have "unat (stamp a T k - ucast (window_size pde)) = a + k * T - unat (window_size pde)"
      using u s by (subst unat_sub) (simp_all add: word_le_nat_alt)
    then have "stamp a T k - ucast (window_size pde) \<le> stamp a T 0" using w(1) pde(4) s by (simp add: word_le_nat_alt)
    then show ?thesis
      using False by (simp add: pulse_queue_check_window_def drop_old.simps [of _ ?pde] tail) (simp add: push_pulse_def)
  qed
  have "Suc k < 2 ^ 32" using b(2) by simp
  then have "unat (word_of_nat (Suc k) :: u32) = Suc k" by (intro word_of_nat_less) simp
  then have "\<not> max_count ?pde \<le> pde_count ?pde"
    using w(2) ok(1,2) pde(3,5) by (simp add: push_pulse_def word_le_nat_alt burst_ok_def add.commute)
  then show ?thesis using P1 chk by (simp add: pulse_queue_enqueue_def push_pulse_def)
qed

text \<open>What the pulse after the first \<open>k\<close> makes of the sequences.\<close>

lemma burst_sequences:
  assumes ok: "burst_ok rs T" "k < unat (ppb rs)" "a + 2 ^ 25 < 2 ^ 64" "\<forall>i. mem i \<noteq> None" and "0 < k"
    and st: "burst_state rs a T k pde"
  shows "\<exists>P1. case pde_short_add_to_existing_seqs (stamp a T k) (pde, P) of (m, r) \<Rightarrow>
    pde_short_create_sequences mem (stamp a T k) m r = (True, pde\<lparr>sequences := [burst_seq rs a T (Suc k)]\<rparr>, P1)"
proof (cases "k = 1")
  case True
  have pde: "pde_rs pde = rs" "sequences pde = []" "pulses pde = [stamp a T 0]"
    using st True by (simp_all add: burst_state_def)
  obtain ps P1 where P1: "pool_get_pseq_elem mem P = (Some ps, P1)" using mem_pseq [OF ok(4)] by blast
  have "ucast (stamp a T (Suc 0) - stamp a T 0) = (word_of_nat T :: u32)" by (simp add: stamp_diff ucast_word_of_nat)
  then have "create_loop mem rs (stamp a T (Suc 0)) 0 0 [stamp a T 0] [] P = (True, [burst_seq rs a T 2], P1)"
    using burst_interval [OF ok(1)] burst_new_sequence [OF ok(1), of a] P1 by (simp add: Let_def burst_seq_def create_loop.simps(2))
  then show ?thesis
    using pde True by (simp add: pde_short_add_to_existing_seqs_def pde_short_create_sequences_def numeral_2_eq_2)
next
  case False
  then have k: "2 \<le> k" using assms(5) by simp
  have pde: "pde_rs pde = rs" "sequences pde = [burst_seq rs a T k]" "length (pulses pde) = k"
    using st k by (simp_all add: burst_state_def)
  have "Suc k < 2 ^ 32" "k < 256" using burst_bounds(2) [OF ok(1,2)] by simp_all
  then have "create_loop mem rs (stamp a T k) (word_of_nat (Suc k)) 0 (pulses pde) [burst_seq rs a T (Suc k)] P =
    (True, [burst_seq rs a T (Suc k)], P)"
    using pde(3) by (intro create_loop_short) (simp_all add: word_of_nat_less del: of_nat_Suc)
  then show ?thesis
    using pde burst_add_loop [OF ok(1) k ok(2,3)]
    by (simp add: pde_short_add_to_existing_seqs_def pde_short_create_sequences_def)
qed

lemma burst_complete:
  assumes "burst_ok rs T" "k < unat (ppb rs)"
  shows "seq_complete rs (burst_seq rs a T (Suc k)) \<longleftrightarrow> unat (rs_ppb_thresh rs) \<le> Suc k"
proof -
  have n: "unat (num_pri rs) < 256" "0 < unat (num_pri rs)" using unsigned_less [of "num_pri rs"] assms(1) by (simp_all add: burst_ok_def)
  have k: "k < 256" using burst_bounds(2) [OF assms] .
  then have c: "unat (word_of_nat (Suc k) :: u32) = Suc k" by (intro word_of_nat_less) simp
  have "Suc k * unat (num_pri rs) \<le> 256 * 256" using k n by (intro mult_le_mono) simp_all
  then have "unat (word_of_nat (Suc k) * ucast (num_pri rs) :: u32) = Suc k * unat (num_pri rs)"
    using c by (simp add: unat_word_ariths unat_ucast_wider del: of_nat_Suc)
  then have "(0 :: u32) < word_of_nat (Suc k) * ucast (num_pri rs)" using n by (simp add: word_less_nat_alt del: of_nat_Suc)
  then show ?thesis using c by (simp add: seq_complete_def burst_seq_def word_le_nat_alt unat_ucast_wider del: of_nat_Suc)
qed

lemma burst_first:
  assumes ok: "burst_ok rs T" "a + 2 ^ 25 < 2 ^ 64" "\<forall>i. mem i \<noteq> None" and st: "burst_state rs a T 0 pde"
  shows "\<exists>P1. pde_short_add_pulse mem (stamp a T 0) (pde, P) = (None, push_pulse (stamp a T 0) pde, P1)"
proof -
  have pde: "pde_rs pde = rs" "pulses pde = map (stamp a T) (rev [0..<0])" "pde_count pde = word_of_nat 0"
    "window_size pde = window_size (pde_short_init pde)" "max_count pde = max_count (pde_short_init pde)"
    using st by (simp_all add: burst_state_def)
  have "0 < unat (ppb rs)" using ok(1) by (simp add: burst_ok_def)
  from burst_enqueue [OF ok(1) this ok(2,3) pde, of P] pde(3) show ?thesis by (auto simp: pde_short_add_pulse_def)
qed

lemma burst_next:
  assumes ok: "burst_ok rs T" "k < unat (ppb rs)" "a + 2 ^ 25 < 2 ^ 64" "\<forall>i. mem i \<noteq> None" and "0 < k"
    and st: "burst_state rs a T k pde"
  shows "\<exists>P1. pde_short_add_pulse mem (stamp a T k) (pde, P) =
    (if unat (rs_ppb_thresh rs) \<le> Suc k then (Some (burst_seq rs a T (Suc k)), pde\<lparr>sequences := [burst_seq rs a T (Suc k)]\<rparr>, P1)
     else (None, push_pulse (stamp a T k) (pde\<lparr>sequences := [burst_seq rs a T (Suc k)]\<rparr>), P1))"
proof -
  let ?pde = "pde\<lparr>sequences := [burst_seq rs a T (Suc k)]\<rparr>"
  have pde: "pde_rs ?pde = rs" "pulses ?pde = map (stamp a T) (rev [0..<k])" "pde_count ?pde = word_of_nat k"
    "window_size ?pde = window_size (pde_short_init ?pde)" "max_count ?pde = max_count (pde_short_init ?pde)"
    using st by (simp_all add: burst_state_def pde_short_init_def Let_def)
  have "unat (word_of_nat k :: u32) = k" using burst_bounds(2) [OF ok(1,2)] by (intro word_of_nat_less) simp
  moreover have "pde_count pde = word_of_nat k" using st by (simp add: burst_state_def)
  ultimately have nz: "pde_count pde \<noteq> 0" using \<open>0 < k\<close> by (metis less_irrefl unat_0)
  have "stamp a T k - pde_last_ts pde = word_of_nat T" using st \<open>0 < k\<close> by (simp add: burst_state_def stamp_diff)
  then have far: "\<not> stamp a T k - pde_last_ts pde < ucast (max_pri_tolerance (pde_rs pde))"
    using burst_interval(4) [OF ok(1)] pde(1) by simp
  obtain P1 where s: "case pde_short_add_to_existing_seqs (stamp a T k) (pde, P) of (m, r) \<Rightarrow>
    pde_short_create_sequences mem (stamp a T k) m r = (True, ?pde, P1)"
    using burst_sequences [OF assms, of P] by (elim exE)
  obtain P2 where e: "pulse_queue_enqueue mem (stamp a T k) (?pde, P1) = (True, push_pulse (stamp a T k) ?pde, P2)"
    using burst_enqueue [OF ok pde, of P1] by (elim exE)
  have "pde_short_check_detection ?pde = (if unat (rs_ppb_thresh rs) \<le> Suc k then Some (burst_seq rs a T (Suc k)) else None)"
    using burst_complete [OF ok(1,2), of a] pde(1) by (simp add: pde_short_check_detection_def)
  then show ?thesis
    using s e nz far by (cases "unat (rs_ppb_thresh rs) \<le> Suc k") (auto simp: pde_short_add_pulse_def split: prod.splits)
qed

text \<open>
  One pulse of the burst, from any number of pulses below the threshold: it is reported exactly
  when it reaches the threshold, and otherwise the detector is in the next state of the burst.
\<close>

lemma burst_step:
  assumes ok: "burst_ok rs T" "a + 2 ^ 25 < 2 ^ 64" "\<forall>i. mem i \<noteq> None" "k < unat (rs_ppb_thresh rs)"
    and st: "burst_state rs a T k pde"
  obtains (reported) ps pde' P' where "Suc k = unat (rs_ppb_thresh rs)"
    "pde_short_add_pulse mem (stamp a T k) (pde, P) = (Some ps, pde', P')"
  | (queued) pde' P' where "Suc k < unat (rs_ppb_thresh rs)" "pde_short_add_pulse mem (stamp a T k) (pde, P) = (None, pde', P')"
    "burst_state rs a T (Suc k) pde'" "pde_freq pde' = pde_freq pde"
proof (cases "k = 0")
  case True
  have "burst_state rs a T 1 (push_pulse (stamp a T 0) pde)"
    using st True by (simp add: burst_state_def push_pulse_def pde_short_init_def Let_def)
  then show thesis
    using burst_first [OF ok(1-3), of pde P] st True queued ok(1) by (auto simp: burst_ok_def push_pulse_def)
next
  case False
  have k: "k < unat (ppb rs)" using ok(1,4) by (simp add: burst_ok_def)
  let ?pde = "push_pulse (stamp a T k) (pde\<lparr>sequences := [burst_seq rs a T (Suc k)]\<rparr>)"
  have "burst_state rs a T (Suc k) ?pde" "pde_freq ?pde = pde_freq pde"
    using st False by (simp_all add: burst_state_def push_pulse_def pde_short_init_def Let_def add.commute)
  then show thesis
    using burst_next [OF ok(1) k ok(2,3) _ st, of P] False ok(4) reported queued
    by (cases "Suc k = unat (rs_ppb_thresh rs)") auto
qed

end
