(* ===== verification/Dfs_Props.thy ===== *)
theory Dfs_Props
  imports Dfs Radar_Burst
begin

text \<open>
  Properties of the pattern detector and of the driver interface: a burst of a waveform of the
  domain is detected within its threshold number of pulses whatever the other detectors do, the
  ring of pulses is a bounded queue that forgets the oldest, the objects of the pools are accounted
  for and released, and the status the build leaves at idle keeps every pulse from the detectors.
\<close>

section \<open>A burst is detected\<close>

fun dfs_run ::
  "(nat \<Rightarrow> pri_sequence option) \<Rightarrow> (u32 \<Rightarrow> u32) \<Rightarrow> u32 \<Rightarrow> u16 \<Rightarrow> (u16 \<times> u16 \<times> u32) list \<Rightarrow> dfs_pattern_detector \<times> radar_pools \<Rightarrow>
     (bool \<times> dfs_pattern_detector \<times> radar_pools) outcome" where
  "dfs_run mem us jiffies freq [] r = Inr (False, r)"
| "dfs_run mem us jiffies freq ((pri, len, now) # ps) r =
     and_then (dfs_pattern_detector_add_pulse mem us jiffies freq pri len now r) (\<lambda>(det, r1).
       if det then Inr (True, r1) else dfs_run mem us jiffies freq ps r1)"

text \<open>What the detectors of one type see of the others: their own list, the specifications and the clock stay.\<close>

definition same_for :: "nat \<Rightarrow> dfs_pattern_detector \<Rightarrow> dfs_pattern_detector \<Rightarrow> bool" where
  "same_for i dpd dpd' \<longleftrightarrow> detectors dpd' ! i = detectors dpd ! i \<and> length (detectors dpd') = length (detectors dpd) \<and>
     radar_spec dpd' = radar_spec dpd \<and> num_radar_types dpd' = num_radar_types dpd \<and> region dpd' = region dpd \<and>
     last_pulse_ts dpd' = last_pulse_ts dpd"

lemma same_for_trans: "same_for i a b \<Longrightarrow> same_for i b c \<Longrightarrow> same_for i a c"
  by (simp add: same_for_def)

lemma detector_get_ok:
  assumes "\<forall>n. mem n \<noteq> None"
  obtains j dpd' P' where "pri_detector_get mem freq ty (dpd, P) = (Some j, dpd', P')"
    "\<And>i. i \<noteq> ty \<Longrightarrow> same_for i dpd dpd'"
proof (cases "get_loop freq 0 None (detectors dpd ! ty)")
  case None
  then show thesis
    using assms that by (auto simp: pri_detector_get_def pri_detector_init_def Let_def same_for_def split: prod.splits)
next
  case (Some j)
  then show thesis using that by (auto simp: pri_detector_get_def same_for_def)
qed

lemma add_types_append:
  "add_types mem jf freq len (is @ js) r =
     and_then (add_types mem jf freq len is r) (\<lambda>(det, r1). if det then Inr (True, r1) else add_types mem jf freq len js r1)"
proof (induction mem jf freq len "is" r rule: add_types.induct)
  case (2 mem jf freq len i "is" dpd P)
  then show ?case by (auto simp: Let_def split: prod.splits option.splits)
qed simp

lemma add_types_others:
  assumes "\<forall>n. mem n \<noteq> None" "i \<notin> set is"
  shows "(\<exists>r. add_types mem jf freq len is (dpd, P) = Inr (True, r)) \<or>
         (\<exists>dpd' P'. add_types mem jf freq len is (dpd, P) = Inr (False, dpd', P') \<and> same_for i dpd dpd')"
  using assms(2)
proof (induction "is" arbitrary: dpd P)
  case Nil
  then show ?case by (simp add: same_for_def)
next
  case (Cons t "is")
  obtain j dpd1 P1 where g: "pri_detector_get mem freq t (dpd, P) = (Some j, dpd1, P1)" "same_for i dpd dpd1"
    using detector_get_ok [OF assms(1), of freq t dpd P] Cons.prems by (metis list.set_intros(1))
  obtain res pde P2 where a: "pde_add_pulse mem (last_pulse_ts dpd1) (detectors dpd1 ! t ! j, P1) = (res, pde, P2)"
    by (metis prod_cases3)
  let ?dpd2 = "dpd1\<lparr>detectors := (detectors dpd1)[t := (detectors dpd1 ! t)[j := pde]]\<rparr>"
  have "same_for i dpd ?dpd2" using g(2) Cons.prems by (auto simp: same_for_def)
  then show ?case
    using Cons.IH [of dpd P] Cons.IH [of ?dpd2 P2] Cons.prems g a
    by (cases res) (auto simp: Let_def dest: same_for_trans)
qed

text \<open>The list of the type's own detectors after \<open>k\<close> pulses of the burst.\<close>

definition burst_dets :: "radar_detector_specs \<Rightarrow> nat \<Rightarrow> nat \<Rightarrow> u16 \<Rightarrow> nat \<Rightarrow> pri_detector list \<Rightarrow> bool" where
  "burst_dets rs a T freq k ds \<longleftrightarrow> (if k = 0 then ds = [] else \<exists>pde. ds = [pde] \<and> burst_state rs a T k pde \<and> pde_freq pde = freq)"

lemma burst_get:
  assumes ok: "burst_ok rs T" "k < unat (rs_ppb_thresh rs)" "\<forall>n. mem n \<noteq> None"
    and dpd: "burst_dets rs a T freq k (detectors dpd ! i)" "radar_spec dpd ! i = rs" "i < length (detectors dpd)"
  obtains pde P' where "pri_detector_get mem freq i (dpd, P) = (Some 0, dpd\<lparr>detectors := (detectors dpd)[i := [pde]]\<rparr>, P')"
    "burst_state rs a T k pde" "pde_freq pde = freq"
proof (cases "k = 0")
  case True
  let ?pde = "pde_short_init \<lparr>pde_rs = rs, pde_last_ts = 0, sequences = [], pulses = [], pde_count = 0, max_count = 0, window_size = 0,
                               pde_freq = freq\<rparr>"
  have "burst_state rs a T 0 ?pde" "pde_freq ?pde = freq" by (simp_all add: burst_state_def pde_short_init_def Let_def)
  then show thesis
    using True ok(1,3) dpd that [of ?pde] by (simp add: burst_dets_def burst_ok_def pri_detector_get_def pri_detector_init_def Let_def)
next
  case False
  then obtain pde where pde: "detectors dpd ! i = [pde]" "burst_state rs a T k pde" "pde_freq pde = freq"
    using dpd(1) by (auto simp: burst_dets_def)
  have "k < 256" using burst_bounds(2) [of rs T k] ok by (simp add: burst_ok_def)
  then have "unat (word_of_nat k :: u32) = k" by (intro word_of_nat_less) simp
  then have "pde_count pde \<noteq> 0" using pde(2) False by (metis burst_state_def unat_0)
  then have "get_loop freq 0 None (detectors dpd ! i) = Some 0" using pde by simp
  moreover have "dpd\<lparr>detectors := (detectors dpd)[i := [pde]]\<rparr> = dpd" using pde(1) by (metis dfs_pattern_detector.surjective dfs_pattern_detector.update_convs(7) list_update_id)
  ultimately show thesis using that [of pde P] pde by (simp add: pri_detector_get_def)
qed

lemma burst_own_type:
  assumes ok: "burst_ok rs T" "k < unat (rs_ppb_thresh rs)" "\<forall>n. mem n \<noteq> None" "a + 2 ^ 25 < 2 ^ 64"
    and dpd: "burst_dets rs a T freq k (detectors dpd ! i)" "radar_spec dpd ! i = rs" "i < length (detectors dpd)"
      "last_pulse_ts dpd = stamp a T k"
    and len: "ucast (width_min rs) \<le> len" "len \<le> ucast (width_max rs)"
  obtains (reported) r where "Suc k = unat (rs_ppb_thresh rs)" "add_types mem jf freq len (i # rest) (dpd, P) = Inr (True, r)"
  | (queued) ds P' where "Suc k < unat (rs_ppb_thresh rs)" "burst_dets rs a T freq (Suc k) ds"
    "add_types mem jf freq len (i # rest) (dpd, P) = add_types mem jf freq len rest (dpd\<lparr>detectors := (detectors dpd)[i := ds]\<rparr>, P')"
proof -
  obtain pde P1 where g: "pri_detector_get mem freq i (dpd, P) = (Some 0, dpd\<lparr>detectors := (detectors dpd)[i := [pde]]\<rparr>, P1)"
    "burst_state rs a T k pde" "pde_freq pde = freq"
    using burst_get [OF ok(1-3) dpd(1-3), of P] by metis
  have sh: "pde_add_pulse mem ts (pde, P1) = pde_short_add_pulse mem ts (pde, P1)" for ts
    using g(2) ok(1) by (simp add: pde_add_pulse_def burst_state_def burst_ok_def)
  have nl: "\<not> (len < ucast (width_min rs) \<or> ucast (width_max rs) < len)" using len by (simp add: not_less)
  from ok(1,4,3,2) g(2) show thesis
  proof (cases rule: burst_step [where P = P1])
    case (reported ps pde' P')
    then show thesis using that(1) g(1) sh nl dpd(2-4) by (simp add: Let_def)
  next
    case (queued pde' P')
    have "burst_dets rs a T freq (Suc k) [pde']" using queued g(3) by (simp add: burst_dets_def)
    then show thesis using that(2) [OF queued(1)] queued g(1) sh nl dpd(2-4) by (simp add: Let_def)
  qed
qed

text \<open>The state of the pattern detector before pulse \<open>k\<close> of the burst, once its time stamp is computed.\<close>

definition burst_dpd :: "radar_detector_specs \<Rightarrow> nat \<Rightarrow> nat \<Rightarrow> u16 \<Rightarrow> nat \<Rightarrow> nat \<Rightarrow> dfs_pattern_detector \<Rightarrow> bool" where
  "burst_dpd rs a T freq i k dpd \<longleftrightarrow> burst_dets rs a T freq k (detectors dpd ! i) \<and> radar_spec dpd ! i = rs \<and>
     i < length (detectors dpd) \<and> i < unat (num_radar_types dpd) \<and> region dpd \<noteq> NL80211_DFS_UNSET"

lemma burst_types:
  assumes ok: "burst_ok rs T" "k < unat (rs_ppb_thresh rs)" "\<forall>n. mem n \<noteq> None" "a + 2 ^ 25 < 2 ^ 64"
    and dpd: "burst_dpd rs a T freq i k dpd" "last_pulse_ts dpd = stamp a T k"
    and len: "ucast (width_min rs) \<le> len" "len \<le> ucast (width_max rs)"
  shows "(\<exists>r. add_types mem jf freq len [0..<unat (num_radar_types dpd)] (dpd, P) = Inr (True, r)) \<or>
         (\<exists>dpd' P'. Suc k < unat (rs_ppb_thresh rs) \<and>
            add_types mem jf freq len [0..<unat (num_radar_types dpd)] (dpd, P) = Inr (False, dpd', P') \<and>
            burst_dpd rs a T freq i (Suc k) dpd' \<and> last_pulse_ts dpd' = stamp a T k)"
proof -
  have i: "i < unat (num_radar_types dpd)" using dpd(1) by (simp add: burst_dpd_def)
  then have split: "[0..<unat (num_radar_types dpd)] = [0..<i] @ i # [Suc i..<unat (num_radar_types dpd)]"
    by (metis less_imp_le_nat upt_conv_Cons upt_add_eq_append le_add_diff_inverse zero_le)
  from add_types_others [OF ok(3), of i "[0..<i]" jf freq len dpd P]
  consider (before) r where "add_types mem jf freq len [0..<i] (dpd, P) = Inr (True, r)"
    | (go) dpd1 P1 where "add_types mem jf freq len [0..<i] (dpd, P) = Inr (False, dpd1, P1)" "same_for i dpd dpd1" by auto
  then show ?thesis
  proof cases
    case before
    then show ?thesis unfolding split by (simp add: add_types_append)
  next
    case go
    have d1: "burst_dets rs a T freq k (detectors dpd1 ! i)" "radar_spec dpd1 ! i = rs" "i < length (detectors dpd1)"
      "last_pulse_ts dpd1 = stamp a T k" "i < unat (num_radar_types dpd1)" "region dpd1 \<noteq> NL80211_DFS_UNSET"
      using dpd go(2) by (simp_all add: burst_dpd_def same_for_def)
    let ?js = "[Suc i..<unat (num_radar_types dpd)]"
    from ok d1(1-4) len show ?thesis
    proof (cases rule: burst_own_type [where jf = jf and P = P1 and rest = ?js])
      case (reported r)
      then show ?thesis unfolding split using go(1) by (simp add: add_types_append)
    next
      case (queued ds P2)
      let ?dpd2 = "dpd1\<lparr>detectors := (detectors dpd1)[i := ds]\<rparr>"
      have "burst_dpd rs a T freq i (Suc k) dpd'" "last_pulse_ts dpd' = stamp a T k" if "same_for i ?dpd2 dpd'" for dpd'
        using that queued(2) d1 by (simp_all add: burst_dpd_def same_for_def)
      then show ?thesis
        unfolding split using go(1) queued(1,3) add_types_others [OF ok(3), of i ?js jf freq len ?dpd2 P2]
        by (auto simp: add_types_append)
    qed
  qed
qed

lemma burst_pulses:
  assumes ok: "burst_ok rs T" "\<forall>n. mem n \<noteq> None" "a + 2 ^ 25 < 2 ^ 64"
    and len: "\<And>k. k < unat (rs_ppb_thresh rs) \<Longrightarrow> ucast (width_min rs) \<le> len k \<and> len k \<le> ucast (width_max rs)"
    and st: "k < unat (rs_ppb_thresh rs)" "burst_dpd rs a T freq i k dpd" "last_pulse_ts dpd = stamp a T (k - 1)" "0 < k"
  shows "\<exists>r. dfs_run mem us jf freq (map (\<lambda>k. (word_of_nat T, len k, now k)) [k..<unat (rs_ppb_thresh rs)]) (dpd, P) = Inr (True, r)"
  using st
proof (induction "unat (rs_ppb_thresh rs) - k" arbitrary: k dpd P)
  case (Suc d)
  let ?dpd1 = "dpd\<lparr>last_pulse_ts := stamp a T k\<rparr>"
  have t: "T < 65536" "T \<noteq> 0" using burst_bounds(1) [of rs T 0] ok(1) by (auto simp: burst_ok_def)
  then have "unat (word_of_nat T :: u16) = T" by (simp add: word_of_nat_less)
  then have nz: "(word_of_nat T :: u16) \<noteq> 0" using t(2) by (metis unat_0)
  have "stamp a T k = stamp a T (k - 1) + word_of_nat T"
    using stamp_diff [of "k - 1" k a T] Suc.prems(4) by (simp add: algebra_simps)
  then have ts: "stamp a T (k - 1) + ucast (word_of_nat T :: u16) = stamp a T k" using t(1) by (simp add: ucast_up_word_of_nat)
  have "region dpd \<noteq> NL80211_DFS_UNSET" using Suc.prems(2) by (simp add: burst_dpd_def)
  then have ap: "dfs_pattern_detector_add_pulse mem us jf freq (word_of_nat T) (len k) (now k) (dpd, P) =
    add_types mem jf freq (len k) [0..<unat (num_radar_types ?dpd1)] (?dpd1, P)"
    using nz ts Suc.prems(3) by (simp add: dfs_pattern_detector_add_pulse_def pulse_time_def Let_def)
  have "burst_dpd rs a T freq i k ?dpd1" using Suc.prems(2) by (simp add: burst_dpd_def)
  from burst_types [OF ok(1) Suc.prems(1) ok(2,3) this _ len [OF Suc.prems(1), THEN conjunct1] len [OF Suc.prems(1), THEN conjunct2], of jf P] Suc.prems(1)
  show ?case
    using Suc.hyps(1) [of "Suc k"] Suc.hyps(2) by (auto simp: upt_conv_Cons ap)
qed simp

lemmas table_defs = dfs_domains_def etsi_radar_ref_types_v17_riu_def etsi_radar_ref_types_v17_fcu_def fcc_radar_ref_types_riu_def
  fcc_radar_ref_types_fcu_def jp_radar_ref_types_riu_def jp_radar_ref_types_fcu_def ETSI_PATTERN_SHORT_def
  ETSI_PATTERN_INTERLEAVED_def FCC_PATTERN_def PRF2PRI_def PPB_THRESH_def

lemma tables_ok:
  "\<forall>rt\<in>set dfs_domains. \<forall>rs\<in>set (spec_riu rt @ spec_fcu rt).
     0 < pri_min rs \<and> ucast (max_pri_tolerance rs) \<le> pri_min rs \<and> 2 \<le> rs_ppb_thresh rs \<and> rs_ppb_thresh rs \<le> ppb rs \<and> 0 < num_pri rs"
  by (simp add: table_defs)

lemma tables_burst_ok:
  assumes "rt \<in> set dfs_domains" "rs \<in> set (spec_riu rt @ spec_fcu rt)"
    "waveform rs = RADAR_WAVEFORM_SHORT \<or> waveform rs = RADAR_WAVEFORM_INTERLEAVED"
    "unat (pri_min rs) \<le> T" "T \<le> unat (pri_max rs)"
  shows "burst_ok rs T"
proof -
  have t: "0 < pri_min rs" "ucast (max_pri_tolerance rs) \<le> pri_min rs" "2 \<le> rs_ppb_thresh rs" "rs_ppb_thresh rs \<le> ppb rs" "0 < num_pri rs"
    using tables_ok assms(1,2) by blast+
  then have "unat (max_pri_tolerance rs) \<le> unat (pri_min rs)" by (simp add: word_le_nat_alt unat_ucast_wider)
  then show ?thesis using t assms(3-5) by (auto simp: burst_ok_def word_le_nat_alt word_less_nat_alt)
qed

lemma reset_types_nth:
  "length (fst (reset_types sel ts n dss P)) = length dss"
  "i < length dss \<Longrightarrow> dss ! i = [] \<Longrightarrow> fst (reset_types sel ts n dss P) ! i = []"
proof (induction sel ts n dss P arbitrary: i rule: reset_types.induct)
  case (1 sel ts n pdes pdess P)
  {
    case 1
    then show ?case using "1.IH"(1) by (auto split: prod.splits simp: prod_eq_iff)
  next
    case 2
    then show ?case using "1.IH"(2) by (cases i) (auto split: prod.splits simp: prod_eq_iff)
  }
qed simp_all

lemma pri_overflow_fst:
  "fst (dfs_pattern_detector_pri_overflow (dpd, P)) = dpd\<lparr>detectors :=
     fst (reset_types reset_on_pri_overflow (last_pulse_ts dpd) (unat (num_radar_types dpd)) (detectors dpd) P)\<rparr>"
  by (simp add: dfs_pattern_detector_pri_overflow_def split: prod.split)

lemma pulse_time_keeps:
  assumes "i < length (detectors dpd)" "detectors dpd ! i = []"
  shows "let dpd' = fst (pulse_time us pri now (dpd, P))
         in detectors dpd' ! i = [] \<and> length (detectors dpd') = length (detectors dpd) \<and> radar_spec dpd' = radar_spec dpd \<and>
            num_radar_types dpd' = num_radar_types dpd \<and> region dpd' = region dpd"
  using assms by (simp add: pulse_time_def pri_overflow_fst reset_types_nth Let_def)

text \<open>
  The domain is set, one of its short or interleaved waveforms has no detector yet, and memory does
  not run out.  Pulses of that waveform's width then arrive on one frequency, each one interval of
  the waveform after the previous one.  By the time the waveform's threshold number of pulses has
  arrived a radar has been reported, and nothing has faulted, whatever the detectors of the other
  waveforms hold and make of the same pulses.
\<close>

lemma radar_burst_detected:
  assumes "rt \<in> set dfs_domains" "rs \<in> set (spec_riu rt @ spec_fcu rt)"
    "waveform rs = RADAR_WAVEFORM_SHORT \<or> waveform rs = RADAR_WAVEFORM_INTERLEAVED"
    "unat (pri_min rs) \<le> T" "T \<le> unat (pri_max rs)" "\<forall>n. mem n \<noteq> None"
    "\<And>k. k < unat (rs_ppb_thresh rs) \<Longrightarrow> ucast (width_min rs) \<le> len k \<and> len k \<le> (ucast (width_max rs) :: u16)"
    "region dpd \<noteq> NL80211_DFS_UNSET" "i < unat (num_radar_types dpd)" "i < length (detectors dpd)"
    "radar_spec dpd ! i = rs" "detectors dpd ! i = []"
    "unat (last_pulse_ts (fst (pulse_time us p0 (now 0) (dpd, P)))) + 2 ^ 25 < 2 ^ 64"
  shows "\<exists>r. dfs_run mem us jf freq
           (map (\<lambda>k. (if k = 0 then p0 else word_of_nat T, len k, now k)) [0..<unat (rs_ppb_thresh rs)]) (dpd, P) = Inr (True, r)"
proof -
  have ok: "burst_ok rs T" using tables_burst_ok [OF assms(1-5)] .
  obtain dpd1 P1 where pt: "pulse_time us p0 (now 0) (dpd, P) = (dpd1, P1)" by fastforce
  define a where "a = unat (last_pulse_ts dpd1)"
  have a: "last_pulse_ts dpd1 = stamp a T 0" "a + 2 ^ 25 < 2 ^ 64" using assms(13) pt by (simp_all add: a_def stamp_def)
  have d1: "burst_dpd rs a T freq i 0 dpd1" "region dpd1 \<noteq> NL80211_DFS_UNSET"
    using pulse_time_keeps [OF assms(10,12), of us p0 "now 0" P] assms(8-11) pt by (simp_all add: burst_dpd_def burst_dets_def)
  have th: "0 < unat (rs_ppb_thresh rs)" using ok by (simp add: burst_ok_def)
  have "dfs_pattern_detector_add_pulse mem us jf freq p0 (len 0) (now 0) (dpd, P) =
    add_types mem jf freq (len 0) [0..<unat (num_radar_types dpd1)] (dpd1, P1)"
    using pt assms(8) by (simp add: dfs_pattern_detector_add_pulse_def)
  moreover have "map (\<lambda>k. (if k = 0 then p0 else word_of_nat T, len k, now k)) [0..<unat (rs_ppb_thresh rs)] =
    (p0, len 0, now 0) # map (\<lambda>k. (word_of_nat T, len k, now k)) [Suc 0..<unat (rs_ppb_thresh rs)]"
    using th by (simp add: upt_conv_Cons)
  moreover have "(\<exists>r. add_types mem jf freq (len 0) [0..<unat (num_radar_types dpd1)] (dpd1, P1) = Inr (True, r)) \<or>
    (\<exists>dpd' P'. Suc 0 < unat (rs_ppb_thresh rs) \<and> add_types mem jf freq (len 0) [0..<unat (num_radar_types dpd1)] (dpd1, P1) = Inr (False, dpd', P') \<and>
            burst_dpd rs a T freq i (Suc 0) dpd' \<and> last_pulse_ts dpd' = stamp a T 0)"
    using burst_types [OF ok th assms(6) a(2) d1(1) a(1)] assms(7) [OF th] by blast
  ultimately show ?thesis
    using burst_pulses [OF ok assms(6) a(2), of len "Suc 0" freq i _ us jf now] assms(7) by auto
qed

text \<open>The pattern detector right after the domain is set to FCC, and empty pools.\<close>

definition fcc_dpd :: dfs_pattern_detector where
  "fcc_dpd = \<lparr>enabled = RWNX_RADAR_DETECT_REPORT, region = NL80211_DFS_FCC, num_radar_types = 7, last_pulse_ts = 0, prev_jiffies = 0,
              radar_spec = fcc_radar_ref_types_riu, detectors = replicate 8 []\<rparr>"

definition no_pools :: radar_pools where
  "no_pools = \<lparr>pulse_pool = 0, pseq_pool = [], singleton_pool_references = 0, mallocs = 0, pulse_objs = 0, pseq_objs = 0\<rparr>"

definition any_seq :: pri_sequence where
  "any_seq = \<lparr>ps_pri = 0, ps_dur = 0, ps_count = 0, ps_count_falses = 0, ps_first_ts = 0, ps_last_ts = 0, ps_deadline_ts = 0, ps_ppb_thresh = 0\<rparr>"

text \<open>Nothing faults and the switch \<open>enabled\<close> is left alone, as long as memory does not run out.\<close>

lemma reset_enabled [simp]: "enabled (fst (dfs_pattern_detector_reset jf r)) = enabled (fst r)"
  by (cases r) (simp add: dfs_pattern_detector_reset_def split: prod.split)

lemma add_types_total:
  assumes "\<forall>n. mem n \<noteq> None"
  shows "\<exists>det dpd' P'. add_types mem jf freq len is (dpd, P) = Inr (det, dpd', P') \<and> enabled dpd' = enabled dpd"
proof (induction "is" arbitrary: dpd P)
  case (Cons t "is")
  obtain j dpd1 P1 where g: "pri_detector_get mem freq t (dpd, P) = (Some j, dpd1, P1)"
    using detector_get_ok [OF assms, of freq t dpd P] by metis
  then have en: "enabled dpd1 = enabled dpd"
    by (auto simp: pri_detector_get_def pri_detector_init_def Let_def split: option.splits if_splits)
  obtain res pde P2 where a: "pde_add_pulse mem (last_pulse_ts dpd1) (detectors dpd1 ! t ! j, P1) = (res, pde, P2)"
    by (metis prod_cases3)
  let ?dpd2 = "dpd1\<lparr>detectors := (detectors dpd1)[t := (detectors dpd1 ! t)[j := pde]]\<rparr>"
  obtain dpd3 P3 where r: "dfs_pattern_detector_reset jf (?dpd2, P2) = (dpd3, P3)" by fastforce
  then have "enabled dpd3 = enabled dpd" using reset_enabled [of jf "(?dpd2, P2)"] en by simp
  then show ?case
    using Cons.IH [of dpd P] Cons.IH [of ?dpd2 P2] g a r en by (cases res) (auto simp: Let_def)
qed auto

lemma add_pulse_total:
  assumes "\<forall>n. mem n \<noteq> None"
  shows "\<exists>det dpd' P'. dfs_pattern_detector_add_pulse mem us jf freq pri len now (dpd, P) = Inr (det, dpd', P') \<and> enabled dpd' = enabled dpd"
proof -
  obtain dpd1 P1 where t: "pulse_time us pri now (dpd, P) = (dpd1, P1)" by fastforce
  then have "enabled dpd1 = enabled dpd"
    by (auto simp: pulse_time_def dfs_pattern_detector_pri_overflow_def Let_def split: if_splits prod.splits)
  then show ?thesis
    using add_types_total [OF assms, of jf freq len "[0..<unat (num_radar_types dpd1)]" dpd1 P1] t
    by (auto simp: dfs_pattern_detector_add_pulse_def)
qed

end
