(* ===== verification/Dfs_Sys.thy ===== *)
theory Dfs_Sys
  imports Dfs_Mem Dfs_Props
begin

text \<open>
  The radar detection of the driver as a system of steps: the message handler, the two work items,
  the configuration calls and the station and CAC messages that change the status, in any order.
  The ring of pulses refines a bounded queue; the pools are balanced in every reachable state and
  released at the end; with the status changes compiled out no pulse reaches a detector.
\<close>

section \<open>The ring of pulses\<close>

definition ring_ok :: "rwnx_radar_pulses \<Rightarrow> bool" where
  "ring_ok p \<longleftrightarrow> length (rp_buffer p) = RWNX_RADAR_PULSE_MAX \<and> rp_index p < RWNX_RADAR_PULSE_MAX \<and> rp_count p \<le> RWNX_RADAR_PULSE_MAX"

text \<open>The newest \<open>n\<close> elements of a list.\<close>

definition newest :: "nat \<Rightarrow> 'a list \<Rightarrow> 'a list" where
  "newest n xs = drop (length xs - n) xs"

lemma newest_snoc: "newest n (newest n xs @ ys) = newest n (xs @ ys)"
proof -
  have "drop (length (drop (length xs - n) xs @ ys) - n) (drop (length xs - n) xs @ ys) = drop (length (xs @ ys) - n) (xs @ ys)"
    by (cases "length xs \<le> n") (auto simp: add.commute)
  then show ?thesis by (simp add: newest_def)
qed

text \<open>The buffer position of the \<open>k\<close>-th oldest pulse.\<close>

definition ring_pos :: "rwnx_radar_pulses \<Rightarrow> nat \<Rightarrow> nat" where
  "ring_pos p k = (let s = rp_index p + (32 - rp_count p) + k in if s < 32 then s else s - 32)"

lemma ring_copy_nth:
  assumes "ring_ok p"
  shows "length (ring_copy p) = rp_count p" "k < rp_count p \<Longrightarrow> ring_copy p ! k = rp_buffer p ! ring_pos p k"
proof -
  have b: "length (rp_buffer p) = 32" "rp_index p < 32" "rp_count p \<le> 32" using assms by (simp_all add: ring_ok_def)
  show "length (ring_copy p) = rp_count p" using b by (simp add: ring_copy_def Let_def)
  assume k: "k < rp_count p"
  define start where "start = (if rp_index p < rp_count p then rp_index p + 32 - rp_count p else rp_index p - rp_count p)"
  have st: "start + rp_count p \<le> 64" "start < 32 \<or> rp_count p = 0"
    using b unfolding start_def by (auto split: if_splits)
  have pos: "ring_pos p k = (if start + k < 32 then start + k else start + k - 32)"
    using b k unfolding start_def ring_pos_def Let_def by (cases "rp_index p < rp_count p") (simp, simp, linarith)
  have rc: "ring_copy p = (if rp_count p = 0 then [] else if start + rp_count p > 32
      then take (32 - start) (drop start (rp_buffer p)) @ take (rp_count p - (32 - start)) (rp_buffer p)
      else take (rp_count p) (drop start (rp_buffer p)))"
    by (simp only: ring_copy_def Let_def start_def RWNX_RADAR_PULSE_MAX_def)
  show "ring_copy p ! k = rp_buffer p ! ring_pos p k"
  proof (cases "start + rp_count p > 32")
    case True
    then have "ring_copy p = take (32 - start) (drop start (rp_buffer p)) @ take (rp_count p - (32 - start)) (rp_buffer p)"
      using k rc by simp
    then show ?thesis using b k st True pos by (simp add: nth_append) (auto simp: add.commute)
  next
    case False
    then have "ring_copy p = take (rp_count p) (drop start (rp_buffer p))"
      using k rc by simp
    then show ?thesis using b k st False pos by simp
  qed
qed

lemma ring_put_ok: "ring_ok p \<Longrightarrow> ring_ok (ring_put w p)"
  by (simp add: ring_ok_def ring_put_def)

lemma ring_put_pos:
  assumes "ring_ok p" "k < rp_count (ring_put w p)"
  shows "ring_pos (ring_put w p) k = (if rp_count p < 32 then if k = rp_count p then rp_index p else ring_pos p k
                                      else if k = 31 then rp_index p else ring_pos p (Suc k))"
    "rp_count p < 32 \<Longrightarrow> k < rp_count p \<Longrightarrow> ring_pos p k \<noteq> rp_index p" "rp_count p = 32 \<Longrightarrow> k < 31 \<Longrightarrow> ring_pos p (Suc k) \<noteq> rp_index p"
proof -
  have b: "rp_index p < 32" "rp_count p \<le> 32" using assms(1) by (simp_all add: ring_ok_def)
  have m: "(rp_index p + 1) mod 32 = (if rp_index p = 31 then 0 else rp_index p + 1)" using b(1) by auto
  show "ring_pos (ring_put w p) k = (if rp_count p < 32 then if k = rp_count p then rp_index p else ring_pos p k
                                      else if k = 31 then rp_index p else ring_pos p (Suc k))"
    using b assms(2) m by (cases "rp_count p < 32"; cases "rp_index p = 31") (simp_all add: ring_pos_def ring_put_def Let_def, linarith+)
  show "rp_count p < 32 \<Longrightarrow> k < rp_count p \<Longrightarrow> ring_pos p k \<noteq> rp_index p"
    using b unfolding ring_pos_def Let_def by (simp split: if_split) linarith
  show "rp_count p = 32 \<Longrightarrow> k < 31 \<Longrightarrow> ring_pos p (Suc k) \<noteq> rp_index p"
    using b unfolding ring_pos_def Let_def by (simp split: if_split) linarith
qed

lemma ring_copy_put:
  assumes "ring_ok p"
  shows "ring_copy (ring_put w p) = newest 32 (ring_copy p @ [w])"
proof (rule nth_equalityI)
  let ?q = "ring_put w p"
  have b: "length (rp_buffer p) = 32" "rp_index p < 32" "rp_count p \<le> 32" using assms by (simp_all add: ring_ok_def)
  note c = ring_copy_nth [OF assms] and q = ring_copy_nth [OF ring_put_ok [OF assms, of w]]
  have n: "length (newest 32 (ring_copy p @ [w])) = rp_count ?q" using b c(1) by (simp add: newest_def ring_put_def)
  then show "length (ring_copy ?q) = length (newest 32 (ring_copy p @ [w]))" using q(1) by simp
  fix k
  assume "k < length (ring_copy ?q)"
  then have k: "k < rp_count ?q" using q(1) by simp
  have "ring_copy ?q ! k = rp_buffer ?q ! ring_pos ?q k" using q(2) k by simp
  also have "\<dots> = newest 32 (ring_copy p @ [w]) ! k"
  proof (cases "rp_count p < 32")
    case True
    have "k < Suc (rp_count p)" using k True by (simp add: ring_put_def)
    then show ?thesis
      using ring_put_pos [OF assms k] True b c
      by (cases "k = rp_count p") (simp_all add: newest_def nth_append, simp_all add: ring_put_def nth_list_update)
  next
    case False
    then have full: "rp_count p = 32" using b by simp
    then have "k < 32" using k by (simp add: ring_put_def)
    then show ?thesis
      using ring_put_pos [OF assms k] full b c
      by (cases "k = 31") (simp_all add: newest_def nth_append, simp_all add: ring_put_def nth_list_update)
  qed
  finally show "ring_copy ?q ! k = newest 32 (ring_copy p @ [w]) ! k" .
qed

lemma ring_copy_puts:
  "ring_ok p \<Longrightarrow> ring_copy (fold ring_put ws p) = newest 32 (ring_copy p @ ws) \<and> ring_ok (fold ring_put ws p)"
proof (induction ws arbitrary: p)
  case Nil
  then have "length (ring_copy p) \<le> 32" by (simp add: ring_copy_nth ring_ok_def)
  then show ?case using Nil by (simp add: newest_def)
next
  case (Cons w ws)
  then show ?case using Cons.IH [OF ring_put_ok] by (simp add: ring_copy_put newest_snoc)
qed

section \<open>The system\<close>

definition zero_pulses :: rwnx_radar_pulses where
  "zero_pulses = \<lparr>rp_index = 0, rp_count = 0, rp_buffer = replicate RWNX_RADAR_PULSE_MAX 0\<rparr>"

definition zero_detected :: rwnx_radar_detected where
  "zero_detected = \<lparr>rd_index = 0, rd_count = 0, rd_time = replicate NX_NB_RADAR_DETECTED 0, rd_freq = replicate NX_NB_RADAR_DETECTED 0\<rparr>"

text \<open>The zeroed structure before \<open>rwnx_radar_detection_init\<close>, and the pools of a freshly loaded module.\<close>

definition radar_boot :: rwnx_radar where
  "radar_boot = \<lparr>r_pulses = [zero_pulses, zero_pulses], r_dpd = [None, None], r_detected = [zero_detected, zero_detected],
     r_rmem = RM_NULL, r_status = RWNX_RADAR_IDLE, r_sta_num = 0, detection_work = False, cac_work = False, cac_vif = None,
     r_pools = no_pools, r_events = []\<rparr>"

inductive radar_step :: "bool \<Rightarrow> rwnx_radar \<Rightarrow> rwnx_radar \<Rightarrow> bool" for ir where
  rs_init: "r_dpd r = [None, None] \<Longrightarrow> r_rmem r = RM_NULL \<Longrightarrow> radar_step ir r (snd (rwnx_radar_detection_init e r))"
| rs_detect_ind: "rwnx_radar_detect_ind d r = Inr (ret, r') \<Longrightarrow> radar_step ir r r'"
| rs_work: "detection_work r \<Longrightarrow> e_ir_detect e = ir \<Longrightarrow> rwnx_radar_process_pulse e r = Inr r' \<Longrightarrow> radar_step ir r r'"
| rs_domain: "rwnx_radar_set_domain reg r = Inr (ok, r') \<Longrightarrow> radar_step ir r r'"
| rs_enable: "rwnx_radar_detection_enable v c r = Inr r' \<Longrightarrow> radar_step ir r r'"
| rs_cur_channel: "rwnx_radar_detection_enable_on_cur_channel e flag r = Inr r' \<Longrightarrow> radar_step ir r r'"
| rs_start_req: "e_ir_detect e = ir \<Longrightarrow> radar_step ir r (rwnx_send_apm_start_cac_req e r)"
| rs_start_cac: "radar_step ir r (rwnx_radar_start_cac v r)"
| rs_cancel_cac: "e_ir_detect e = ir \<Longrightarrow> radar_step ir r (rwnx_radar_cancel_cac e r)"
| rs_cac_work: "cac_work r \<Longrightarrow> e_ir_detect e = ir \<Longrightarrow> radar_step ir r (rwnx_radar_cac_work e r)"
| rs_sta_add: "e_ir_detect e = ir \<Longrightarrow> radar_step ir r (radar_sta_add e r)"
| rs_sta_del: "e_ir_detect e = ir \<Longrightarrow> radar_step ir r (radar_sta_del e r)"
| rs_deinit: "radar_step ir r (rwnx_radar_detection_deinit r)"

inductive_cases radar_stepE: "radar_step ir r r'"

subsection \<open>Memory\<close>

definition ot :: "(pri_detector \<Rightarrow> nat) \<Rightarrow> dfs_pattern_detector option \<Rightarrow> nat" where
  "ot f d = (case d of None \<Rightarrow> 0 | Some dpd \<Rightarrow> tot f dpd)"

definition owf :: "dfs_pattern_detector option \<Rightarrow> bool" where
  "owf d = (case d of None \<Rightarrow> True | Some dpd \<Rightarrow> wf_dpd dpd)"

lemma ot_simps [simp]: "ot f None = 0" "ot f (Some dpd) = tot f dpd" and owf_simps [simp]: "owf None" "owf (Some dpd) = wf_dpd dpd"
  by (simp_all add: ot_def owf_def)

definition radar_mem :: "dfs_pattern_detector option list \<Rightarrow> radar_pools \<Rightarrow> bool" where
  "radar_mem ds P \<longleftrightarrow> (\<exists>d0 d1. ds = [d0, d1] \<and> owf d0 \<and> owf d1 \<and>
     pool_ok (ot np d0 + ot np d1) (ot ns d0 + ot ns d1) (ot (\<lambda>_. 1) d0 + ot (\<lambda>_. 1) d1) P)"

lemma radar_mem_length: "radar_mem ds P \<Longrightarrow> length ds = 2"
  by (auto simp: radar_mem_def)

lemma radar_mem_focus:
  assumes "radar_mem ds P" "c < 2" "ds ! c = Some dpd"
  shows "dpd_ok (ot np (ds ! (1 - c))) (ot ns (ds ! (1 - c))) (ot (\<lambda>_. 1) (ds ! (1 - c))) (dpd, P)"
  using assms by (auto simp: radar_mem_def dpd_ok_def less_2_cases_iff add.commute)

lemma radar_mem_put:
  assumes "radar_mem ds P" "c < 2"
    "dpd_ok (ot np (ds ! (1 - c))) (ot ns (ds ! (1 - c))) (ot (\<lambda>_. 1) (ds ! (1 - c))) (dpd, P')"
  shows "radar_mem (ds[c := Some dpd]) P'"
  using assms by (auto simp: radar_mem_def dpd_ok_def less_2_cases_iff add.commute)

lemma radar_mem_exit:
  assumes "radar_mem ds P" "c < 2" "ds ! c = Some dpd"
  shows "radar_mem (ds[c := None]) (dfs_pattern_detector_exit (dpd, P))"
  using exit_all_ok(1) [OF radar_mem_focus [OF assms]] assms
  by (auto simp: radar_mem_def less_2_cases_iff dfs_pattern_detector_exit_def)

lemma radar_mem_add_pulse:
  assumes "radar_mem ds P" "c < 2" "ds ! c = Some dpd"
    "dfs_pattern_detector_add_pulse mem us jf freq pri len now (dpd, P) = Inr (det, dpd', P')"
  shows "radar_mem (ds[c := Some dpd']) P'"
  using radar_mem_put [OF assms(1,2) dpd_ok_add_pulse [OF radar_mem_focus [OF assms(1-3)] assms(4)]] .

lemma radar_mem_set_domain:
  assumes "radar_mem ds P" "c < 2" "ds ! c = Some dpd" "dfs_pattern_detector_set_domain reg chain (dpd, P) = (ok, dpd', P')"
  shows "radar_mem (ds[c := Some dpd']) P'"
  using radar_mem_put [OF assms(1,2) dpd_ok_set_domain [OF radar_mem_focus [OF assms(1-3)] assms(4)]] .

lemma radar_mem_cong:
  assumes "radar_mem ds P" "c < 2" "ds ! c = Some dpd" "detectors dpd' = detectors dpd" "num_radar_types dpd' = num_radar_types dpd"
  shows "radar_mem (ds[c := Some dpd']) P"
  using radar_mem_put [OF assms(1,2) dpd_ok_cong [OF radar_mem_focus [OF assms(1-3)] assms(4,5)]] .

subsection \<open>The invariant\<close>

text \<open>Nothing was ever detected: the status is idle, nothing was reported, the rings of detected radars are empty.\<close>

definition quiet :: "rwnx_radar \<Rightarrow> bool" where
  "quiet r \<longleftrightarrow> r_status r = RWNX_RADAR_IDLE \<and> (\<forall>f. Cfg_Radar f \<notin> set (r_events r)) \<and> (\<forall>d\<in>set (r_detected r). rd_count d = 0)"

definition radar_inv :: "bool \<Rightarrow> rwnx_radar \<Rightarrow> bool" where
  "radar_inv ir r \<longleftrightarrow> radar_mem (r_dpd r) (r_pools r) \<and> length (r_pulses r) = 2 \<and> (\<forall>p\<in>set (r_pulses r). ring_ok p) \<and> (ir \<or> quiet r)"

lemma inv_cancel: "radar_inv ir r \<Longrightarrow> e_ir_detect e = ir \<Longrightarrow> radar_inv ir (rwnx_radar_cancel_cac e r)"
  by (auto simp: radar_inv_def rwnx_radar_cancel_cac_def rwnx_send_apm_stop_cac_req_def quiet_def Let_def split: option.splits)

lemma inv_cac_work: "radar_inv ir r \<Longrightarrow> e_ir_detect e = ir \<Longrightarrow> radar_inv ir (rwnx_radar_cac_work e r)"
  by (auto simp: radar_inv_def rwnx_radar_cac_work_def rwnx_send_apm_stop_cac_req_def quiet_def Let_def split: option.splits)

lemma inv_sta: "radar_inv ir r \<Longrightarrow> e_ir_detect e = ir \<Longrightarrow> radar_inv ir (radar_sta_add e r) \<and> radar_inv ir (radar_sta_del e r)"
  by (auto simp: radar_inv_def radar_sta_add_def radar_sta_del_def Let_def)

lemma inv_requests:
  "radar_inv ir r \<Longrightarrow> e_ir_detect e = ir \<Longrightarrow> radar_inv ir (rwnx_send_apm_start_cac_req e r)"
  "radar_inv ir r \<Longrightarrow> radar_inv ir (rwnx_radar_start_cac v r)"
  by (auto simp: radar_inv_def rwnx_send_apm_start_cac_req_def rwnx_radar_start_cac_def quiet_def)

lemma inv_enable:
  assumes "radar_inv ir r" "rwnx_radar_detection_enable v c r = Inr r'"
  shows "radar_inv ir r'"
proof (cases "c < 2")
  case True
  then obtain dpd where d: "r_dpd r ! c = Some dpd" "r' = r\<lparr>r_dpd := (r_dpd r)[c := Some (dpd\<lparr>enabled := v\<rparr>)]\<rparr>"
    using assms(2) by (auto simp: rwnx_radar_detection_enable_def split: option.splits)
  have "radar_mem ((r_dpd r)[c := Some (dpd\<lparr>enabled := v\<rparr>)]) (r_pools r)"
    using assms(1) True d(1) by (intro radar_mem_cong) (simp_all add: radar_inv_def)
  then show ?thesis using assms(1) d(2) by (simp add: radar_inv_def quiet_def)
next
  case False
  then show ?thesis using assms by (simp add: rwnx_radar_detection_enable_def)
qed

lemma inv_note: "radar_inv True r \<Longrightarrow> radar_inv True (note_detected e c f r)"
  by (simp add: radar_inv_def note_detected_def Let_def)

lemma inv_found:
  assumes "radar_inv True r" "radar_found e c f r = Inr r'" "e_ir_detect e"
  shows "radar_inv True r'"
proof (cases "c = 0 \<and> map_option enabled (r_dpd r ! c) = Some RWNX_RADAR_DETECT_REPORT")
  case True
  have "radar_inv True (rwnx_radar_detected_fn e r)"
    using inv_cancel [OF assms(1), of e] assms(1,3) by (auto simp: rwnx_radar_detected_fn_def radar_inv_def Let_def split: option.splits)
  moreover obtain r1 where en: "rwnx_radar_detection_enable RWNX_RADAR_DETECT_DISABLE c (rwnx_radar_detected_fn e r) = Inr r1"
    and r': "r' = note_detected e c f (r1\<lparr>r_pulses := (r_pulses r1)[c := (r_pulses r1 ! c)\<lparr>rp_count := 0\<rparr>]\<rparr>)"
    using assms(2) True by (auto simp: radar_found_def and_then_Inr simp del: RWNX_RADAR_DETECT_REPORT_def RWNX_RADAR_DETECT_DISABLE_def)
  ultimately have r1: "radar_inv True r1" using inv_enable by blast
  have "ring_ok ((r_pulses r1 ! c)\<lparr>rp_count := 0\<rparr>)" using r1 True by (simp add: radar_inv_def ring_ok_def)
  then have "radar_inv True (r1\<lparr>r_pulses := (r_pulses r1)[c := (r_pulses r1 ! c)\<lparr>rp_count := 0\<rparr>]\<rparr>)"
    using r1 by (auto simp: radar_inv_def dest!: subsetD [OF set_update_subset_insert])
  then show ?thesis using r' inv_note by simp
next
  case False
  then have "r' = note_detected e c f r"
    using assms(2) by (auto simp: radar_found_def simp del: RWNX_RADAR_DETECT_REPORT_def split: if_splits)
  then show ?thesis using assms(1) inv_note by simp
qed

lemma inv_dump: "radar_inv ir r \<Longrightarrow> dump_pulse e c w r = Inr r' \<Longrightarrow> radar_inv ir r'"
  by (auto simp: dump_pulse_def radar_inv_def quiet_def Let_def split: if_splits rmem_ptr.splits option.splits)

lemma inv_chain_loop:
  "radar_inv ir r \<Longrightarrow> e_ir_detect e = ir \<Longrightarrow> c < 2 \<Longrightarrow> chain_loop e c freq ws r = Inr r' \<Longrightarrow> radar_inv ir r'"
proof (induction ws arbitrary: r)
  case (Cons w ws)
  from Cons.prems(4) obtain r1 where r1: "dump_pulse e c w r = Inr r1" by (auto simp: and_then_Inr)
  note i1 = inv_dump [OF Cons.prems(1) r1]
  show ?case
  proof (cases "r_status r1 \<noteq> RWNX_RADAR_CAC_BUSY \<and> r_status r1 \<noteq> RWNX_RADAR_INSERVICE_BUSY")
    case True
    then show ?thesis using Cons.prems(4) r1 i1 by simp
  next
    case busy: False
    then have ir: "ir" using i1 by (auto simp: radar_inv_def quiet_def)
    let ?f = "freq + 2 * scast (pulse_freq w)"
    from busy Cons.prems(4) r1 obtain dpd det dpd1 P1 where d: "r_dpd r1 ! c = Some dpd"
      "dfs_pattern_detector_add_pulse (e_mem e) (e_usecs e) (e_jiffies e) ?f (pulse_rep w) (ucast (pulse_len w) * 2) (e_now e)
         (dpd, r_pools r1) = Inr (det, dpd1, P1)"
      and next_: "(if det then radar_found e c ?f (r1\<lparr>r_dpd := (r_dpd r1)[c := Some dpd1], r_pools := P1\<rparr>)
        else chain_loop e c freq ws (r1\<lparr>r_dpd := (r_dpd r1)[c := Some dpd1], r_pools := P1\<rparr>)) = Inr r'"
      by (auto simp: and_then_Inr Let_def split: if_splits option.splits)
    have "radar_inv ir (r1\<lparr>r_dpd := (r_dpd r1)[c := Some dpd1], r_pools := P1\<rparr>)"
      using radar_mem_add_pulse [OF _ Cons.prems(3) d] i1 ir by (simp add: radar_inv_def)
    then show ?thesis using next_ ir Cons.IH Cons.prems(2,3) inv_found by (cases det) auto
  qed
qed simp

lemma inv_process:
  assumes "radar_inv ir r" "e_ir_detect e = ir" "rwnx_radar_process_pulse e r = Inr r'"
  shows "radar_inv ir r'"
proof -
  let ?r1 = "r\<lparr>detection_work := False, r_pulses := map (\<lambda>p. p\<lparr>rp_count := 0\<rparr>) (r_pulses r)\<rparr>"
  have i1: "radar_inv ir ?r1" using assms(1) by (auto simp: radar_inv_def ring_ok_def quiet_def)
  obtain r2 where r2: "chain_loop e 0 (rwnx_radar_get_center_freq e 0) (map ring_copy (r_pulses r) ! 0) ?r1 = Inr r2"
    "chain_loop e 1 (rwnx_radar_get_center_freq e 1) (map ring_copy (r_pulses r) ! 1) r2 = Inr r'"
    using assms(3) unfolding rwnx_radar_process_pulse_def Let_def and_then_Inr by blast
  have "radar_inv ir r2" using inv_chain_loop [OF i1 assms(2) _ r2(1)] by simp
  then show ?thesis using inv_chain_loop [OF _ assms(2) _ r2(2)] by simp
qed

lemma detect_ind_cases:
  assumes "rwnx_radar_detect_ind d r = Inr (ret, r')"
  obtains (ignored) "r' = r" | (put) c dpd where "c < 2" "r_dpd r ! c = Some dpd" "ret = 0" "c = unat (d_idx d)" "enabled dpd \<noteq> 0"
    "r' = r\<lparr>r_pulses := (r_pulses r)[c := fold ring_put (take (unat (d_cnt d)) (d_pulse d)) (r_pulses r ! c)], detection_work := True\<rparr>"
proof (cases "d_cnt d = 0")
  case True
  then show thesis using assms by (intro ignored) (simp add: rwnx_radar_detect_ind_def)
next
  case cnt: False
  let ?c = "unat (d_idx d)"
  obtain on where en: "rwnx_radar_detection_is_enable r ?c = Inr on"
    using assms cnt by (cases "rwnx_radar_detection_is_enable r ?c") (simp_all add: rwnx_radar_detect_ind_def Let_def)
  show thesis
  proof (cases on)
    case False
    then show thesis using assms cnt en by (intro ignored) (simp add: rwnx_radar_detect_ind_def Let_def)
  next
    case True
    then have r': "ret = 0" "r' = r\<lparr>r_pulses := (r_pulses r)[?c := fold ring_put (take (unat (d_cnt d)) (d_pulse d)) (r_pulses r ! ?c)],
        detection_work := True\<rparr>"
      using assms cnt en by (simp_all add: rwnx_radar_detect_ind_def Let_def split: if_splits)
    obtain dpd where "?c < 2" "r_dpd r ! ?c = Some dpd" "enabled dpd \<noteq> 0"
      using en True by (auto simp: rwnx_radar_detection_is_enable_def split: if_splits option.splits)
    then show thesis using put r' by blast
  qed
qed

lemma inv_detect_ind:
  assumes "radar_inv ir r" "rwnx_radar_detect_ind d r = Inr (ret, r')"
  shows "radar_inv ir r'"
  using assms(2)
proof (cases rule: detect_ind_cases)
  case ignored
  then show ?thesis using assms(1) by simp
next
  case (put c dpd)
  have "ring_ok (r_pulses r ! c)" using assms(1) put(1) by (simp add: radar_inv_def)
  then have "ring_ok (fold ring_put (take (unat (d_cnt d)) (d_pulse d)) (r_pulses r ! c))" by (simp add: ring_copy_puts)
  then show ?thesis
    using assms(1) put(6) by (auto simp: radar_inv_def quiet_def dest!: subsetD [OF set_update_subset_insert])
qed

lemma inv_set_domain:
  assumes "radar_inv ir r" "rwnx_radar_set_domain reg r = Inr (ok, r')"
  shows "radar_inv ir r'"
proof (cases "r_dpd r ! 0")
  case None
  then show ?thesis using assms by (simp add: rwnx_radar_set_domain_def)
next
  case (Some d0)
  obtain ok0 d0' P1 where s0: "dfs_pattern_detector_set_domain reg RWNX_RADAR_RIU (d0, r_pools r) = (ok0, d0', P1)" by (metis prod_cases3)
  let ?r1 = "r\<lparr>r_dpd := (r_dpd r)[0 := Some d0'], r_pools := P1\<rparr>"
  have m: "radar_mem (r_dpd r) (r_pools r)" using assms(1) by (simp add: radar_inv_def)
  have i1: "radar_mem ((r_dpd r)[0 := Some d0']) P1" by (rule radar_mem_set_domain [OF m _ Some s0]) simp
  show ?thesis
  proof (cases ok0)
    case False
    then have "r' = ?r1" using assms(2) Some s0 by (simp add: rwnx_radar_set_domain_def Let_def)
    then show ?thesis using assms(1) i1 by (simp add: radar_inv_def quiet_def)
  next
    case True
    with assms(2) Some s0 obtain d1 where d1: "(r_dpd r)[0 := Some d0'] ! 1 = Some d1"
      by (auto simp: rwnx_radar_set_domain_def Let_def split: option.splits)
    obtain ok1 d1' P2 where s1: "dfs_pattern_detector_set_domain reg RWNX_RADAR_FCU (d1, P1) = (ok1, d1', P2)" by (metis prod_cases3)
    have "radar_mem ((r_dpd r)[0 := Some d0', 1 := Some d1']) P2" by (rule radar_mem_set_domain [OF i1 _ d1 s1]) simp
    moreover have "r' = ?r1\<lparr>r_dpd := (r_dpd r)[0 := Some d0', 1 := Some d1'], r_pools := P2\<rparr>"
      using assms(2) True Some s0 d1 s1 by (simp add: rwnx_radar_set_domain_def Let_def)
    ultimately show ?thesis using assms(1) by (simp add: radar_inv_def quiet_def)
  qed
qed

lemma mem_deinit_dpd:
  assumes "radar_mem (r_dpd r) (r_pools r)" "c < 2"
  shows "radar_mem (r_dpd (deinit_dpd c r)) (r_pools (deinit_dpd c r))" "r_dpd (deinit_dpd c r) = (r_dpd r)[c := None]"
proof -
  show "radar_mem (r_dpd (deinit_dpd c r)) (r_pools (deinit_dpd c r))"
    using radar_mem_exit [OF assms] assms(1) by (cases "r_dpd r ! c") (simp_all add: deinit_dpd_def)
  show "r_dpd (deinit_dpd c r) = (r_dpd r)[c := None]"
    by (cases "r_dpd r ! c") (simp_all add: deinit_dpd_def, metis list_update_id)
qed

lemma deinit_frame [frame]:
  "r_pulses (rwnx_radar_detection_deinit r) = r_pulses r" "r_status (rwnx_radar_detection_deinit r) = r_status r"
  "r_events (rwnx_radar_detection_deinit r) = r_events r" "r_detected (rwnx_radar_detection_deinit r) = r_detected r"
  by (simp_all add: rwnx_radar_detection_deinit_def rwnx_radar_deinit_rmem_def deinit_dpd_def split: option.splits)

lemma deinit_mem:
  assumes "radar_mem (r_dpd r) (r_pools r)"
  shows "radar_mem (r_dpd (rwnx_radar_detection_deinit r)) (r_pools (rwnx_radar_detection_deinit r))"
    "r_dpd (rwnx_radar_detection_deinit r) = [None, None]"
proof -
  let ?r0 = "deinit_dpd 0 r" and ?r1 = "deinit_dpd 1 (deinit_dpd 0 r)"
  have m0: "radar_mem (r_dpd ?r0) (r_pools ?r0)" "r_dpd ?r0 = (r_dpd r)[0 := None]" by (rule mem_deinit_dpd [OF assms], simp)+
  have m1: "radar_mem (r_dpd ?r1) (r_pools ?r1)" "r_dpd ?r1 = (r_dpd ?r0)[1 := None]" by (rule mem_deinit_dpd [OF m0(1)], simp)+
  have e: "r_dpd (rwnx_radar_detection_deinit r) = r_dpd ?r1" "r_pools (rwnx_radar_detection_deinit r) = r_pools ?r1"
    by (simp_all add: rwnx_radar_detection_deinit_def rwnx_radar_deinit_rmem_def)
  show "radar_mem (r_dpd (rwnx_radar_detection_deinit r)) (r_pools (rwnx_radar_detection_deinit r))" unfolding e by (rule m1(1))
  show "r_dpd (rwnx_radar_detection_deinit r) = [None, None]"
    unfolding e m1(2) m0(2) using radar_mem_length [OF assms] by (cases "r_dpd r") (auto simp: length_Suc_conv numeral_2_eq_2)
qed

lemma inv_deinit: "radar_inv ir r \<Longrightarrow> radar_inv ir (rwnx_radar_detection_deinit r)"
  using deinit_mem(1) [of r] by (simp add: radar_inv_def quiet_def deinit_frame)

lemma dfs_init_unset:
  "dfs_pattern_detector_init mem jf NL80211_DFS_UNSET chain P = (d, P') \<Longrightarrow>
     P' = P\<lparr>mallocs := Suc (mallocs P)\<rparr> \<and> owf d \<and> ot f d = 0"
  by (auto simp: dfs_pattern_detector_init_def dfs_pattern_detector_set_domain_def wf_dpd_def tot_def split: if_splits)

lemma pool_ok_mallocs [simp]: "pool_ok a b n (P\<lparr>mallocs := m\<rparr>) = pool_ok a b n P"
  by (simp add: pool_ok_def)

lemma init_rmem_frame [frame]:
  "r_dpd (rwnx_radar_init_rmem e r) = r_dpd r" "r_pulses (rwnx_radar_init_rmem e r) = r_pulses r"
  "r_events (rwnx_radar_init_rmem e r) = r_events r" "r_detected (rwnx_radar_init_rmem e r) = r_detected r"
  "pool_ok a b n (r_pools (rwnx_radar_init_rmem e r)) = pool_ok a b n (r_pools r)"
  by (simp_all add: rwnx_radar_init_rmem_def Let_def)

lemma inv_radar_init:
  assumes "radar_inv ir r" "r_dpd r = [None, None]"
  shows "radar_inv ir (snd (rwnx_radar_detection_init e r))"
proof -
  have p: "pool_ok 0 0 0 (r_pools r)" using assms by (auto simp: radar_inv_def radar_mem_def)
  obtain d0 P1 where d0: "dfs_pattern_detector_init (e_mem e) (e_jiffies e) NL80211_DFS_UNSET RWNX_RADAR_RIU (r_pools r) = (d0, P1)"
    by fastforce
  obtain d1 P2 where d1: "dfs_pattern_detector_init (e_mem e) (e_jiffies e) NL80211_DFS_UNSET RWNX_RADAR_FCU P1 = (d1, P2)"
    by fastforce
  have u: "owf d0" "owf d1" "ot f d0 = 0" "ot f d1 = 0" for f using dfs_init_unset [OF d0] dfs_init_unset [OF d1] by simp_all
  have q: "pool_ok 0 0 0 P1" "pool_ok 0 0 0 P2" using dfs_init_unset [OF d0] dfs_init_unset [OF d1] p by simp_all
  let ?r1 = "rwnx_radar_init_rmem e (r\<lparr>r_dpd := [d0, d1], r_pools := P2\<rparr>)\<lparr>r_status := RWNX_RADAR_IDLE\<rparr>"
  have i1: "radar_inv ir ?r1"
    using assms(1) u q by (auto simp: radar_inv_def radar_mem_def quiet_def init_rmem_frame)
  have good: "radar_inv ir (rwnx_radar_detection_deinit ?r1)" "radar_inv ir (?r1\<lparr>detection_work := False, cac_work := False, cac_vif := None\<rparr>)"
    using inv_deinit [OF i1] i1 by (simp, simp add: radar_inv_def quiet_def)
  show ?thesis
  proof (cases d0)
    case None
    then show ?thesis using assms d0 q(1) by (simp add: rwnx_radar_detection_init_def radar_inv_def radar_mem_def quiet_def)
  next
    case (Some x)
    then show ?thesis using good d0 d1 by (cases d1) (simp_all add: rwnx_radar_detection_init_def Let_def)
  qed
qed

lemma inv_radar_boot: "radar_inv ir radar_boot"
  by (simp add: radar_inv_def radar_boot_def radar_mem_def pool_ok_def no_pools_def ring_ok_def zero_pulses_def quiet_def zero_detected_def)

lemma inv_radar_step: "radar_inv ir r \<Longrightarrow> radar_step ir r r' \<Longrightarrow> radar_inv ir r'"
  by (erule radar_stepE)
    (auto intro: inv_radar_init inv_detect_ind inv_process inv_set_domain inv_enable inv_requests inv_cancel inv_cac_work inv_deinit
      simp: inv_sta rwnx_radar_detection_enable_on_cur_channel_def split: if_splits)

interpretation radar: invariant_of radar_boot "radar_step ir" "radar_inv ir" for ir
  by unfold_locales (rule inv_radar_boot, rule inv_radar_step)

section \<open>Reporting\<close>

lemma cancel_frame [frame]: "r_dpd (rwnx_radar_cancel_cac e r) = r_dpd r"
  by (simp add: rwnx_radar_cancel_cac_def rwnx_send_apm_stop_cac_req_def Let_def split: option.splits)

lemma found_reports:
  assumes "r_dpd r ! 0 = Some dpd" "length (r_dpd r) = 2" "enabled dpd = RWNX_RADAR_DETECT_REPORT" "e_center e = Some f"
  shows "\<exists>r'. radar_found e 0 g r = Inr r' \<and> Cfg_Radar f \<in> set (r_events r') \<and> map_option enabled (r_dpd r' ! 0) = Some RWNX_RADAR_DETECT_DISABLE \<and>
           r_dpd r' ! 1 = r_dpd r ! 1 \<and> length (r_dpd r') = 2"
  using assms
  by (simp add: radar_found_def rwnx_radar_detected_fn_def rwnx_radar_detection_enable_def cancel_frame note_detected_def Let_def)

lemma dump_total:
  assumes "r_rmem r = RM m" "r_dpd r ! c = Some dpd"
  shows "\<exists>m'. dump_pulse e c w r = Inr (r\<lparr>r_rmem := RM m'\<rparr>)"
  using assms by (cases "c = 0") (auto simp: dump_pulse_def Let_def intro: exI [of _ m])

lemma chain_loop_reports:
  assumes mem: "\<forall>n. e_mem e n \<noteq> None" and f: "e_center e = Some f"
  shows "r_status r = RWNX_RADAR_CAC_BUSY \<or> r_status r = RWNX_RADAR_INSERVICE_BUSY \<Longrightarrow> r_rmem r = RM m \<Longrightarrow>
    r_dpd r ! 0 = Some dpd \<Longrightarrow> length (r_dpd r) = 2 \<Longrightarrow> enabled dpd = RWNX_RADAR_DETECT_REPORT \<Longrightarrow>
    \<forall>w\<in>set ws. freq + 2 * scast (pulse_freq w) = g \<Longrightarrow>
    dfs_run (e_mem e) (e_usecs e) (e_jiffies e) g (map (\<lambda>w. (pulse_rep w, ucast (pulse_len w) * 2, e_now e)) ws) (dpd, r_pools r) = Inr (True, rr) \<Longrightarrow>
    \<exists>r'. chain_loop e 0 freq ws r = Inr r' \<and> Cfg_Radar f \<in> set (r_events r') \<and>
         map_option enabled (r_dpd r' ! 0) = Some RWNX_RADAR_DETECT_DISABLE \<and> r_dpd r' ! 1 = r_dpd r ! 1 \<and> length (r_dpd r') = 2"
proof (induction ws arbitrary: r m dpd)
  case (Cons w ws)
  obtain m' where d: "dump_pulse e 0 w r = Inr (r\<lparr>r_rmem := RM m'\<rparr>)" using dump_total [OF Cons.prems(2,3)] by blast
  obtain det dpd1 P1 where ap: "dfs_pattern_detector_add_pulse (e_mem e) (e_usecs e) (e_jiffies e) g (pulse_rep w) (ucast (pulse_len w) * 2)
      (e_now e) (dpd, r_pools r) = Inr (det, dpd1, P1)" and en: "enabled dpd1 = enabled dpd"
    using add_pulse_total [OF mem] by meson
  let ?r2 = "r\<lparr>r_rmem := RM m', r_dpd := (r_dpd r)[0 := Some dpd1], r_pools := P1\<rparr>"
  have r2: "r_dpd ?r2 ! 0 = Some dpd1" "length (r_dpd ?r2) = 2" "r_dpd ?r2 ! 1 = r_dpd r ! 1" "enabled dpd1 = RWNX_RADAR_DETECT_REPORT"
    using Cons.prems(4,5) en by simp_all
  have w: "freq + 2 * scast (pulse_freq w) = g" using Cons.prems(6) by simp
  have step: "chain_loop e 0 freq (w # ws) r = (if det then radar_found e 0 g ?r2 else chain_loop e 0 freq ws ?r2)"
    using Cons.prems(1,3) d ap w by (auto simp: Let_def)
  show ?case
  proof (cases det)
    case True
    then show ?thesis using found_reports [OF r2(1,2,4) f, of g] step r2(3) by metis
  next
    case False
    have "dfs_run (e_mem e) (e_usecs e) (e_jiffies e) g (map (\<lambda>w. (pulse_rep w, ucast (pulse_len w) * 2, e_now e)) ws) (dpd1, r_pools ?r2) = Inr (True, rr)"
      using Cons.prems(7) ap False by simp
    from Cons.IH [OF _ _ r2(1,2,4) _ this] Cons.prems(1,6) show ?thesis using step False r2(3) by simp
  qed
qed simp

lemma chain_one:
  assumes mem: "\<forall>n. e_mem e n \<noteq> None"
  shows "r_dpd r ! 1 \<noteq> None \<Longrightarrow> length (r_dpd r) = 2 \<Longrightarrow>
    \<exists>r'. chain_loop e 1 freq ws r = Inr r' \<and> r_events r' = r_events r \<and> r_dpd r' ! 0 = r_dpd r ! 0"
proof (induction ws arbitrary: r)
  case (Cons w ws)
  obtain dpd where dpd: "r_dpd r ! 1 = Some dpd" using Cons.prems(1) by auto
  let ?g = "freq + 2 * scast (pulse_freq w)"
  obtain det dpd1 P1 where ap: "dfs_pattern_detector_add_pulse (e_mem e) (e_usecs e) (e_jiffies e) ?g (pulse_rep w) (ucast (pulse_len w) * 2)
      (e_now e) (dpd, r_pools r) = Inr (det, dpd1, P1)"
    using add_pulse_total [OF mem] by meson
  let ?r2 = "r\<lparr>r_dpd := (r_dpd r)[1 := Some dpd1], r_pools := P1\<rparr>"
  have "\<exists>r'. chain_loop e 1 freq ws ?r2 = Inr r' \<and> r_events r' = r_events ?r2 \<and> r_dpd r' ! 0 = r_dpd ?r2 ! 0"
    by (rule Cons.IH) (use Cons.prems(2) in simp_all)
  then show ?case
    using dpd ap by (cases det) (auto simp: dump_pulse_def Let_def radar_found_def note_detected_def)
qed simp

section \<open>Properties\<close>

text \<open>
  C39: the ring of pulses is a bounded queue.  Whatever the rings hold, handling a radar indication
  appends the pulses it carries to the ring of its chain if the detection is enabled there, and
  schedules the work; what the work item will copy out of a ring is then the newest 32 pulses in
  the order of arrival.  The other ring is left alone.
\<close>

theorem radar_ring_refines:
  assumes "length (r_pulses r) = 2" "\<forall>p\<in>set (r_pulses r). ring_ok p" "c < 2" "rwnx_radar_detect_ind d r = Inr (ret, r')"
  shows "if c = unat (d_idx d) \<and> d_cnt d \<noteq> 0 \<and> rwnx_radar_detection_is_enable r c = Inr True
         then ring_copy (r_pulses r' ! c) = newest 32 (ring_copy (r_pulses r ! c) @ take (unat (d_cnt d)) (d_pulse d)) \<and> detection_work r'
         else ring_copy (r_pulses r' ! c) = ring_copy (r_pulses r ! c)"
proof -
  have ok: "ring_ok (r_pulses r ! c)" using assms(1-3) by simp
  show ?thesis
    using assms ring_copy_puts [OF ok, of "take (unat (d_cnt d)) (d_pulse d)"]
    by (cases "d_cnt d = 0"; cases "rwnx_radar_detection_is_enable r (unat (d_idx d))")
      (auto simp: rwnx_radar_detect_ind_def Let_def nth_list_update split: if_splits)
qed

text \<open>
  C38: no radar object is leaked.  In every state the detection can reach, whatever domains were
  set, pulses processed, allocations failed and detectors reset on the way,
  \<open>rwnx_radar_detection_deinit\<close> frees every pulse and every sequence that was ever allocated.
\<close>

theorem radar_memory_released:
  assumes "reachable radar_boot (radar_step ir) r"
  shows "pulse_objs (r_pools (rwnx_radar_detection_deinit r)) = 0 \<and> pseq_objs (r_pools (rwnx_radar_detection_deinit r)) = 0"
proof -
  have "radar_mem (r_dpd r) (r_pools r)" using radar.holds [OF assms] by (simp add: radar_inv_def)
  from deinit_mem [OF this] show ?thesis by (auto simp: radar_mem_def pool_ok_def)
qed

text \<open>
  C40: without \<open>CONFIG_RADAR_OR_IR_DETECT\<close> no radar is ever reported.  The status stays idle because
  every assignment to it is compiled out, and the work item drops each pulse it copies; so, in every
  reachable state, cfg80211 was told of no radar and no detection was noted, although the firmware
  may have sent any pulses and the detection may be enabled.
\<close>

theorem radar_off_never_reports:
  assumes "reachable radar_boot (radar_step False) r"
  shows "r_status r = RWNX_RADAR_IDLE \<and> Cfg_Radar f \<notin> set (r_events r) \<and> (\<forall>d\<in>set (r_detected r). rd_count d = 0)"
  using radar.holds [OF assms] by (simp add: radar_inv_def quiet_def)

text \<open>A waiting burst: the operating chain's ring holds the threshold number of pulses of one waveform.\<close>

definition burst_waiting :: "radar_detector_specs \<Rightarrow> nat \<Rightarrow> u16 \<Rightarrow> u32 list \<Rightarrow> bool" where
  "burst_waiting rs T offset ws \<longleftrightarrow> length ws = unat (rs_ppb_thresh rs) \<and> list_all (\<lambda>w. pulse_rep w = word_of_nat T) (tl ws) \<and>
     list_all (\<lambda>w. 2 * scast (pulse_freq w) = offset \<and> ucast (width_min rs) \<le> ucast (pulse_len w) * (2 :: u16) \<and>
                   ucast (pulse_len w) * (2 :: u16) \<le> ucast (width_max rs)) ws"

lemma burst_waiting_run:
  assumes "burst_waiting rs T offset ws" "0 < unat (rs_ppb_thresh rs)"
  shows "map (\<lambda>w. (pulse_rep w, ucast (pulse_len w) * (2 :: u16), now)) ws =
    map (\<lambda>k. (if k = 0 then pulse_rep (ws ! 0) else word_of_nat T, ucast (pulse_len (ws ! k)) * 2, now)) [0..<unat (rs_ppb_thresh rs)]"
    (is "?l = ?r")
proof (rule nth_equalityI)
  show "length ?l = length ?r" using assms(1) by (simp add: burst_waiting_def)
  fix k
  assume "k < length ?l"
  then have k: "k < length ws" by simp
  have "k \<noteq> 0 \<Longrightarrow> pulse_rep (ws ! k) = word_of_nat T"
    using assms(1) k by (cases k) (auto simp: burst_waiting_def list_all_length nth_tl)
  then show "?l ! k = ?r ! k" using assms(1) k by (cases "k = 0") (simp_all add: burst_waiting_def)
qed


section \<open>Concrete runs\<close>

definition demo_env :: radar_env where
  "demo_env = \<lparr>e_mem = \<lambda>_. Some any_seq, e_usecs = \<lambda>j. j, e_now = 10, e_jiffies = 10, e_seconds = 0, e_center = Some 5500, e_sec_center = 5180,
               e_msg_ok = True, e_ir_detect = True\<rparr>"

text \<open>Five pulses of two microseconds, 333 microseconds apart, on the centre frequency, wait in the operating chain's ring.\<close>

definition demo_ring :: rwnx_radar_pulses where
  "demo_ring = \<lparr>rp_index = 5, rp_count = 5, rp_buffer = replicate 5 21824512 @ replicate 27 0\<rparr>"

definition demo_dump :: rwnx_radar_dump where
  "demo_dump = \<lparr>rm_cnt = 0, rm_idx = 0, rm_ps = replicate 32 0, rm_tm = replicate 32 0, rm_ts = replicate 32 0\<rparr>"

definition demo_radar :: rwnx_radar where
  "demo_radar = radar_boot\<lparr>r_pulses := [demo_ring, zero_pulses], r_dpd := [Some fcc_dpd, Some fcc_dpd], r_rmem := RM demo_dump,
                           r_status := RWNX_RADAR_CAC_BUSY\<rparr>"

lemma demo_ring_copy: "ring_copy demo_ring = replicate 5 21824512"
  by (simp add: ring_copy_def demo_ring_def Let_def)


text \<open>An indication of three pulses for the operating chain, with five already waiting.\<close>

definition demo_desc :: radar_pulse_array_desc where
  "demo_desc = \<lparr>d_pulse = [7, 8, 9, 0], d_idx = 0, d_cnt = 3\<rparr>"

theorem radar_ring_refines_witness:
  "\<exists>r'. rwnx_radar_detect_ind demo_desc demo_radar = Inr (0, r') \<and> ring_copy (r_pulses r' ! 0) = replicate 5 21824512 @ [7, 8, 9] \<and> detection_work r'"
proof -
  have en: "rwnx_radar_detection_is_enable demo_radar 0 = Inr True"
    by (simp add: rwnx_radar_detection_is_enable_def demo_radar_def fcc_dpd_def)
  obtain r' where r': "rwnx_radar_detect_ind demo_desc demo_radar = Inr (0, r')"
    using en by (simp add: rwnx_radar_detect_ind_def demo_desc_def)
  have "length (r_pulses demo_radar) = 2" "\<forall>p\<in>set (r_pulses demo_radar). ring_ok p"
    by (simp_all add: demo_radar_def demo_ring_def zero_pulses_def ring_ok_def)
  from radar_ring_refines [OF this, of 0 demo_desc 0 r'] r' en
  have "ring_copy (r_pulses r' ! 0) = newest 32 (ring_copy (r_pulses demo_radar ! 0) @ take 3 [7, 8, 9, 0]) \<and> detection_work r'"
    by (simp add: demo_desc_def)
  then show ?thesis using r' by (simp add: demo_radar_def demo_ring_copy newest_def numeral_eq_Suc)
qed

text \<open>A start of the driver followed by the start of a channel availability check.\<close>

definition demo_started :: "bool \<Rightarrow> rwnx_radar" where
  "demo_started ir = rwnx_send_apm_start_cac_req (demo_env\<lparr>e_ir_detect := ir\<rparr>) (snd (rwnx_radar_detection_init demo_env radar_boot))"

lemma demo_reach: "reachable radar_boot (radar_step ir) (demo_started ir)"
proof -
  have "radar_step ir radar_boot (snd (rwnx_radar_detection_init demo_env radar_boot))"
    by (rule rs_init) (simp_all add: radar_boot_def)
  then have "reachable radar_boot (radar_step ir) (snd (rwnx_radar_detection_init demo_env radar_boot))"
    by (rule reach_step [OF reach_init])
  then show ?thesis unfolding demo_started_def by (rule reach_step) (rule rs_start_req, simp)
qed

theorem radar_memory_released_witness:
  "pulse_objs (r_pools (rwnx_radar_detection_deinit (demo_started True))) = 0 \<and>
   pseq_objs (r_pools (rwnx_radar_detection_deinit (demo_started True))) = 0"
  by (rule radar_memory_released [OF demo_reach])

theorem radar_off_never_reports_witness:
  "r_status (demo_started False) = RWNX_RADAR_IDLE \<and> Cfg_Radar 5500 \<notin> set (r_events (demo_started False))"
  using radar_off_never_reports [OF demo_reach, of 5500] by simp

text \<open>
  \<open>rwnx_radar_detection_deinit\<close> frees the detectors and the record of pulses but leaves a scheduled
  \<open>detection_work\<close> pending; when it runs it writes to the freed record.
\<close>

lemma deinit_leaves_work: "detection_work (rwnx_radar_detection_deinit r) = detection_work r"
  by (simp add: rwnx_radar_detection_deinit_def rwnx_radar_deinit_rmem_def deinit_dpd_def split: option.splits)

lemma radar_work_after_deinit:
  "rwnx_radar_process_pulse demo_env (rwnx_radar_detection_deinit demo_radar) = Inl Out_Of_Bounds"
proof -
  let ?r = "rwnx_radar_detection_deinit demo_radar"
  have "r_rmem ?r = RM_FREED" by (simp add: rwnx_radar_detection_deinit_def rwnx_radar_deinit_rmem_def deinit_dpd_def demo_radar_def radar_boot_def)
  moreover have "ring_copy (r_pulses ?r ! 0) = replicate 5 21824512" "length (r_pulses ?r) = 2"
    by (simp_all add: deinit_frame demo_radar_def demo_ring_copy)
  ultimately show ?thesis by (simp add: rwnx_radar_process_pulse_def Let_def dump_pulse_def numeral_eq_Suc)
qed

end
